(* ===== verification/Prelude.thy ===== *)
theory Prelude
  imports Main "HOL-Library.AList"
begin

text \<open>
  Shared vocabulary of the development: the outcome type for Go code that may panic, Go's
  \<open>int64\<close> arithmetic with its wrap-around and truncated division, wall-clock times in
  nanoseconds, Go maps as association lists (the list order stands for one iteration order of
  \<open>range\<close>), and the fact collections the component theories extend.
\<close>

named_theorems go_simps \<open>unfolding rules for outcomes that may be a panic\<close>
named_theorems gomap_simps \<open>lookup after set and delete on Go maps\<close>
named_theorems frame_simps \<open>state components an operation leaves alone\<close>

section \<open>Outcomes\<close>

text \<open>
  \<open>Panic\<close> is a run-time panic of the Go code (index or slice bounds out of range, nil
  dereference, an explicit \<open>panic\<close>); \<open>Ret x\<close> is a normal return of \<open>x\<close>.
\<close>

datatype 'a go = Ret 'a | Panic

primrec go_bind :: "'a go \<Rightarrow> ('a \<Rightarrow> 'b go) \<Rightarrow> 'b go" where
  "go_bind (Ret x) f = f x"
| "go_bind Panic f = Panic"

lemma go_bind_Ret_iff [go_simps]:
  "go_bind m f = Ret y \<longleftrightarrow> (\<exists>x. m = Ret x \<and> f x = Ret y)"
  by (cases m) auto

lemma go_bind_Panic_iff [go_simps]:
  "go_bind m f = Panic \<longleftrightarrow> m = Panic \<or> (\<exists>x. m = Ret x \<and> f x = Panic)"
  by (cases m) auto

lemma go_bind_assoc: "go_bind (go_bind m f) g = go_bind m (\<lambda>x. go_bind (f x) g)"
  by (cases m) auto

text \<open>Reading \<open>xs[i]\<close> of a slice: a panic outside the bounds.\<close>

definition go_index :: "'a list \<Rightarrow> nat \<Rightarrow> 'a go" where
  "go_index xs i = (if i < length xs then Ret (xs ! i) else Panic)"

text \<open>Slicing \<open>s[lo:hi]\<close>: a panic unless \<open>lo \<le> hi \<le> len(s)\<close>; indices are Go ints.\<close>

definition go_slice :: "'a list \<Rightarrow> int \<Rightarrow> int \<Rightarrow> 'a list go" where
  "go_slice xs lo hi =
     (if 0 \<le> lo \<and> lo \<le> hi \<and> hi \<le> int (length xs)
      then Ret (take (nat (hi - lo)) (drop (nat lo) xs)) else Panic)"

lemma go_index_Ret_iff [go_simps]: "go_index xs i = Ret x \<longleftrightarrow> i < length xs \<and> xs ! i = x"
  by (auto simp: go_index_def)

lemma go_index_Panic_iff [go_simps]: "go_index xs i = Panic \<longleftrightarrow> length xs \<le> i"
  by (auto simp: go_index_def)

lemma go_slice_prefix:
  "0 \<le> n \<Longrightarrow> n \<le> int (length xs) \<Longrightarrow> go_slice xs 0 n = Ret (take (nat n) xs)"
  by (simp add: go_slice_def)

section \<open>Errors\<close>

datatype go_error =
    ErrNotFound                 \<comment> \<open>\<open>errNotFound\<close> of netflow.go\<close>
  | ErrQueueFull                \<comment> \<open>\<open>ErrQueueFull\<close> of ringqueue.go\<close>
  | ErrMsg string               \<comment> \<open>\<open>errors.New\<close> with a fixed text\<close>
  | ErrIO                       \<comment> \<open>an error the operating system or a library returned\<close>

section \<open>Machine integers\<close>

text \<open>
  Go's \<open>int\<close> and \<open>int64\<close> are 64-bit two's complement on the platforms the program runs on;
  \<open>wrap64\<close> brings the exact result of an operation back into range, as the hardware does.
\<close>

definition wrap64 :: "int \<Rightarrow> int" where
  "wrap64 x = (x + 2 ^ 63) mod 2 ^ 64 - 2 ^ 63"

abbreviation in_int64 :: "int \<Rightarrow> bool" where
  "in_int64 x \<equiv> - (2 ^ 63) \<le> x \<and> x < 2 ^ 63"

lemma wrap64_id: "in_int64 x \<Longrightarrow> wrap64 x = x"
  by (simp add: wrap64_def)

lemma wrap64_range: "in_int64 (wrap64 x)"
  by (simp add: wrap64_def)

lemma wrap64_wrap64 [simp]: "wrap64 (wrap64 x) = wrap64 x"
  using wrap64_range [of x] by (rule wrap64_id)

lemma wrap64_cong: "x mod 2 ^ 64 = y mod 2 ^ 64 \<Longrightarrow> wrap64 x = wrap64 y"
  unfolding wrap64_def by (metis mod_add_left_eq)

lemma wrap64_mod: "wrap64 x mod 2 ^ 64 = x mod 2 ^ 64"
  unfolding wrap64_def by (simp add: mod_diff_left_eq)

lemma wrap64_add_left [simp]: "wrap64 (wrap64 x + y) = wrap64 (x + y)"
  by (rule wrap64_cong) (metis mod_add_left_eq wrap64_mod)

lemma wrap64_add_right [simp]: "wrap64 (x + wrap64 y) = wrap64 (x + y)"
  using wrap64_add_left [of y x] by (simp add: add.commute)

text \<open>Go's \<open>/\<close> on \<open>int64\<close> truncates towards zero; the most negative value over \<open>-1\<close> wraps.\<close>

definition quot64 :: "int \<Rightarrow> int \<Rightarrow> int" where
  "quot64 a b = wrap64 (sgn a * sgn b * (\<bar>a\<bar> div \<bar>b\<bar>))"

lemma quot64_nonneg:
  assumes "0 \<le> a" "0 < b" "a < 2 ^ 63"
  shows "quot64 a b = a div b"
proof -
  have "a div b \<le> a" using assms by (intro zdiv_mono2 [of a 1 b, simplified]) auto
  moreover have "0 \<le> a div b" using assms by (simp add: pos_imp_zdiv_nonneg_iff)
  moreover have "sgn a * sgn b * (\<bar>a\<bar> div \<bar>b\<bar>) = a div b"
    using assms by (cases "a = 0") auto
  ultimately show ?thesis using assms(3) by (simp add: quot64_def wrap64_id)
qed

section \<open>Time\<close>

text \<open>A \<open>time.Time\<close> is its nanoseconds since the epoch, a \<open>time.Duration\<close> nanoseconds.\<close>

type_synonym time = int
type_synonym duration = int

abbreviation second :: duration where "second \<equiv> 1000000000"
abbreviation minute :: duration where "minute \<equiv> 60000000000"

text \<open>\<open>t.Unix()\<close>: whole seconds since the epoch.\<close>

definition unix :: "time \<Rightarrow> int" where
  "unix t = t div second"

lemma unix_mono: "s \<le> t \<Longrightarrow> unix s \<le> unix t"
  by (simp add: unix_def zdiv_mono1)

section \<open>Go maps\<close>

text \<open>
  A Go map with its entries in the order one \<open>range\<close> loop visits them. Go leaves that order
  open, so facts about a map are stated over \<open>map_of\<close> and hold for every order.
\<close>

type_synonym ('k, 'v) gomap = "('k \<times> 'v) list"

definition gm_get :: "('k, 'v) gomap \<Rightarrow> 'k \<Rightarrow> 'v option" where
  "gm_get m k = map_of m k"

definition gm_set :: "'k \<Rightarrow> 'v \<Rightarrow> ('k, 'v) gomap \<Rightarrow> ('k, 'v) gomap" where
  "gm_set k v m = AList.update k v m"

definition gm_del :: "'k \<Rightarrow> ('k, 'v) gomap \<Rightarrow> ('k, 'v) gomap" where
  "gm_del k m = AList.delete k m"

definition gm_keys :: "('k, 'v) gomap \<Rightarrow> 'k list" where
  "gm_keys m = map fst m"

definition gm_ok :: "('k, 'v) gomap \<Rightarrow> bool" where
  "gm_ok m = distinct (map fst m)"

lemma gm_get_Nil [simp]: "gm_get [] k = None"
  by (simp add: gm_get_def)

lemma gm_get_Cons: "gm_get ((k, v) # m) j = (if j = k then Some v else gm_get m j)"
  by (simp add: gm_get_def)

lemma gm_get_set [gomap_simps]: "gm_get (gm_set k v m) j = (if j = k then Some v else gm_get m j)"
  by (simp add: gm_get_def gm_set_def update_conv')

lemma gm_get_del [gomap_simps]: "gm_get (gm_del k m) j = (if j = k then None else gm_get m j)"
  by (simp add: gm_get_def gm_del_def delete_conv')

lemma gm_ok_Nil [simp]: "gm_ok []"
  by (simp add: gm_ok_def)

lemma gm_ok_set [intro]: "gm_ok m \<Longrightarrow> gm_ok (gm_set k v m)"
  by (simp add: gm_ok_def gm_set_def distinct_update)

lemma gm_ok_del [intro]: "gm_ok m \<Longrightarrow> gm_ok (gm_del k m)"
  by (simp add: gm_ok_def gm_del_def distinct_delete)

lemma gm_ok_filter: "gm_ok m \<Longrightarrow> gm_ok (filter P m)"
  by (simp add: gm_ok_def distinct_map_filter)

lemma gm_mem_keys: "k \<in> set (gm_keys m) \<longleftrightarrow> gm_get m k \<noteq> None"
  by (simp add: gm_keys_def gm_get_def map_of_eq_None_iff)

lemma gm_get_filter:
  "gm_ok m \<Longrightarrow> gm_get (filter (\<lambda>(k, v). P k v) m) k =
     (case gm_get m k of None \<Rightarrow> None | Some v \<Rightarrow> if P k v then Some v else None)"
proof (induction m)
  case Nil
  then show ?case by simp
next
  case (Cons a m)
  obtain j w where a: "a = (j, w)" by force
  have "gm_get m j = None" if "gm_ok (a # m)"
    using that a by (auto simp: gm_ok_def gm_get_def map_of_eq_None_iff)
  with Cons a show ?case
    by (auto simp: gm_get_Cons gm_ok_def split: option.splits)
qed

lemma gm_get_in_set: "gm_ok m \<Longrightarrow> (k, v) \<in> set m \<longleftrightarrow> gm_get m k = Some v"
  by (simp add: gm_ok_def gm_get_def)

text \<open>\<open>len(m)\<close>: a map holds each key once.\<close>

lemma gm_length_dom: "gm_ok m \<Longrightarrow> length m = card (dom (gm_get m))"
proof -
  assume "gm_ok m"
  moreover have "dom (gm_get m) = set (map fst m)"
    by (auto simp: gm_get_def [abs_def] dom_map_of_conv_image_fst)
  ultimately show ?thesis
    by (metis distinct_card gm_ok_def length_map)
qed

text \<open>
  The interface of a keyed store: what a lookup returns after a store and after a removal, on
  stores that satisfy the provider's invariant.
\<close>

locale keyed_store =
  fixes empty :: 'm
    and get :: "'m \<Rightarrow> 'k \<Rightarrow> 'v option"
    and put :: "'k \<Rightarrow> 'v \<Rightarrow> 'm \<Rightarrow> 'm"
    and del :: "'k \<Rightarrow> 'm \<Rightarrow> 'm"
    and ok :: "'m \<Rightarrow> bool"
  assumes get_empty: "get empty k = None"
    and get_put: "ok m \<Longrightarrow> get (put k v m) j = (if j = k then Some v else get m j)"
    and get_del: "ok m \<Longrightarrow> get (del k m) j = (if j = k then None else get m j)"
    and ok_empty: "ok empty"
    and ok_put: "ok m \<Longrightarrow> ok (put k v m)"
    and ok_del: "ok m \<Longrightarrow> ok (del k m)"
begin

lemma ok_puts: "ok m \<Longrightarrow> ok (foldl (\<lambda>m (k, v). put k v m) m kvs)"
  by (induction kvs arbitrary: m) (auto simp: ok_put)

lemma get_puts_other:
  "ok m \<Longrightarrow> j \<notin> fst ` set kvs \<Longrightarrow> get (foldl (\<lambda>m (k, v). put k v m) m kvs) j = get m j"
proof (induction kvs arbitrary: m)
  case (Cons kv kvs)
  then show ?case by (cases kv) (auto simp: ok_put get_put)
qed simp

text \<open>After a run of stores the last one to a key decides what a lookup returns.\<close>

lemma get_puts:
  "ok m \<Longrightarrow> get (foldl (\<lambda>m (k, v). put k v m) m kvs) j =
     (case map_of (rev kvs) j of Some v \<Rightarrow> Some v | None \<Rightarrow> get m j)"
proof (induction kvs arbitrary: m)
  case (Cons kv kvs)
  then show ?case
    by (cases kv) (auto simp: ok_put get_put map_add_def split: option.splits)
qed simp

lemma ok_dels: "ok m \<Longrightarrow> ok (foldl (\<lambda>m k. del k m) m ks)"
  by (induction ks arbitrary: m) (auto simp: ok_del)

lemma get_dels:
  "ok m \<Longrightarrow> get (foldl (\<lambda>m k. del k m) m ks) j = (if j \<in> set ks then None else get m j)"
  by (induction ks arbitrary: m) (auto simp: ok_del get_del)

end

interpretation gm: keyed_store "[]" gm_get gm_set gm_del gm_ok
  by unfold_locales (auto simp: gomap_simps)

end
