(* ===== verification/GoChan.thy ===== *)
theory GoChan
  imports Prelude
begin

text \<open>
  Bounded first-in first-out queues. The locale is the contract a queue's client relies on; a Go
  buffered channel with non-blocking send and receive (\<open>select\<close> with \<open>default\<close>) meets it, and so
  does the ring queue of \<open>ringqueue.go\<close> as long as its tail has not come to the end of the buffer.
\<close>

section \<open>The contract\<close>

datatype 'a queue_op = Enq 'a | Deq

locale bounded_fifo =
  fixes room :: "'q \<Rightarrow> bool"
    and enq :: "'a \<Rightarrow> 'q \<Rightarrow> 'q"
    and deq :: "'q \<Rightarrow> ('a \<times> 'q) option"
    and contents :: "'q \<Rightarrow> 'a list"
    and ok :: "'q \<Rightarrow> bool"
  assumes ok_enq: "ok q \<Longrightarrow> room q \<Longrightarrow> ok (enq x q)"
    and contents_enq: "ok q \<Longrightarrow> room q \<Longrightarrow> contents (enq x q) = contents q @ [x]"
    and deq_None: "ok q \<Longrightarrow> deq q = None \<longleftrightarrow> contents q = []"
    and deq_Some: "ok q \<Longrightarrow> deq q = Some (x, q') \<Longrightarrow> contents q = x # contents q' \<and> ok q'"
begin

text \<open>
  A run of operations: what was accepted, what came out, and the queue at the end. An element that
  finds no room is dropped.
\<close>

fun run :: "'a queue_op list \<Rightarrow> 'q \<Rightarrow> 'a list \<times> 'a list \<times> 'q" where
  "run [] q = ([], [], q)"
| "run (Enq x # ops) q =
     (if room q then (case run ops (enq x q) of (acc, out, q') \<Rightarrow> (x # acc, out, q')) else run ops q)"
| "run (Deq # ops) q =
     (case deq q of
        None \<Rightarrow> run ops q
      | Some (x, q1) \<Rightarrow> (case run ops q1 of (acc, out, q') \<Rightarrow> (acc, x # out, q')))"

text \<open>Order and conservation: what came out, then what is left, is what was there and accepted.\<close>

lemma run_fifo:
  "ok q \<Longrightarrow> run ops q = (acc, out, q') \<Longrightarrow> ok q' \<and> out @ contents q' = contents q @ acc"
proof (induction ops q arbitrary: acc out q' rule: run.induct)
  case (2 x ops q)
  show ?case
  proof (cases "room q")
    case True
    obtain a o1 q1 where r: "run ops (enq x q) = (a, o1, q1)" by (cases "run ops (enq x q)")
    with "2.IH"(1) [OF True ok_enq [OF "2.prems"(1) True] r] "2.prems" True show ?thesis
      by (auto simp: contents_enq)
  next
    case False
    with 2 show ?thesis by simp
  qed
next
  case (3 ops q)
  show ?case
  proof (cases "deq q")
    case None
    with 3 show ?thesis by simp
  next
    case (Some y)
    obtain x q1 where y: "y = (x, q1)" by force
    obtain a o1 q2 where r: "run ops q1 = (a, o1, q2)" by (cases "run ops q1")
    have "contents q = x # contents q1" "ok q1" using deq_Some "3.prems"(1) Some y by auto
    with "3.IH"(2) [OF Some y [symmetric] _ r] "3.prems"(2) Some y r show ?thesis by auto
  qed
qed simp

end

section \<open>Buffered channels\<close>

record 'a chan =
  chan_buf :: "'a list"
  chan_cap :: nat

definition make_chan :: "nat \<Rightarrow> 'a chan" where
  "make_chan n = \<lparr>chan_buf = [], chan_cap = n\<rparr>"

definition chan_room :: "'a chan \<Rightarrow> bool" where
  "chan_room c \<longleftrightarrow> length (chan_buf c) < chan_cap c"

definition chan_send :: "'a \<Rightarrow> 'a chan \<Rightarrow> 'a chan" where
  "chan_send x c = c\<lparr>chan_buf := chan_buf c @ [x]\<rparr>"

definition chan_recv :: "'a chan \<Rightarrow> ('a \<times> 'a chan) option" where
  "chan_recv c = (case chan_buf c of [] \<Rightarrow> None | x # xs \<Rightarrow> Some (x, c\<lparr>chan_buf := xs\<rparr>))"

definition chan_ok :: "'a chan \<Rightarrow> bool" where
  "chan_ok c \<longleftrightarrow> length (chan_buf c) \<le> chan_cap c"

lemma chan_ok_make [simp]: "chan_ok (make_chan n)"
  by (simp add: chan_ok_def make_chan_def)

lemma chan_cap_send [frame_simps]: "chan_cap (chan_send x c) = chan_cap c"
  by (simp add: chan_send_def)

lemma chan_cap_recv: "chan_recv c = Some (x, c') \<Longrightarrow> chan_cap c' = chan_cap c"
  by (auto simp: chan_recv_def split: list.splits)

interpretation ch: bounded_fifo chan_room chan_send chan_recv chan_buf chan_ok
  by unfold_locales
    (auto simp: chan_room_def chan_send_def chan_recv_def chan_ok_def split: list.splits)

end
