(* ===== verification/RingQueue.thy ===== *)
theory RingQueue
  imports GoChan "HOL-Library.Word"
begin

unbundle bit_operations_syntax

text \<open>
  \<open>ringqueue.go\<close>: a queue in a fixed buffer. An element is an \<open>interface{}\<close>, so \<open>nil\<close> is a value of
  its own: \<open>None\<close>. The indices never exceed the length of the buffer, so they are naturals. Every
  method holds the mutex and is one step.
\<close>

record 'a ringQueue =
  rq_buf :: "'a option list"
  rq_head :: nat
  rq_tail :: nat
  rq_count :: nat

text \<open>\<open>make\<close> panics on a negative size.\<close>

definition newRingQueue :: "int \<Rightarrow> 'a ringQueue go" where
  "newRingQueue sz =
     (if sz < 0 then Panic
      else Ret \<lparr>rq_buf = replicate (nat sz) None, rq_head = 0, rq_tail = 0, rq_count = 0\<rparr>)"

definition rq_Length :: "'a ringQueue \<Rightarrow> nat" where
  "rq_Length q = rq_count q"

definition rq_Add :: "'a option \<Rightarrow> 'a ringQueue \<Rightarrow> (go_error + 'a ringQueue) go" where
  "rq_Add elem q =
     (if rq_count q = length (rq_buf q) then Ret (Inl ErrQueueFull)
      else if length (rq_buf q) \<le> rq_tail q then Panic
      else
        let q = q\<lparr>rq_count := rq_count q + 1\<rparr>;
            q = q\<lparr>rq_buf := (rq_buf q)[rq_tail q := elem]\<rparr>;
            q = (if rq_tail q + 1 < length (rq_buf q) then q\<lparr>rq_tail := rq_tail q + 1\<rparr> else q);
            q = (if length (rq_buf q) = rq_count q then q\<lparr>rq_tail := 0\<rparr> else q)
        in Ret (Inr q))"

definition rq_Peek :: "'a ringQueue \<Rightarrow> 'a option go" where
  "rq_Peek q = (if rq_count q = 0 then Ret None else go_index (rq_buf q) (rq_head q))"

definition rq_Remove :: "'a ringQueue \<Rightarrow> ('a option \<times> 'a ringQueue) go" where
  "rq_Remove q =
     (if rq_count q = 0 then Ret (None, q)
      else go_bind (go_index (rq_buf q) (rq_head q)) (\<lambda>ret.
        Ret (ret, q\<lparr>rq_buf := (rq_buf q)[rq_head q := None],
                    rq_head := (rq_head q + 1) AND (length (rq_buf q) - 1),
                    rq_count := rq_count q - 1\<rparr>)))"

section \<open>Where it is a queue\<close>

text \<open>
  With a buffer of a power of two, the operations are a queue's until the tail has come to the end
  of the buffer: \<open>rq_room\<close> says that it has not. Past that point \<open>Add\<close> overwrites (shown in the
  root theory).
\<close>

definition rq_ok :: "'a ringQueue \<Rightarrow> bool" where
  "rq_ok q \<longleftrightarrow>
     (\<exists>k. length (rq_buf q) = 2 ^ k) \<and> rq_head q < length (rq_buf q) \<and>
     rq_head q + rq_count q \<le> length (rq_buf q) \<and>
     (rq_tail q = rq_head q + rq_count q \<or> rq_head q + rq_count q = length (rq_buf q) \<or>
      rq_head q = 0 \<and> rq_count q = 0)"

definition rq_room :: "'a ringQueue \<Rightarrow> bool" where
  "rq_room q \<longleftrightarrow> rq_tail q = rq_head q + rq_count q \<and> rq_tail q < length (rq_buf q)"

definition rq_contents :: "'a ringQueue \<Rightarrow> 'a option list" where
  "rq_contents q = take (rq_count q) (drop (rq_head q) (rq_buf q))"

definition rq_enq :: "'a option \<Rightarrow> 'a ringQueue \<Rightarrow> 'a ringQueue" where
  "rq_enq x q = (case rq_Add x q of Ret (Inr q') \<Rightarrow> q' | _ \<Rightarrow> q)"

definition rq_deq :: "'a ringQueue \<Rightarrow> ('a option \<times> 'a ringQueue) option" where
  "rq_deq q = (if rq_Length q = 0 then None
     else (case rq_Remove q of Ret r \<Rightarrow> Some r | Panic \<Rightarrow> None))"

lemma and_pow2_mask: "(x::nat) AND (2 ^ k - 1) = x mod 2 ^ k"
  by (simp add: take_bit_eq_mask mask_eq_exp_minus_1 flip: take_bit_eq_mod)

lemma rq_Add_room:
  assumes "rq_ok q" "rq_room q"
  shows "\<exists>q'. rq_Add x q = Ret (Inr q') \<and> rq_ok q' \<and> rq_contents q' = rq_contents q @ [x]"
proof -
  let ?n = "length (rq_buf q)" and ?t = "rq_head q + rq_count q"
  have t: "rq_tail q = ?t" "?t < ?n" using assms(2) by (auto simp: rq_room_def)
  then have eq: "rq_Add x q = Ret (Inr (q\<lparr>rq_count := rq_count q + 1, rq_buf := (rq_buf q)[?t := x],
      rq_tail := (if ?n = rq_count q + 1 then 0 else if ?t + 1 < ?n then ?t + 1 else ?t)\<rparr>))"
    by (auto simp: rq_Add_def Let_def)
  have "take (Suc (rq_count q)) (drop (rq_head q) ((rq_buf q)[?t := x])) = rq_contents q @ [x]"
    using t(2) by (simp add: rq_contents_def take_Suc_conv_app_nth drop_update_swap)
  moreover have "length ((rq_buf q)[?t := x]) = ?n" by simp
  ultimately show ?thesis
    using assms(1) t unfolding eq
    by (auto simp: rq_ok_def rq_contents_def intro!: exI)
qed

lemma rq_Remove_ok:
  assumes "rq_ok q" "rq_count q \<noteq> 0"
  shows "\<exists>x q'. rq_Remove q = Ret (x, q') \<and> rq_ok q' \<and> rq_contents q = x # rq_contents q'"
proof -
  let ?n = "length (rq_buf q)"
  obtain k where k: "?n = 2 ^ k" using assms(1) by (auto simp: rq_ok_def)
  have h: "rq_head q < ?n" "rq_head q + rq_count q \<le> ?n" using assms(1) by (auto simp: rq_ok_def)
  have wrap: "(rq_head q + 1) AND (?n - 1) = (rq_head q + 1) mod ?n"
    unfolding k by (rule and_pow2_mask)
  let ?q = "q\<lparr>rq_buf := (rq_buf q)[rq_head q := None], rq_head := (rq_head q + 1) mod ?n,
     rq_count := rq_count q - 1\<rparr>"
  have eq: "rq_Remove q = Ret (rq_buf q ! rq_head q, ?q)"
    using h assms(2) wrap by (simp add: rq_Remove_def go_index_def)
  have "rq_contents q = rq_buf q ! rq_head q # take (rq_count q - 1) (drop (rq_head q + 1) (rq_buf q))"
    using h(1) assms(2) by (cases "rq_count q") (simp_all add: rq_contents_def Cons_nth_drop_Suc [symmetric])
  moreover have "rq_ok ?q \<and> rq_contents ?q = take (rq_count q - 1) (drop (rq_head q + 1) (rq_buf q))"
  proof (cases "rq_head q + 1 < ?n")
    case True
    then show ?thesis using assms k h by (auto simp: rq_ok_def rq_contents_def)
  next
    case False
    then have "rq_head q + 1 = ?n" "rq_count q = 1" using h assms(2) by auto
    then show ?thesis using k by (auto simp: rq_ok_def rq_contents_def)
  qed
  ultimately show ?thesis unfolding eq by auto
qed

interpretation rq: bounded_fifo rq_room rq_enq rq_deq rq_contents rq_ok
proof unfold_locales
  fix q :: "'a ringQueue" and x
  assume ok: "rq_ok q"
  show "rq_ok (rq_enq x q)" if "rq_room q"
    using rq_Add_room [OF ok that, of x] by (auto simp: rq_enq_def)
  show "rq_contents (rq_enq x q) = rq_contents q @ [x]" if "rq_room q"
    using rq_Add_room [OF ok that, of x] by (auto simp: rq_enq_def)
  show "rq_deq q = None \<longleftrightarrow> rq_contents q = []"
    using rq_Remove_ok [OF ok]
    by (cases "rq_count q = 0") (auto simp: rq_deq_def rq_Length_def rq_contents_def)
  show "rq_contents q = x # rq_contents q' \<and> rq_ok q'" if "rq_deq q = Some (x, q')" for q'
    using rq_Remove_ok [OF ok] that by (auto simp: rq_deq_def rq_Length_def split: if_splits)
qed


section \<open>Past that point\<close>

text \<open>A run in which no addition is refused: what comes out, and the queue at the end.\<close>

fun rq_exec :: "'a option queue_op list \<Rightarrow> 'a ringQueue \<Rightarrow> ('a option list \<times> 'a ringQueue) option" where
  "rq_exec [] q = Some ([], q)"
| "rq_exec (Enq x # ops) q = (case rq_Add x q of Ret (Inr q1) \<Rightarrow> rq_exec ops q1 | _ \<Rightarrow> None)"
| "rq_exec (Deq # ops) q =
     (case rq_Remove q of
        Ret (x, q1) \<Rightarrow> map_option (\<lambda>(out, q2). (x # out, q2)) (rq_exec ops q1)
      | Panic \<Rightarrow> None)"

lemma rq_exec_append:
  "rq_exec (xs @ ys) q =
     (case rq_exec xs q of
        None \<Rightarrow> None
      | Some (out, q1) \<Rightarrow> map_option (\<lambda>(out', q2). (out @ out', q2)) (rq_exec ys q1))"
  by (induction xs q rule: rq_exec.induct)
    (auto simp: map_option_case split: go.split sum.split option.split prod.split)

lemma rq_exec_fill:
  assumes "length xs < n"
  shows "rq_exec (map Enq xs) \<lparr>rq_buf = replicate n None, rq_head = 0, rq_tail = 0, rq_count = 0\<rparr> =
    Some ([], \<lparr>rq_buf = xs @ replicate (n - length xs) None, rq_head = 0, rq_tail = length xs, rq_count = length xs\<rparr>)"
  using assms
proof (induction xs rule: rev_induct)
  case (snoc x xs)
  have "xs @ replicate (n - length xs) None = xs @ None # replicate (n - Suc (length xs)) None"
    using snoc.prems by (simp add: Suc_diff_Suc flip: replicate_Suc)
  then show ?case using snoc by (simp add: rq_exec_append rq_Add_def Let_def)
qed simp

lemma rq_exec_drain:
  assumes "length (rq_buf q) = 2 ^ k" "rq_head q < length (rq_buf q)"
    and "rq_head q + m \<le> length (rq_buf q)" "m \<le> rq_count q"
  shows "rq_exec (replicate m Deq) q =
    Some (take m (drop (rq_head q) (rq_buf q)),
      q\<lparr>rq_buf := take (rq_head q) (rq_buf q) @ replicate m None @ drop (rq_head q + m) (rq_buf q),
        rq_head := (rq_head q + m) mod length (rq_buf q), rq_count := rq_count q - m\<rparr>)"
  using assms
proof (induction m arbitrary: q)
  case (Suc m)
  let ?n = "length (rq_buf q)" and ?h = "rq_head q"
  let ?q = "q\<lparr>rq_buf := (rq_buf q)[?h := None], rq_head := (?h + 1) mod ?n, rq_count := rq_count q - 1\<rparr>"
  have "(?h + 1) AND (?n - 1) = (?h + 1) mod ?n" unfolding Suc.prems(1) by (rule and_pow2_mask)
  then have rem: "rq_Remove q = Ret (rq_buf q ! ?h, ?q)"
    using Suc.prems by (simp add: rq_Remove_def go_index_def)
  have out: "take (Suc m) (drop ?h (rq_buf q)) = rq_buf q ! ?h # take m (drop (Suc ?h) (rq_buf q))"
    using Suc.prems(2) by (simp add: Cons_nth_drop_Suc [symmetric])
  have buf: "take ?h (rq_buf q) @ replicate (Suc m) None @ drop (?h + Suc m) (rq_buf q)
      = take (Suc ?h) ((rq_buf q)[?h := None]) @ replicate m None @ drop (Suc ?h + m) (rq_buf q)"
  proof -
    have "take (Suc ?h) ((rq_buf q)[?h := None]) = take ?h (rq_buf q) @ [None]"
      using Suc.prems(2) by (subst take_Suc_conv_app_nth) simp_all
    then show ?thesis by simp
  qed
  show ?case
  proof (cases "Suc ?h < ?n")
    case True
    then have "rq_exec (replicate m Deq) ?q = Some (take m (drop (Suc ?h) (rq_buf q)),
        q\<lparr>rq_buf := take (Suc ?h) ((rq_buf q)[?h := None]) @ replicate m None @ drop (Suc ?h + m) (rq_buf q),
          rq_head := (Suc ?h + m) mod ?n, rq_count := rq_count q - Suc m\<rparr>)"
      using Suc.IH [of ?q] Suc.prems by simp
    then show ?thesis using rem out buf by simp
  next
    case False
    then have "m = 0" using Suc.prems(3) by simp
    then show ?thesis using rem out buf Suc.prems by (simp add: upd_conv_take_nth_drop)
  qed
qed simp


text \<open>
  A full but for one buffer, \<open>r\<close> removals, two additions: the second addition overwrites the first, and
  the queue ends with a nil that nobody added.
\<close>

lemma rq_overwrites:
  assumes "length xs + 1 = 2 ^ k" "0 < r" "r \<le> length xs"
  shows "\<exists>q q'. newRingQueue (2 ^ k) = Ret q \<and>
    rq_exec (map Enq xs @ replicate r Deq @ [Enq y, Enq z] @ replicate (2 ^ k - r + 1) Deq) q = Some (xs @ [z, None], q') \<and>
    rq_Length q' = 0"
proof -
  define n :: nat where "n = 2 ^ k"
  have n: "length xs = n - 1" "r < n" "0 < n" "length xs < n" using assms by (simp_all add: n_def)
  let ?q0 = "\<lparr>rq_buf = replicate n None, rq_head = 0, rq_tail = 0, rq_count = 0\<rparr> :: 'a ringQueue"
  let ?q1 = "\<lparr>rq_buf = xs @ [None], rq_head = 0, rq_tail = n - 1, rq_count = n - 1\<rparr>"
  let ?q2 = "\<lparr>rq_buf = replicate r None @ drop r xs @ [None], rq_head = r, rq_tail = n - 1, rq_count = n - 1 - r\<rparr>"
  let ?tail = "if n - r + 1 = n then 0 else n - 1"
  let ?q3 = "\<lparr>rq_buf = replicate r None @ drop r xs @ [z], rq_head = r, rq_tail = ?tail, rq_count = n - r + 1\<rparr>"
  have new: "newRingQueue (2 ^ k) = Ret ?q0" by (simp add: newRingQueue_def n_def nat_power_eq)
  have fill: "rq_exec (map Enq xs) ?q0 = Some ([], ?q1)"
    using rq_exec_fill [OF n(4)] n by simp
  have take: "rq_exec (replicate r Deq) ?q1 = Some (take r xs, ?q2)"
    using rq_exec_drain [of ?q1 k r] n assms(3) by (simp add: n_def)
  have last: "(replicate r None @ drop r xs @ [a])[n - Suc 0 := b] = replicate r None @ drop r xs @ [b]" for a b :: "'a option"
    using n assms(3) by (simp add: list_update_append)
  have len: "length (replicate r None @ drop r xs @ [a]) = n" for a :: "'a option" using n assms(3) by simp
  have "rq_Add y ?q2 = Ret (Inr (?q2\<lparr>rq_buf := replicate r None @ drop r xs @ [y], rq_count := n - r\<rparr>))"
    using n assms(2) by (auto simp: rq_Add_def Let_def last len)
  moreover have "rq_Add z (?q2\<lparr>rq_buf := replicate r None @ drop r xs @ [y], rq_count := n - r\<rparr>) = Ret (Inr ?q3)"
    using n assms(2) by (auto simp: rq_Add_def Let_def last len)
  ultimately have add: "rq_exec [Enq y, Enq z] ?q2 = Some ([], ?q3)" by simp
  let ?q4 = "\<lparr>rq_buf = replicate n None, rq_head = 0, rq_tail = ?tail, rq_count = 1\<rparr>"
  have drain: "rq_exec (replicate (n - r) Deq) ?q3 = Some (drop r xs @ [z], ?q4)"
  proof -
    have "replicate r None @ replicate (n - r) None = (replicate n None :: 'a option list)"
      using n(2) by (simp flip: replicate_add)
    then show ?thesis using rq_exec_drain [of ?q3 k "n - r"] n len by (simp add: n_def)
  qed
  have nil: "rq_exec [Deq] ?q4 = Some ([None], ?q4\<lparr>rq_head := 1 AND (n - 1), rq_count := 0\<rparr>)"
    using n(3) by (simp add: rq_Remove_def go_index_def list_update_same_conv)
  have "rq_exec (map Enq xs @ replicate r Deq @ [Enq y, Enq z] @ replicate (n - r) Deq @ [Deq]) ?q0 =
      Some (xs @ [z, None], ?q4\<lparr>rq_head := 1 AND (n - 1), rq_count := 0\<rparr>)"
    by (simp only: rq_exec_append fill take add drain nil option.case option.map prod.case) simp
  moreover have "replicate (n - r + 1) Deq = replicate (n - r) Deq @ [Deq :: 'a option queue_op]"
    by (simp add: replicate_append_same)
  ultimately show ?thesis using new by (auto simp: rq_Length_def n_def)
qed

end
