(* ===== verification/GoStrings.thy ===== *)
theory GoStrings
  imports Prelude "HOL-Library.Char_ord"
begin

text \<open>
  The parts of Go's standard library for strings and numbers that the program uses:
  \<open>strings.Split\<close>, \<open>TrimSpace\<close>, \<open>HasPrefix\<close>, \<open>HasSuffix\<close>, \<open>Title\<close>, \<open>strconv.ParseInt\<close>,
  \<open>Atoi\<close> and \<open>FormatInt\<close> (which is also what the verb \<open>%d\<close> prints). A Go string is its bytes;
  \<open>TrimSpace\<close> and \<open>Title\<close> are given on ASCII, which is what the kernel files and the names of
  executables the program reads contain.
\<close>

section \<open>Splitting, trimming, prefixes\<close>

text \<open>\<open>strings.Split(s, sep)\<close> for a separator of one byte: \<open>n\<close> separators give \<open>n + 1\<close> parts.\<close>

fun Split :: "string \<Rightarrow> char \<Rightarrow> string list" where
  "Split [] c = [[]]"
| "Split (x # xs) c =
     (if x = c then [] # Split xs c
      else (case Split xs c of [] \<Rightarrow> [[x]] | w # ws \<Rightarrow> (x # w) # ws))"

lemma Split_not_Nil [simp]: "Split s c \<noteq> []"
  by (cases s) (auto split: list.splits)

lemma Split_none: "c \<notin> set s \<Longrightarrow> Split s c = [s]"
  by (induction s) auto

lemma Split_append_sep: "c \<notin> set a \<Longrightarrow> Split (a @ c # b) c = a # Split b c"
  by (induction a) auto

lemma Split_sep_only: "Split (replicate n c @ s) c = replicate n [] @ Split s c"
  by (induction n) auto

lemma Split_parts: "w \<in> set (Split s c) \<Longrightarrow> c \<notin> set w"
proof (induction s arbitrary: w)
  case (Cons x xs)
  then show ?case
    by (cases "Split xs c") (auto split: if_splits)
qed simp

definition is_space :: "char \<Rightarrow> bool" where
  "is_space c \<longleftrightarrow> c = CHR '' '' \<or> (9 \<le> (of_char c :: nat) \<and> (of_char c :: nat) \<le> 13)"

definition TrimSpace :: "string \<Rightarrow> string" where
  "TrimSpace s = rev (dropWhile is_space (rev (dropWhile is_space s)))"

definition HasPrefix :: "string \<Rightarrow> string \<Rightarrow> bool" where
  "HasPrefix s p \<longleftrightarrow> length p \<le> length s \<and> take (length p) s = p"

definition HasSuffix :: "string \<Rightarrow> string \<Rightarrow> bool" where
  "HasSuffix s p \<longleftrightarrow> length p \<le> length s \<and> drop (length s - length p) s = p"

lemma HasPrefix_iff: "HasPrefix s p \<longleftrightarrow> (\<exists>t. s = p @ t)"
proof
  assume "HasPrefix s p"
  then have "s = p @ drop (length p) s"
    unfolding HasPrefix_def by (metis append_take_drop_id)
  then show "\<exists>t. s = p @ t" ..
qed (auto simp: HasPrefix_def)

lemma HasSuffix_iff: "HasSuffix s p \<longleftrightarrow> (\<exists>t. s = t @ p)"
proof
  assume "HasSuffix s p"
  then have "s = take (length s - length p) s @ p"
    unfolding HasSuffix_def by (metis append_take_drop_id)
  then show "\<exists>t. s = t @ p" ..
qed (auto simp: HasSuffix_def)

text \<open>
  \<open>strings.Title\<close>: each letter after a separator is mapped to upper case. Letters, digits and the
  underscore are no separators, any other ASCII byte is one.
\<close>

definition is_word_char :: "char \<Rightarrow> bool" where
  "is_word_char c = (let n = (of_char c :: nat) in
     (48 \<le> n \<and> n \<le> 57) \<or> (65 \<le> n \<and> n \<le> 90) \<or> (97 \<le> n \<and> n \<le> 122) \<or> n = 95)"

definition to_upper :: "char \<Rightarrow> char" where
  "to_upper c = (let n = (of_char c :: nat) in
     if 97 \<le> n \<and> n \<le> 122 then char_of (n - 32) else c)"

fun title_from :: "char \<Rightarrow> string \<Rightarrow> string" where
  "title_from prev [] = []"
| "title_from prev (c # cs) = (if is_word_char prev then c else to_upper c) # title_from c cs"

definition Title :: "string \<Rightarrow> string" where
  "Title s = title_from (CHR '' '') s"

lemma length_title_from [simp]: "length (title_from p s) = length s"
  by (induction s arbitrary: p) auto

section \<open>Numbers\<close>

definition digit_val :: "char \<Rightarrow> nat option" where
  "digit_val c = (let n = (of_char c :: nat) in
     if 48 \<le> n \<and> n \<le> 57 then Some (n - 48)
     else if 97 \<le> n \<and> n \<le> 122 then Some (n - 97 + 10)
     else if 65 \<le> n \<and> n \<le> 90 then Some (n - 65 + 10)
     else None)"

datatype num_error = ErrSyntax | ErrRange

text \<open>
  The loop of \<open>strconv.ParseUint\<close>. It returns the value and the error together, as Go does: a
  caller that ignores the error uses the value (0 after a syntax error, the largest value after
  an overflow). \<open>cutoff\<close> is the first \<open>n\<close> for which \<open>n * base\<close> overflows 64 bits; after the
  first overflow the rest of the string is not looked at.
\<close>

fun parse_uint_loop :: "nat \<Rightarrow> nat \<Rightarrow> nat \<Rightarrow> string \<Rightarrow> nat \<times> num_error option" where
  "parse_uint_loop base maxVal n [] = (n, None)"
| "parse_uint_loop base maxVal n (c # cs) =
     (case digit_val c of
        None \<Rightarrow> (0, Some ErrSyntax)
      | Some d \<Rightarrow>
          if base \<le> d then (0, Some ErrSyntax)
          else if (2 ^ 64 - 1) div base + 1 \<le> n then (maxVal, Some ErrRange)
          else if maxVal < n * base + d then (maxVal, Some ErrRange)
          else parse_uint_loop base maxVal (n * base + d) cs)"

definition ParseUint :: "string \<Rightarrow> nat \<Rightarrow> nat \<Rightarrow> nat \<times> num_error option" where
  "ParseUint s base bits =
     (if s = [] then (0, Some ErrSyntax) else parse_uint_loop base (2 ^ bits - 1) 0 s)"

text \<open>\<open>strconv.ParseInt(s, base, bitSize)\<close>; the bit size 0 stands for the 64 bits of \<open>int\<close>.\<close>

definition ParseInt :: "string \<Rightarrow> nat \<Rightarrow> nat \<Rightarrow> int \<times> num_error option" where
  "ParseInt s base bitSize =
     (let bits = (if bitSize = 0 then 64 else bitSize);
          neg = (s \<noteq> [] \<and> hd s = CHR ''-'');
          body = (if s \<noteq> [] \<and> (hd s = CHR ''+'' \<or> hd s = CHR ''-'') then tl s else s)
      in case ParseUint body base bits of
           (un, Some ErrSyntax) \<Rightarrow> (0, Some ErrSyntax)
         | (un, _) \<Rightarrow>
             if \<not> neg \<and> 2 ^ (bits - 1) \<le> un then (2 ^ (bits - 1) - 1, Some ErrRange)
             else if neg \<and> 2 ^ (bits - 1) < un then (- (2 ^ (bits - 1)), Some ErrRange)
             else (if neg then - int un else int un, None))"

definition Atoi :: "string \<Rightarrow> int \<times> num_error option" where
  "Atoi s = ParseInt s 10 0"

definition digit_char :: "nat \<Rightarrow> char" where
  "digit_char d = char_of (48 + d)"

fun format_nat :: "nat \<Rightarrow> string" where
  "format_nat n =
     (if n < 10 then [digit_char n] else format_nat (n div 10) @ [digit_char (n mod 10)])"

declare format_nat.simps [simp del]

definition format_int :: "int \<Rightarrow> string" where
  "format_int i = (if i < 0 then CHR ''-'' # format_nat (nat (- i)) else format_nat (nat i))"

text \<open>\<open>%0kX\<close> of C and Go: \<open>k\<close> upper-case hexadecimal digits.\<close>

definition hex_char :: "nat \<Rightarrow> char" where
  "hex_char d = (if d < 10 then char_of (48 + d) else char_of (55 + d))"

fun hex_fixed :: "nat \<Rightarrow> nat \<Rightarrow> string" where
  "hex_fixed 0 n = []"
| "hex_fixed (Suc k) n = hex_fixed k (n div 16) @ [hex_char (n mod 16)]"

section \<open>What the number routines compute\<close>

text \<open>The value of a digit string, continuing from \<open>n\<close>.\<close>

definition digits_value :: "nat \<Rightarrow> nat \<Rightarrow> string \<Rightarrow> nat" where
  "digits_value base n s = foldl (\<lambda>n c. n * base + the (digit_val c)) n s"

lemma digits_value_simps [simp]:
  "digits_value base n [] = n"
  "digits_value base n (c # cs) = digits_value base (n * base + the (digit_val c)) cs"
  "digits_value base n (xs @ ys) = digits_value base (digits_value base n xs) ys"
  by (simp_all add: digits_value_def)

definition is_digits :: "nat \<Rightarrow> string \<Rightarrow> bool" where
  "is_digits base s \<longleftrightarrow> (\<forall>c\<in>set s. \<exists>d<base. digit_val c = Some d)"

lemma is_digits_simps [simp]:
  "is_digits base []"
  "is_digits base (c # cs) \<longleftrightarrow> (\<exists>d<base. digit_val c = Some d) \<and> is_digits base cs"
  "is_digits base (xs @ ys) \<longleftrightarrow> is_digits base xs \<and> is_digits base ys"
  by (auto simp: is_digits_def)

lemma digits_value_ge: "0 < base \<Longrightarrow> n \<le> digits_value base n s"
proof (induction s arbitrary: n)
  case (Cons c cs)
  then have "n * base + the (digit_val c) \<le> digits_value base n (c # cs)" by simp
  moreover have "n \<le> n * base" using Cons.prems by simp
  ultimately show ?case by linarith
qed simp

lemma below_cutoff:
  fixes n :: nat
  assumes "0 < base" "n * base \<le> M"
  shows "n < M div base + 1"
proof -
  have "n = n * base div base" using assms(1) by simp
  also have "\<dots> \<le> M div base" using assms(2) by (rule div_le_mono)
  finally show ?thesis by simp
qed

lemma parse_uint_loop_digits:
  assumes "0 < base" "maxVal < 2 ^ 64" "is_digits base s" "digits_value base n s \<le> maxVal"
  shows "parse_uint_loop base maxVal n s = (digits_value base n s, None)"
  using assms(3,4)
proof (induction s arbitrary: n)
  case (Cons c cs)
  then obtain d where d: "digit_val c = Some d" "d < base" by auto
  let ?n = "n * base + d"
  have "?n \<le> digits_value base ?n cs" using assms(1) by (rule digits_value_ge)
  then have le: "?n \<le> maxVal" using Cons.prems(2) d by simp
  then have "n < (2 ^ 64 - 1) div base + 1"
    using assms(1,2) by (intro below_cutoff) linarith+
  with Cons d le show ?case by simp
qed simp

lemma digit_val_sign [simp]: "digit_val (CHR ''+'') = None" "digit_val (CHR ''-'') = None"
  by (simp_all add: digit_val_def)

lemma ParseInt_digits:
  assumes "1 < base" "s \<noteq> []" "is_digits base s" "bits = (if b = 0 then 64 else b)" "bits \<le> 64"
    "digits_value base 0 s < 2 ^ (bits - 1)"
  shows "ParseInt s base b = (int (digits_value base 0 s), None)"
proof -
  obtain c cs where s: "s = c # cs" using assms(2) by (cases s) auto
  then have nosign: "c \<noteq> CHR ''+''" "c \<noteq> CHR ''-''" using assms(3) by auto
  have "(2::nat) ^ (bits - 1) \<le> 2 ^ bits" by (intro power_increasing) auto
  then have le: "digits_value base 0 s \<le> 2 ^ bits - 1" using assms(6) by linarith
  have "(2::nat) ^ bits \<le> 2 ^ 64" using assms(5) by (intro power_increasing) auto
  then have "(2::nat) ^ bits - 1 < 2 ^ 64"
    using zero_less_power [of "2::nat" bits] by linarith
  then have "ParseUint s base bits = (digits_value base 0 s, None)"
    using parse_uint_loop_digits [of base "2 ^ bits - 1" s 0] assms(1,2,3) le
    by (simp add: ParseUint_def)
  then show ?thesis
    using assms(4,6) nosign s by (auto simp: ParseInt_def Let_def)
qed

lemma digit_val_digit_char: "d < 10 \<Longrightarrow> digit_val (digit_char d) = Some d"
  by (simp add: digit_val_def digit_char_def)

lemma digit_val_hex_char: "d < 16 \<Longrightarrow> digit_val (hex_char d) = Some d"
  by (cases "d < 10") (auto simp: digit_val_def hex_char_def)

lemma format_nat_not_Nil [simp]: "format_nat n \<noteq> []"
  by (subst format_nat.simps) simp

lemma format_nat_digits:
  "is_digits 10 (format_nat n) \<and> digits_value 10 0 (format_nat n) = n"
proof (induction n rule: format_nat.induct)
  case (1 n)
  show ?case
  proof (cases "n < 10")
    case True
    then show ?thesis by (subst (1 2) format_nat.simps) (simp add: digit_val_digit_char)
  next
    case False
    with "1.IH" show ?thesis
      by (subst (1 2) format_nat.simps) (simp add: digit_val_digit_char)
  qed
qed

lemma format_nat_inject: "format_nat m = format_nat n \<longleftrightarrow> m = n"
  by (metis format_nat_digits)

text \<open>Decimal digits are none of the separators the program glues numbers together with.\<close>

lemma is_digits_not_mem: "is_digits base s \<Longrightarrow> digit_val c = None \<Longrightarrow> c \<notin> set s"
  by (auto simp: is_digits_def)

lemma format_nat_no_sep:
  "digit_val c = None \<Longrightarrow> c \<notin> set (format_nat n)"
  using format_nat_digits is_digits_not_mem by blast

lemma digit_val_seps [simp]:
  "digit_val (CHR '':'') = None" "digit_val (CHR ''_'') = None"
  "digit_val (CHR ''.'') = None" "digit_val (CHR '' '') = None"
  by (simp_all add: digit_val_def)

lemma is_digits_mono: "is_digits a s \<Longrightarrow> a \<le> b \<Longrightarrow> is_digits b s"
  by (fastforce simp: is_digits_def)

lemma hex_fixed_digits: "is_digits 16 (hex_fixed k n)"
  by (induction k arbitrary: n) (auto simp: digit_val_hex_char)

lemma length_hex_fixed [simp]: "length (hex_fixed k n) = k"
  by (induction k arbitrary: n) auto

lemma hex_fixed_value: "digits_value 16 a (hex_fixed k n) = a * 16 ^ k + n mod 16 ^ k"
proof (induction k arbitrary: a n)
  case (Suc k)
  have "n mod (16 * 16 ^ k) = 16 * (n div 16 mod 16 ^ k) + n mod 16"
    by (rule mod_mult2_eq)
  with Suc show ?case
    by (simp add: digit_val_hex_char algebra_simps)
qed simp

text \<open>Printing and parsing decimal and hexadecimal numbers are inverse on values in range.\<close>

lemma ParseInt_format_nat:
  "n < 2 ^ 63 \<Longrightarrow> ParseInt (format_nat n) 10 0 = (int n, None)"
  using ParseInt_digits [of 10 "format_nat n" 64 0] format_nat_digits [of n] by simp

lemma ParseInt_hex_fixed:
  assumes "0 < k" "n < 16 ^ k" "bits = (if b = 0 then 64 else b)" "bits \<le> 64" "n < 2 ^ (bits - 1)"
  shows "ParseInt (hex_fixed k n) 16 b = (int n, None)"
proof -
  have "digits_value 16 0 (hex_fixed k n) = n" using assms(2) by (simp add: hex_fixed_value)
  moreover have "hex_fixed k n \<noteq> []" using assms(1) by (metis length_hex_fixed less_irrefl list.size(3))
  ultimately show ?thesis
    using ParseInt_digits [of 16 "hex_fixed k n" bits b] hex_fixed_digits assms by simp
qed

lemma format_int_nat [simp]: "format_int (int n) = format_nat n"
  by (simp add: format_int_def)

lemma ParseInt_format_int:
  assumes "in_int64 i"
  shows "ParseInt (format_int i) 10 0 = (i, None)"
proof (cases "i < 0")
  case False
  then show ?thesis using ParseInt_format_nat [of "nat i"] assms by (simp add: format_int_def)
next
  case True
  let ?n = "nat (- i)"
  have n: "?n \<le> 2 ^ 63" using assms by (simp add: nat_le_iff)
  have "parse_uint_loop 10 (2 ^ 64 - 1) 0 (format_nat ?n) = (?n, None)"
    using parse_uint_loop_digits [of 10 "2 ^ 64 - 1" "format_nat ?n" 0] format_nat_digits [of ?n] n
    by simp
  with True n show ?thesis
    by (simp add: ParseInt_def ParseUint_def format_int_def)
qed

text \<open>Cutting two strings at a separator their first parts do not hold.\<close>

lemma cut_at_sep:
  "c \<notin> set xs \<Longrightarrow> c \<notin> set xs' \<Longrightarrow> xs @ c # ys = xs' @ c # ys' \<longleftrightarrow> xs = xs' \<and> ys = ys'"
proof (induction xs arbitrary: xs')
  case Nil
  then show ?case by (cases xs') auto
next
  case (Cons x xs)
  then show ?case by (cases xs') auto
qed

end
