(* ===== verification/Addr.thy ===== *)
theory Addr
  imports GoStrings "HOL-Library.Word"
begin

text \<open>
  Connection keys. \<open>spliceAddr\<close> of \<open>netflow.go\<close> glues the source and destination of a packet into
  the string under which the connection table is searched. Addresses are the four bytes that the
  IPv4 layer of gopacket carries; ports are \<open>uint16\<close>.
\<close>

datatype ipv4 = IPv4 "8 word" "8 word" "8 word" "8 word"

type_synonym port = "16 word"

text \<open>\<open>net.IP.String\<close> on a four-byte address: the dotted decimal notation.\<close>

fun ip_string :: "ipv4 \<Rightarrow> string" where
  "ip_string (IPv4 a b c d) =
     format_nat (unat a) @ ''.'' @ format_nat (unat b) @ ''.'' @
     format_nat (unat c) @ ''.'' @ format_nat (unat d)"

definition spliceAddr :: "ipv4 \<Rightarrow> port \<Rightarrow> ipv4 \<Rightarrow> port \<Rightarrow> string" where
  "spliceAddr sip sport dip dport =
     ip_string sip @ '':'' @ format_nat (unat sport) @ ''_'' @
     ip_string dip @ '':'' @ format_nat (unat dport)"

lemma ip_string_no_sep:
  "digit_val c = None \<Longrightarrow> c \<noteq> CHR ''.'' \<Longrightarrow> c \<notin> set (ip_string ip)"
  by (cases ip) (simp add: format_nat_no_sep)

lemma unat_inject_iff: "unat x = unat y \<longleftrightarrow> x = y"
  by (simp add: word_unat_eq_iff)

lemma ip_string_inject: "ip_string x = ip_string y \<longleftrightarrow> x = y"
  by (cases x; cases y)
    (simp add: cut_at_sep format_nat_no_sep format_nat_inject unat_inject_iff)

lemma ip_string_not_Nil [simp]: "ip_string ip \<noteq> []"
  by (cases ip) simp

text \<open>Different four-tuples have different keys: the table cannot confuse two connections.\<close>

lemma spliceAddr_inject:
  "spliceAddr sip sport dip dport = spliceAddr sip' sport' dip' dport' \<longleftrightarrow>
     sip = sip' \<and> sport = sport' \<and> dip = dip' \<and> dport = dport'"
  by (simp add: spliceAddr_def cut_at_sep ip_string_no_sep format_nat_no_sep ip_string_inject
      format_nat_inject unat_inject_iff)

end
