(* ===== verification/ConnTable.thy ===== *)
theory ConnTable
  imports Prelude
begin

text \<open>
  \<open>types.go\<close>: the table \<open>Mapping\<close> from connection keys to socket inodes, each entry stamped with
  the time it was stored, and the names of the TCP states. Every method holds the mutex for its
  whole body, so a call is one atomic step; the clock reading it makes is an argument. The field
  \<open>cb\<close> is never set and \<open>String\<close> (JSON for debugging) is left out.
\<close>

record entry =
  entry_value :: string
  entry_timestamp :: time

record mapping =
  dict :: "(string, entry) gomap"

text \<open>\<open>t.Sub(u)\<close> saturates at the largest and smallest duration.\<close>

definition time_sub :: "time \<Rightarrow> time \<Rightarrow> duration" where
  "time_sub t u = max (- (2 ^ 63)) (min (2 ^ 63 - 1) (t - u))"

definition NewMapping :: mapping where
  "NewMapping = \<lparr>dict = []\<rparr>"

definition Length :: "mapping \<Rightarrow> nat" where
  "Length m = length (dict m)"

definition Add :: "time \<Rightarrow> string \<Rightarrow> string \<Rightarrow> mapping \<Rightarrow> mapping" where
  "Add now key value m =
     m\<lparr>dict := gm_set key \<lparr>entry_value = value, entry_timestamp = now\<rparr> (dict m)\<rparr>"

text \<open>The \<open>range\<close> loop of \<open>Cleanup\<close> over the entries, deleting from the map as it goes.\<close>

fun cleanup_loop ::
    "time \<Rightarrow> duration \<Rightarrow> (string \<times> entry) list \<Rightarrow> (string, entry) gomap \<Rightarrow> (string, entry) gomap" where
  "cleanup_loop now expiration [] d = d"
| "cleanup_loop now expiration ((key, e) # es) d =
     cleanup_loop now expiration es
       (if expiration < time_sub now (entry_timestamp e) then gm_del key d else d)"

definition Cleanup :: "time \<Rightarrow> duration \<Rightarrow> mapping \<Rightarrow> mapping" where
  "Cleanup now expiration m = m\<lparr>dict := cleanup_loop now expiration (dict m) (dict m)\<rparr>"

definition Exists :: "mapping \<Rightarrow> string \<Rightarrow> string \<Rightarrow> bool" where
  "Exists m key value =
     (case gm_get (dict m) key of None \<Rightarrow> False | Some v \<Rightarrow> entry_value v = value)"

definition Get :: "mapping \<Rightarrow> string \<Rightarrow> string \<times> bool" where
  "Get m key =
     (case gm_get (dict m) key of None \<Rightarrow> ('''', False) | Some ent \<Rightarrow> (entry_value ent, True))"

definition Delete :: "string \<Rightarrow> mapping \<Rightarrow> mapping" where
  "Delete k m = m\<lparr>dict := gm_del k (dict m)\<rparr>"

section \<open>TCP states\<close>

text \<open>The \<open>iota\<close> constants \<open>TCP_ESTABLISHED\<close> to \<open>TCP_CLOSING\<close> are 1 to 11.\<close>

definition states :: "(int, string) gomap" where
  "states =
     [(1, ''ESTABLISHED''), (2, ''SYN_SENT''), (3, ''SYN_RECV''), (4, ''FIN_WAIT1''),
      (5, ''FIN_WAIT2''), (6, ''TIME_WAIT''), (7, ''CLOSE''), (8, ''CLOSE_WAIT''),
      (9, ''LAST_ACK''), (10, ''LISTEN''), (11, ''CLOSING'')]"

definition StateMapping :: "(string, string) gomap" where
  "StateMapping =
     [(''01'', ''ESTABLISHED''), (''02'', ''SYN_SENT''), (''03'', ''SYN_RECV''),
      (''04'', ''FIN_WAIT1''), (''05'', ''FIN_WAIT2''), (''06'', ''TIME_WAIT''),
      (''07'', ''CLOSE''), (''08'', ''CLOSE_WAIT''), (''09'', ''LAST_ACK''),
      (''0A'', ''LISTEN''), (''0B'', ''CLOSING'')]"

section \<open>Invariant and laws\<close>

definition table_ok :: "mapping \<Rightarrow> bool" where
  "table_ok m \<longleftrightarrow> gm_ok (dict m)"

text \<open>What the table holds for a key, the abstraction every law is stated over.\<close>

definition lookup :: "mapping \<Rightarrow> string \<Rightarrow> string option" where
  "lookup m k = map_option entry_value (gm_get (dict m) k)"

lemma table_ok_New [simp]: "table_ok NewMapping"
  by (simp add: table_ok_def NewMapping_def)

lemma table_ok_Add [intro]: "table_ok m \<Longrightarrow> table_ok (Add now k v m)"
  by (auto simp: table_ok_def Add_def)

lemma table_ok_Delete [intro]: "table_ok m \<Longrightarrow> table_ok (Delete k m)"
  by (auto simp: table_ok_def Delete_def)

lemma gm_ok_cleanup_loop: "gm_ok d \<Longrightarrow> gm_ok (cleanup_loop now x es d)"
  by (induction now x es d rule: cleanup_loop.induct) (auto simp: gm_ok_del)

lemma table_ok_Cleanup [intro]: "table_ok m \<Longrightarrow> table_ok (Cleanup now x m)"
  by (simp add: table_ok_def Cleanup_def gm_ok_cleanup_loop)

lemma lookup_New [simp]: "lookup NewMapping k = None"
  by (simp add: lookup_def NewMapping_def)

lemma lookup_Add [gomap_simps]: "lookup (Add now k v m) j = (if j = k then Some v else lookup m j)"
  by (simp add: lookup_def Add_def gomap_simps)

lemma lookup_Delete [gomap_simps]: "lookup (Delete k m) j = (if j = k then None else lookup m j)"
  by (simp add: lookup_def Delete_def gomap_simps)

lemma Get_lookup: "Get m k = (case lookup m k of None \<Rightarrow> ('''', False) | Some v \<Rightarrow> (v, True))"
  by (simp add: Get_def lookup_def split: option.splits)

lemma Exists_lookup: "Exists m k v \<longleftrightarrow> lookup m k = Some v"
  by (auto simp: Exists_def lookup_def split: option.splits)

lemma get_cleanup_loop:
  "gm_get (cleanup_loop now x es d) k =
     (if \<exists>e. (k, e) \<in> set es \<and> x < time_sub now (entry_timestamp e) then None else gm_get d k)"
proof (induction now x es d rule: cleanup_loop.induct)
  case (2 now x key e es d)
  then show ?case by (auto simp: gomap_simps)
qed simp

text \<open>\<open>Cleanup\<close> drops exactly the entries older than the expiration.\<close>

lemma get_Cleanup:
  assumes "table_ok m"
  shows "gm_get (dict (Cleanup now x m)) k =
     (case gm_get (dict m) k of
        None \<Rightarrow> None
      | Some e \<Rightarrow> if x < time_sub now (entry_timestamp e) then None else Some e)"
  using assms
  by (auto simp: Cleanup_def get_cleanup_loop table_ok_def gm_get_in_set split: option.splits)

text \<open>The table is a keyed store of inodes, at any clock reading.\<close>

interpretation conn: keyed_store NewMapping lookup "Add now" Delete table_ok for now
  by unfold_locales (auto simp: gomap_simps)

end
