(* ===== verification/Users.thy ===== *)
theory Users
  imports GoStrings
begin

text \<open>
  \<open>user.go\<close>: the table from user ids to names, loaded once at package initialisation from
  \<open>/etc/passwd\<close>. The content of the file is an argument (\<open>None\<close> when it cannot be opened);
  a read error in the middle of the file is not modelled.
\<close>

text \<open>
  \<open>bufio.Reader.ReadString\<close>: the lines that end in a newline, with it. A last line without
  one comes together with \<open>io.EOF\<close>, at which the loop stops before looking at it.
\<close>

fun terminated_lines :: "string \<Rightarrow> string list" where
  "terminated_lines [] = []"
| "terminated_lines (c # cs) =
     (if c = CHR 0x0A then [c] # terminated_lines cs
      else (case terminated_lines cs of
              [] \<Rightarrow> []
            | l # ls \<Rightarrow> (c # l) # ls))"

fun load_users_loop :: "string list \<Rightarrow> (string, string) gomap \<Rightarrow> (string, string) gomap go" where
  "load_users_loop [] users = Ret users"
| "load_users_loop (line # ls) users =
     (let items = Split line (CHR '':'') in
      if length items \<noteq> 2 then Ret users
      else go_bind (go_index items 2) (\<lambda>uid.
           go_bind (go_index items 0) (\<lambda>name.
           load_users_loop ls (gm_set uid name users))))"

text \<open>\<open>None\<close> is the nil map the variable keeps when the file cannot be opened.\<close>

definition loadSystemUsersInfo :: "string option \<Rightarrow> (string, string) gomap option go" where
  "loadSystemUsersInfo file =
     (case file of
        None \<Rightarrow> Ret None
      | Some content \<Rightarrow>
          go_bind (load_users_loop (terminated_lines content) []) (\<lambda>m. Ret (Some m)))"

definition getUserByUID :: "(string, string) gomap option \<Rightarrow> string \<Rightarrow> string" where
  "getUserByUID users uid =
     (case users of
        None \<Rightarrow> ''''
      | Some m \<Rightarrow> (case gm_get m uid of None \<Rightarrow> '''' | Some name \<Rightarrow> name))"

text \<open>One line decides: the loop returns at it or panics at \<open>items[2]\<close> of two items.\<close>

lemma load_users_loop_Cons:
  "load_users_loop (line # ls) users =
     (if length (Split line (CHR '':'')) \<noteq> 2 then Ret users else Panic)"
  by (auto simp: Let_def go_index_def)

lemma load_users_loop_Ret: "load_users_loop ls users = Ret m \<Longrightarrow> m = users"
  by (cases ls) (auto simp: load_users_loop_Cons simp del: load_users_loop.simps(2) split: if_splits)

end
