(* ===== verification/Netstat.thy ===== *)
theory Netstat
  imports Addr ConnTable Users
begin

text \<open>
  \<open>netstat.go\<close>: reading \<open>/proc/net/tcp\<close> and its kin. A file is its content (\<open>None\<close> when it cannot
  be opened); \<open>getConnectionItem\<close> is the parser of one row, with a panic at every index the Go code
  takes without looking at the length. The user table of \<open>user.go\<close> is an argument.
\<close>

definition procTCPFile :: string where "procTCPFile = ''/proc/net/tcp''"
definition procUDPFile :: string where "procUDPFile = ''/proc/net/udp''"
definition procTCP6File :: string where "procTCP6File = ''/proc/net/tcp6''"
definition procUDP6File :: string where "procUDP6File = ''/proc/net/udp6''"

definition EstablishedSymbol :: string where "EstablishedSymbol = ''01''"
definition ListenSymbol :: string where "ListenSymbol = ''0A''"

text \<open>The struct \<open>ConnectionItem\<close>; the four timer fields are never set and stay zero.\<close>

record connection_item =
  ci_Addr :: string
  ci_ReverseAddr :: string
  ci_SrcIP :: string
  ci_SrcPort :: string
  ci_DestIP :: string
  ci_DestPort :: string
  ci_State :: string
  ci_TxQueue :: int
  ci_RxQueue :: int
  ci_Timer :: int
  ci_TimerDuration :: duration
  ci_Rto :: duration
  ci_Uid :: int
  ci_Uname :: string
  ci_Timeout :: duration
  ci_Inode :: string
  ci_Raw :: string

definition GetAddr :: "connection_item \<Rightarrow> string" where
  "GetAddr ci = ci_Addr ci"

section \<open>Lines of a file\<close>

text \<open>
  \<open>bufio.Scanner\<close> with its default split function: pieces between newlines without a trailing
  carriage return; no token after the last newline; an error at the first piece that does not fit
  into the buffer of \<open>MaxScanTokenSize\<close> = 65536 bytes.
\<close>

definition drop_cr :: "string \<Rightarrow> string" where
  "drop_cr s = (if s \<noteq> [] \<and> last s = CHR 0x0D then butlast s else s)"

fun scan_pieces :: "string list \<Rightarrow> string list \<times> go_error option" where
  "scan_pieces [] = ([], None)"
| "scan_pieces (p # ps) =
     (if ps = [] \<and> p = [] then ([], None)
      else if 65536 \<le> length p then ([], Some (ErrMsg ''bufio.Scanner: token too long''))
      else (let (ts, err) = scan_pieces ps in (drop_cr p # ts, err)))"

definition scan_file :: "string \<Rightarrow> string list \<times> go_error option" where
  "scan_file content = scan_pieces (Split content (CHR 0x0A))"

fun process_lines :: "(string \<Rightarrow> 's \<Rightarrow> 's go) \<Rightarrow> string list \<Rightarrow> 's \<Rightarrow> 's go" where
  "process_lines f [] s = Ret s"
| "process_lines f (l # ls) s = go_bind (f l s) (process_lines f ls)"

definition proc_file :: "string \<Rightarrow> string" where
  "proc_file tp =
     (if tp = ''tcp'' then procTCPFile
      else if tp = ''udp'' then procUDPFile
      else if tp = ''tcp6'' then procTCP6File
      else if tp = ''udp6'' then procUDP6File
      else procTCPFile)"

text \<open>
  \<open>parseNetworkLines\<close> with its callback \<open>processLine\<close> as a function on the state it changes. The
  lines before an over-long one have been processed when the error is returned.
\<close>

definition parseNetworkLines ::
    "(string \<Rightarrow> string option) \<Rightarrow> string \<Rightarrow> (string \<Rightarrow> 's \<Rightarrow> 's go) \<Rightarrow> 's \<Rightarrow>
     ('s \<times> go_error option) go" where
  "parseNetworkLines open_file tp processLine s =
     (case open_file (proc_file tp) of
        None \<Rightarrow> Ret (s, Some ErrIO)
      | Some content \<Rightarrow>
          (case scan_file content of
             ([], err) \<Rightarrow> Ret (s, err)
           | (header # ls, err) \<Rightarrow>
               go_bind (process_lines processLine ls s) (\<lambda>s'. Ret (s', err))))"

section \<open>Addresses\<close>

definition hex2dec :: "string \<Rightarrow> string" where
  "hex2dec hexstr = format_int (fst (ParseInt hexstr 16 0))"

definition hex2ip :: "string \<Rightarrow> string \<times> string" where
  "hex2ip hexstr =
     (if length hexstr \<noteq> 8 then ('''', ''parse error'')
      else
        let i1 = fst (ParseInt (take 2 (drop 6 hexstr)) 16 0);
            i2 = fst (ParseInt (take 2 (drop 4 hexstr)) 16 0);
            i3 = fst (ParseInt (take 2 (drop 2 hexstr)) 16 0);
            i4 = fst (ParseInt (take 2 hexstr) 16 0)
        in (format_int i1 @ ''.'' @ format_int i2 @ ''.'' @ format_int i3 @ ''.'' @ format_int i4,
            ''''))"

definition parseAddr :: "string \<Rightarrow> string \<times> string" where
  "parseAddr str =
     (case Split str (CHR '':'') of
        [h, p] \<Rightarrow> (case hex2ip h of (ip, err) \<Rightarrow>
                     if err \<noteq> '''' then (str, '''') else (ip, hex2dec p))
      | _ \<Rightarrow> (str, ''''))"

text \<open>\<open>hexToDec\<close> ends the process on a malformed number: \<open>None\<close>.\<close>

definition hexToDec :: "string \<Rightarrow> int option" where
  "hexToDec h = (case ParseInt h 16 32 of (d, None) \<Rightarrow> Some d | (_, Some _) \<Rightarrow> None)"

primrec removeEmpty :: "string list \<Rightarrow> string list" where
  "removeEmpty [] = []"
| "removeEmpty (i # array) = (if i = '''' then removeEmpty array else i # removeEmpty array)"

section \<open>One row\<close>

definition getConnectionItem ::
    "(string, string) gomap option \<Rightarrow> string \<Rightarrow> connection_item option go" where
  "getConnectionItem users line =
    (let source = removeEmpty (Split (TrimSpace line) (CHR '' '')) in
     go_bind (go_index source 3) (\<lambda>st.
     if st \<noteq> EstablishedSymbol \<and> st \<noteq> ListenSymbol then Ret None
     else
     go_bind (go_index source 2) (\<lambda>remote.
     case parseAddr remote of (destIP, destPort) \<Rightarrow>
     if destIP = ''0.0.0.0'' then Ret None
     else
     go_bind (go_index source 1) (\<lambda>local.
     case parseAddr local of (ip, port) \<Rightarrow>
     let stateNum = fst (ParseInt st 16 32);
         state = (case gm_get states stateNum of None \<Rightarrow> '''' | Some n \<Rightarrow> n) in
     go_bind (go_index source 4) (\<lambda>queues.
     let tcpQueue = Split queues (CHR '':'') in
     go_bind (go_index tcpQueue 0) (\<lambda>tx.
     case ParseInt tx 16 32 of (txq, Some _) \<Rightarrow> Ret None | (txq, None) \<Rightarrow>
     go_bind (go_index tcpQueue 1) (\<lambda>rx.
     case ParseInt rx 16 32 of (rxq, Some _) \<Rightarrow> Ret None | (rxq, None) \<Rightarrow>
     go_bind (go_index source 7) (\<lambda>uidstr.
     case Atoi uidstr of (uid, Some _) \<Rightarrow> Ret None | (uid, None) \<Rightarrow>
     let uname = getUserByUID users uidstr in
     go_bind (go_index source 9) (\<lambda>inode.
     Ret (Some \<lparr>
       ci_Addr = ip @ '':'' @ port @ ''_'' @ destIP @ '':'' @ destPort,
       ci_ReverseAddr = destIP @ '':'' @ destPort @ ''_'' @ ip @ '':'' @ port,
       ci_SrcIP = ip, ci_SrcPort = port, ci_DestIP = destIP, ci_DestPort = destPort,
       ci_State = state, ci_TxQueue = txq, ci_RxQueue = rxq,
       ci_Timer = 0, ci_TimerDuration = 0, ci_Rto = 0,
       ci_Uid = uid, ci_Uname = uname, ci_Timeout = 0,
       ci_Inode = inode, ci_Raw = line\<rparr>))))))))))"

section \<open>The kernel's format, and what the parser makes of it\<close>

text \<open>
  The kernel prints an address as the eight hexadecimal digits of its bytes in memory order read
  as one little-endian number, and the port in four. This describes the input, not the program.
\<close>

fun proc_ip :: "ipv4 \<Rightarrow> string" where
  "proc_ip (IPv4 a b c d) =
     hex_fixed 2 (unat d) @ hex_fixed 2 (unat c) @ hex_fixed 2 (unat b) @ hex_fixed 2 (unat a)"

definition proc_addr :: "ipv4 \<Rightarrow> port \<Rightarrow> string" where
  "proc_addr ip p = proc_ip ip @ '':'' @ hex_fixed 4 (unat p)"

lemma hex_fixed_no_sep: "digit_val c = None \<Longrightarrow> c \<notin> set (hex_fixed k n)"
  using hex_fixed_digits is_digits_not_mem by blast

lemma length_proc_ip [simp]: "length (proc_ip ip) = 8"
  by (cases ip) simp

lemma proc_ip_no_sep: "digit_val c = None \<Longrightarrow> c \<notin> set (proc_ip ip)"
  by (cases ip) (simp add: hex_fixed_no_sep)

lemma unat_byte_less: "unat (x :: 8 word) < 256"
  using unsigned_less [of x, where 'a = nat] by simp

lemma ParseInt_hex_byte:
  "ParseInt (hex_fixed 2 (unat (x :: 8 word))) 16 0 = (int (unat x), None)"
  using ParseInt_hex_fixed [of 2 "unat x" 64 0] unat_byte_less [of x] by simp

lemma hex2ip_pairs:
  assumes "length p = 2" "length q = 2" "length r = 2" "length s = 2"
  shows "hex2ip (p @ q @ r @ s) =
    (format_int (fst (ParseInt s 16 0)) @ ''.'' @ format_int (fst (ParseInt r 16 0)) @ ''.'' @
     format_int (fst (ParseInt q 16 0)) @ ''.'' @ format_int (fst (ParseInt p 16 0)), '''')"
  using assms by (simp add: hex2ip_def)

lemma hex2ip_proc_ip: "hex2ip (proc_ip ip) = (ip_string ip, '''')"
  by (cases ip) (simp only: proc_ip.simps ip_string.simps hex2ip_pairs length_hex_fixed
      ParseInt_hex_byte fst_conv format_int_nat)

lemma hex2dec_port: "hex2dec (hex_fixed 4 (unat (p :: port))) = format_nat (unat p)"
proof -
  have "unat p < 65536" using unsigned_less [of p, where 'a = nat] by simp
  then have "ParseInt (hex_fixed 4 (unat p)) 16 0 = (int (unat p), None)"
    by (intro ParseInt_hex_fixed [of _ _ 64]) simp_all
  then show ?thesis by (simp only: hex2dec_def fst_conv format_int_nat)
qed

lemma parseAddr_proc_addr:
  "parseAddr (proc_addr ip p) = (ip_string ip, format_nat (unat p))"
proof -
  have "Split (proc_addr ip p) (CHR '':'') = [proc_ip ip, hex_fixed 4 (unat p)]"
    by (simp add: proc_addr_def Split_append_sep proc_ip_no_sep Split_none hex_fixed_no_sep
        del: hex_fixed.simps)
  then show ?thesis by (simp add: parseAddr_def hex2ip_proc_ip hex2dec_port)
qed

section \<open>The fields of a row\<close>

text \<open>
  A row is its fields, each preceded by padding. \<open>TrimSpace\<close>, \<open>Split\<close> and \<open>removeEmpty\<close> together give
  the fields back whatever the padding.
\<close>

lemma removeEmpty_append [simp]: "removeEmpty (xs @ ys) = removeEmpty xs @ removeEmpty ys"
  by (induction xs) auto

lemma removeEmpty_filter: "removeEmpty xs = filter (\<lambda>i. i \<noteq> '''') xs"
  by (induction xs) auto

lemma Split_append: "Split (a @ c # b) c = Split a c @ Split b c"
proof (induction a)
  case (Cons x a)
  then show ?case by (auto split: list.splits)
qed simp

lemma fields_append_space:
  "removeEmpty (Split (a @ c # b) c) = removeEmpty (Split a c) @ removeEmpty (Split b c)"
  by (simp add: Split_append)

lemma fields_space: "removeEmpty (Split (c # b) c) = removeEmpty (Split b c)"
  by simp

lemma fields_drop_leading:
  "\<forall>x\<in>set s. is_space x \<longrightarrow> x = c \<Longrightarrow>
     removeEmpty (Split (dropWhile is_space s) c) = removeEmpty (Split s c)"
proof (induction s)
  case (Cons x s)
  have IH: "removeEmpty (Split (dropWhile is_space s) c) = removeEmpty (Split s c)"
    by (rule Cons.IH) (use Cons.prems in fastforce)
  show ?case
  proof (cases "is_space x")
    case True
    then have "x = c" using Cons.prems by (meson list.set_intros(1))
    with IH True show ?thesis by simp
  qed simp
qed simp

lemma fields_drop_trailing:
  "\<forall>x\<in>set s. is_space x \<longrightarrow> x = c \<Longrightarrow>
     removeEmpty (Split (rev (dropWhile is_space (rev s))) c) = removeEmpty (Split s c)"
proof (induction s rule: rev_induct)
  case (snoc x s)
  have IH: "removeEmpty (Split (rev (dropWhile is_space (rev s))) c) = removeEmpty (Split s c)"
    by (rule snoc.IH) (use snoc.prems in fastforce)
  show ?case
  proof (cases "is_space x")
    case True
    then have "x = c" using snoc.prems by fastforce
    then have "removeEmpty (Split (s @ [x]) c) = removeEmpty (Split s c)"
      using fields_append_space [of s c "[]"] by simp
    with IH True show ?thesis by simp
  qed simp
qed simp

lemma fields_TrimSpace:
  assumes "\<forall>x\<in>set s. is_space x \<longrightarrow> x = CHR '' ''"
  shows "removeEmpty (Split (TrimSpace s) (CHR '' '')) = removeEmpty (Split s (CHR '' ''))"
proof -
  have "\<forall>x\<in>set (dropWhile is_space s). is_space x \<longrightarrow> x = CHR '' ''"
    using assms by (blast dest: set_dropWhileD)
  then have "removeEmpty (Split (TrimSpace s) (CHR '' ''))
      = removeEmpty (Split (dropWhile is_space s) (CHR '' ''))"
    unfolding TrimSpace_def by (rule fields_drop_trailing)
  also have "\<dots> = removeEmpty (Split s (CHR '' ''))"
    using assms by (rule fields_drop_leading)
  finally show ?thesis .
qed

text \<open>A row in which field \<open>f\<close> has \<open>n\<close> blanks before it, for each \<open>(n, f)\<close>.\<close>

definition row_line :: "(nat \<times> string) list \<Rightarrow> string" where
  "row_line cells = concat (map (\<lambda>(n, f). replicate n (CHR '' '') @ f @ '' '') cells)"

definition plain_field :: "string \<Rightarrow> bool" where
  "plain_field f \<longleftrightarrow> f \<noteq> [] \<and> (\<forall>x\<in>set f. \<not> is_space x)"

lemma fields_row_line_aux:
  "\<forall>(n, f)\<in>set cells. plain_field f \<Longrightarrow>
     removeEmpty (Split (row_line cells) (CHR '' '')) = map snd cells"
proof (induction cells)
  case (Cons cell cells)
  obtain n f where cell: "cell = (n, f)" by force
  then have f: "f \<noteq> []" "CHR '' '' \<notin> set f"
    using Cons.prems by (auto simp: plain_field_def is_space_def)
  have lead: "removeEmpty (Split (replicate n (CHR '' '') @ s) (CHR '' ''))
      = removeEmpty (Split s (CHR '' ''))" for s
    by (induction n) auto
  have "row_line (cell # cells) = replicate n (CHR '' '') @ (f @ CHR '' '' # row_line cells)"
    by (simp add: cell row_line_def)
  then show ?case
    using Cons f by (simp add: lead fields_append_space Split_none cell)
qed (simp add: row_line_def)

lemma fields_row_line:
  assumes "\<forall>(n, f)\<in>set cells. plain_field f"
  shows "removeEmpty (Split (TrimSpace (row_line cells)) (CHR '' '')) = map snd cells"
proof -
  have "\<forall>x\<in>set (row_line cells). is_space x \<longrightarrow> x = CHR '' ''"
    using assms by (fastforce simp: row_line_def plain_field_def)
  then show ?thesis unfolding fields_row_line_aux [OF assms, symmetric] by (rule fields_TrimSpace)
qed

section \<open>Rows in the kernel's format\<close>

text \<open>The columns of one row of \<open>/proc/net/tcp\<close>, as the kernel documents them.\<close>

record tcp_row =
  row_sl :: string
  row_local :: ipv4
  row_lport :: port
  row_remote :: ipv4
  row_rport :: port
  row_st :: string
  row_tx :: nat
  row_rx :: nat
  row_tr :: string
  row_retrnsmt :: string
  row_uid :: nat
  row_timeout :: string
  row_inode :: string
  row_rest :: "string list"

definition row_fields :: "tcp_row \<Rightarrow> string list" where
  "row_fields r =
     [row_sl r, proc_addr (row_local r) (row_lport r), proc_addr (row_remote r) (row_rport r),
      row_st r, hex_fixed 8 (row_tx r) @ CHR '':'' # hex_fixed 8 (row_rx r), row_tr r, row_retrnsmt r,
      format_nat (row_uid r), row_timeout r, row_inode r] @ row_rest r"

definition row_ok :: "tcp_row \<Rightarrow> bool" where
  "row_ok r \<longleftrightarrow>
     plain_field (row_sl r) \<and> plain_field (row_st r) \<and> plain_field (row_tr r) \<and>
     plain_field (row_retrnsmt r) \<and> plain_field (row_timeout r) \<and> plain_field (row_inode r) \<and>
     list_all plain_field (row_rest r) \<and> row_tx r < 2 ^ 31 \<and> row_rx r < 2 ^ 31 \<and> row_uid r < 2 ^ 63"

definition row_text :: "nat list \<Rightarrow> tcp_row \<Rightarrow> string" where
  "row_text pads r = row_line (zip pads (row_fields r))"

lemma digit_not_space: "digit_val c = Some d \<Longrightarrow> \<not> is_space c"
  by (auto simp: digit_val_def is_space_def Let_def split: if_splits)

lemma is_digits_plain: "is_digits b s \<Longrightarrow> x \<in> set s \<Longrightarrow> \<not> is_space x"
  using digit_not_space by (fastforce simp: is_digits_def)

lemma colon_not_space [simp]: "\<not> is_space (CHR '':'')"
  by (simp add: is_space_def)

lemma hex_fixed_plain: "x \<in> set (hex_fixed k n) \<Longrightarrow> \<not> is_space x"
  using hex_fixed_digits is_digits_plain by blast

lemma plain_proc_addr [simp]: "plain_field (proc_addr ip p)"
  by (cases ip) (auto simp: plain_field_def proc_addr_def dest: hex_fixed_plain
      simp del: hex_fixed.simps)

lemma plain_format_nat [simp]: "plain_field (format_nat n)"
  using format_nat_digits [of n] by (auto simp: plain_field_def dest: is_digits_plain)

lemma plain_queues: "plain_field (hex_fixed 8 a @ CHR '':'' # hex_fixed 8 b)"
  by (auto simp: plain_field_def dest: hex_fixed_plain simp del: hex_fixed.simps)

lemma plain_row_fields: "row_ok r \<Longrightarrow> f \<in> set (row_fields r) \<Longrightarrow> plain_field f"
  by (auto simp: row_ok_def row_fields_def plain_queues list_all_iff simp del: hex_fixed.simps)

lemma fields_row_text:
  assumes "row_ok r" "length pads = length (row_fields r)"
  shows "removeEmpty (Split (TrimSpace (row_text pads r)) (CHR '' '')) = row_fields r"
proof -
  have "\<forall>(n, f)\<in>set (zip pads (row_fields r)). plain_field f"
    using plain_row_fields [OF assms(1)] by (auto dest: set_zip_rightD)
  from fields_row_line [OF this] show ?thesis
    using assms(2) by (simp add: row_text_def)
qed

lemma ParseInt_queue: "n < 2 ^ 31 \<Longrightarrow> ParseInt (hex_fixed 8 n) 16 32 = (int n, None)"
  by (rule ParseInt_hex_fixed [of 8 n 32]) simp_all

lemma Split_queues:
  "Split (hex_fixed 8 a @ CHR '':'' # hex_fixed 8 b) (CHR '':'') = [hex_fixed 8 a, hex_fixed 8 b]"
  by (simp add: Split_append_sep Split_none hex_fixed_no_sep del: hex_fixed.simps)

lemma ip_string_zero: "ip_string ip = ''0.0.0.0'' \<longleftrightarrow> ip = IPv4 0 0 0 0"
proof -
  have "ip_string (IPv4 0 0 0 0) = ''0.0.0.0''" by code_simp
  then show ?thesis using ip_string_inject by metis
qed

definition state_name :: "string \<Rightarrow> string" where
  "state_name st =
     (case gm_get states (fst (ParseInt st 16 32)) of None \<Rightarrow> '''' | Some n \<Rightarrow> n)"

text \<open>What the parser returns for a row it keeps.\<close>

definition row_item :: "(string, string) gomap option \<Rightarrow> nat list \<Rightarrow> tcp_row \<Rightarrow> connection_item" where
  "row_item users pads r =
     \<lparr>ci_Addr = spliceAddr (row_local r) (row_lport r) (row_remote r) (row_rport r),
      ci_ReverseAddr = spliceAddr (row_remote r) (row_rport r) (row_local r) (row_lport r),
      ci_SrcIP = ip_string (row_local r), ci_SrcPort = format_nat (unat (row_lport r)),
      ci_DestIP = ip_string (row_remote r), ci_DestPort = format_nat (unat (row_rport r)),
      ci_State = state_name (row_st r), ci_TxQueue = int (row_tx r), ci_RxQueue = int (row_rx r),
      ci_Timer = 0, ci_TimerDuration = 0, ci_Rto = 0, ci_Uid = int (row_uid r),
      ci_Uname = getUserByUID users (format_nat (row_uid r)), ci_Timeout = 0,
      ci_Inode = row_inode r, ci_Raw = row_text pads r\<rparr>"

definition row_kept :: "tcp_row \<Rightarrow> bool" where
  "row_kept r \<longleftrightarrow>
     (row_st r = EstablishedSymbol \<or> row_st r = ListenSymbol) \<and> row_remote r \<noteq> IPv4 0 0 0 0"

lemma getConnectionItem_row:
  assumes "row_ok r" "length pads = length (row_fields r)"
  shows "getConnectionItem users (row_text pads r) =
     Ret (if row_kept r then Some (row_item users pads r) else None)"
proof -
  have tx: "ParseInt (hex_fixed 8 (row_tx r)) 16 32 = (int (row_tx r), None)"
    and rx: "ParseInt (hex_fixed 8 (row_rx r)) 16 32 = (int (row_rx r), None)"
    and uid: "Atoi (format_nat (row_uid r)) = (int (row_uid r), None)"
    using assms(1) by (simp_all add: row_ok_def ParseInt_queue Atoi_def ParseInt_format_nat
        del: hex_fixed.simps)
  show ?thesis
    unfolding getConnectionItem_def fields_row_text [OF assms]
    using tx rx uid
    by (simp add: row_fields_def go_index_def Let_def parseAddr_proc_addr Split_queues ip_string_zero
        row_kept_def row_item_def state_name_def spliceAddr_def del: hex_fixed.simps)
qed

section \<open>When a row panics\<close>

definition line_fields :: "string \<Rightarrow> string list" where
  "line_fields line = removeEmpty (Split (TrimSpace line) (CHR '' ''))"

text \<open>The parser reads field 3 before anything else.\<close>

lemma getConnectionItem_short: "length (line_fields line) \<le> 3 \<Longrightarrow> getConnectionItem users line = Panic"
  by (simp add: getConnectionItem_def line_fields_def Let_def go_index_def)

lemma length_Split_sep: "c \<in> set s \<Longrightarrow> 2 \<le> length (Split s c)"
proof -
  assume "c \<in> set s"
  then obtain a b where "s = a @ c # b" by (metis split_list)
  moreover have "Split t c \<noteq> []" for t by (induction t) (auto split: list.split)
  then have "0 < length (Split t c)" for t by simp
  from this [of a] this [of b] have "2 \<le> length (Split a c) + length (Split b c)" by linarith
  ultimately show ?thesis by (simp add: Split_append)
qed

lemma getConnectionItem_long:
  assumes "10 \<le> length (line_fields line)" "CHR '':'' \<in> set (line_fields line ! 4)"
  shows "getConnectionItem users line \<noteq> Panic"
proof -
  have "2 \<le> length (Split (line_fields line ! 4) (CHR '':''))" using assms(2) by (rule length_Split_sep)
  then show ?thesis
    using assms(1)
    by (simp add: getConnectionItem_def line_fields_def [symmetric] Let_def go_index_def
        split: prod.split option.split)
qed

section \<open>Files made of lines\<close>

text \<open>A line the scanner gives back as it is.\<close>

definition scan_line :: "string \<Rightarrow> bool" where
  "scan_line l \<longleftrightarrow> CHR 0x0A \<notin> set l \<and> length l < 65536 \<and> (l = [] \<or> last l \<noteq> CHR 0x0D)"

definition file_of :: "string list \<Rightarrow> string" where
  "file_of ls = concat (map (\<lambda>l. l @ [CHR 0x0A]) ls)"

lemma Split_file_of: "list_all scan_line ls \<Longrightarrow> Split (file_of ls) (CHR 0x0A) = ls @ ['''']"
  by (induction ls) (auto simp: file_of_def Split_append Split_none scan_line_def)

lemma scan_file_of: "list_all scan_line ls \<Longrightarrow> scan_file (file_of ls) = (ls, None)"
proof -
  have "list_all scan_line ls \<Longrightarrow> scan_pieces (ls @ ['''']) = (ls, None)"
    by (induction ls) (auto simp: scan_line_def drop_cr_def)
  then show "list_all scan_line ls \<Longrightarrow> scan_file (file_of ls) = (ls, None)"
    by (simp add: scan_file_def Split_file_of)
qed

lemma row_text_chars: "row_ok r \<Longrightarrow> x \<in> set (row_text pads r) \<Longrightarrow> x = CHR '' '' \<or> \<not> is_space x"
  using plain_row_fields [of r]
  by (fastforce simp: row_text_def row_line_def plain_field_def dest: set_zip_rightD)

lemma row_text_scan_line:
  assumes "row_ok r" "length (row_text pads r) < 65536"
  shows "scan_line (row_text pads r)"
proof -
  have "CHR 0x0A \<notin> set (row_text pads r)" "CHR 0x0D \<notin> set (row_text pads r)"
    using row_text_chars [OF assms(1), of _ pads] by (fastforce simp: is_space_def)+
  moreover have "last (row_text pads r) \<in> set (row_text pads r) \<or> row_text pads r = []"
    using last_in_set by blast
  ultimately show ?thesis using assms(2) unfolding scan_line_def by metis
qed

end
