(* ===== verification/TrafficRing.thy ===== *)
theory TrafficRing
  imports Prelude
begin

text \<open>
  The traffic history of one process (\<open>Process\<close> of \<open>process.go\<close>): a ring of per-second entries,
  at most \<open>maxRingSize\<close> of them, filled by \<open>IncreaseInput\<close> and \<open>IncreaseOutput\<close> and summed over a
  recent window by \<open>analyseStats\<close>. The clock is an argument (\<open>now\<close>, nanoseconds); byte counts are
  \<open>int64\<close> with their wrap-around. The ring is the list of its entries, oldest first.
\<close>

definition maxRingSize :: nat where "maxRingSize = 61"

record trafficEntry =
  Timestamp :: int
  te_In :: int
  te_Out :: int

record trafficStatsEntry =
  st_In :: int
  st_Out :: int
  st_InRate :: int
  st_OutRate :: int
  st_InputEWMA :: int
  st_OutputEWMA :: int

text \<open>\<open>TrafficStats\<close> is a pointer: \<open>None\<close> is nil.\<close>

record process =
  Name :: string
  Pid :: string
  Exe :: string
  State :: string
  InodeCount :: int
  TrafficStats :: "trafficStatsEntry option"
  Ring :: "trafficEntry list"
  inodes :: "string list"
  p_revision :: int

datatype sideOption = inputSide | outputSide

definition zero_stats :: trafficStatsEntry where
  "zero_stats = \<lparr>st_In = 0, st_Out = 0, st_InRate = 0, st_OutRate = 0,
     st_InputEWMA = 0, st_OutputEWMA = 0\<rparr>"

definition getLastTrafficEntry :: "process \<Rightarrow> trafficEntry option" where
  "getLastTrafficEntry p = (if Ring p = [] then None else Some (last (Ring p)))"

text \<open>The loop of \<open>analyseStats\<close>; the pair is \<open>(stats.In, stats.Out)\<close>.\<close>

fun analyse_loop :: "int \<Rightarrow> trafficEntry list \<Rightarrow> int \<times> int \<Rightarrow> int \<times> int" where
  "analyse_loop thold [] acc = acc"
| "analyse_loop thold (item # items) (i, out) =
     (if Timestamp item < thold then analyse_loop thold items (i, out)
      else analyse_loop thold items (wrap64 (i + te_In item), wrap64 (out + te_Out item)))"

text \<open>\<open>time.Now().Add(-time.Duration(sec) * time.Second).Unix()\<close>\<close>

definition threshold :: "time \<Rightarrow> int \<Rightarrow> int" where
  "threshold now sec = unix (now + wrap64 (wrap64 (- sec) * second))"

definition analyseStats :: "time \<Rightarrow> int \<Rightarrow> process \<Rightarrow> process" where
  "analyseStats now sec p =
     (let thold = threshold now sec in
      if sec = 0 then p
      else (case analyse_loop thold (Ring p) (0, 0) of (i, out) \<Rightarrow>
        p\<lparr>TrafficStats := Some (zero_stats\<lparr>st_In := i, st_Out := out,
            st_InRate := quot64 i sec, st_OutRate := quot64 out sec\<rparr>)\<rparr>))"

definition shrink :: "process \<Rightarrow> process" where
  "shrink po = (if maxRingSize \<le> length (Ring po) then po\<lparr>Ring := tl (Ring po)\<rparr> else po)"

text \<open>
  After \<open>shrink\<close> a non-empty ring is still non-empty (it drops one of 61 entries), so the read of
  the last entry stays in bounds.
\<close>

definition IncreaseInput :: "time \<Rightarrow> int \<Rightarrow> process \<Rightarrow> process" where
  "IncreaseInput now n po =
     (let ts = unix now in
      if Ring po = [] then po\<lparr>Ring := [\<lparr>Timestamp = ts, te_In = n, te_Out = 0\<rparr>]\<rparr>
      else
        let po = shrink po; item = last (Ring po) in
        if Timestamp item = ts
        then po\<lparr>Ring := butlast (Ring po) @ [item\<lparr>te_In := wrap64 (te_In item + n)\<rparr>]\<rparr>
        else po\<lparr>Ring := Ring po @ [\<lparr>Timestamp = ts, te_In = n, te_Out = 0\<rparr>]\<rparr>)"

definition IncreaseOutput :: "time \<Rightarrow> int \<Rightarrow> process \<Rightarrow> process" where
  "IncreaseOutput now n po =
     (let ts = unix now in
      if Ring po = [] then po\<lparr>Ring := [\<lparr>Timestamp = ts, te_In = 0, te_Out = n\<rparr>]\<rparr>
      else
        let po = shrink po; item = last (Ring po) in
        if Timestamp item = ts
        then po\<lparr>Ring := butlast (Ring po) @ [item\<lparr>te_Out := wrap64 (te_Out item + n)\<rparr>]\<rparr>
        else po\<lparr>Ring := Ring po @ [\<lparr>Timestamp = ts, te_In = 0, te_Out = n\<rparr>]\<rparr>)"

text \<open>\<open>increaseProcessTraffic\<close> of \<open>netflow.go\<close>.\<close>

definition increaseProcessTraffic :: "time \<Rightarrow> process \<Rightarrow> int \<Rightarrow> sideOption \<Rightarrow> process" where
  "increaseProcessTraffic now proc len side =
     (case side of
        inputSide \<Rightarrow> IncreaseInput now len proc
      | outputSide \<Rightarrow> IncreaseOutput now len proc)"

text \<open>
  \<open>copy\<close> dereferences \<open>TrafficStats\<close>; the fields it does not name are zero in the copy. The copy
  shares the ring's backing array with the original; here it has the entries of that moment.
\<close>

definition copy_process :: "process \<Rightarrow> process go" where
  "copy_process p =
     (case TrafficStats p of
        None \<Rightarrow> Panic
      | Some s \<Rightarrow> Ret \<lparr>Name = Name p, Pid = Pid p, Exe = Exe p, State = State p,
          InodeCount = InodeCount p,
          TrafficStats = Some (zero_stats\<lparr>st_In := st_In s, st_Out := st_Out s,
            st_InRate := st_InRate s, st_OutRate := st_OutRate s\<rparr>),
          Ring = Ring p, inodes = [], p_revision = 0\<rparr>)"

section \<open>An unbounded log, and the ring as its most recent part\<close>

text \<open>
  The specification: a log that keeps one entry per second for ever. \<open>log_push\<close> adds to the entry of
  the current second or opens one.
\<close>

definition log_push ::
    "int \<Rightarrow> trafficEntry \<Rightarrow> (trafficEntry \<Rightarrow> trafficEntry) \<Rightarrow> trafficEntry list \<Rightarrow> trafficEntry list" where
  "log_push ts fresh bump log =
     (if log = [] \<or> Timestamp (last log) \<noteq> ts then log @ [fresh]
      else butlast log @ [bump (last log)])"

definition log_sorted :: "int \<Rightarrow> trafficEntry list \<Rightarrow> bool" where
  "log_sorted ts log \<longleftrightarrow> sorted_wrt (<) (map Timestamp log) \<and> (\<forall>e\<in>set log. Timestamp e \<le> ts)"

text \<open>\<open>recent log ring\<close>: the ring is the log, or a final part of it with at least 60 entries.\<close>

definition recent :: "trafficEntry list \<Rightarrow> trafficEntry list \<Rightarrow> bool" where
  "recent log ring \<longleftrightarrow>
     length ring \<le> maxRingSize \<and>
     (ring = log \<or> (\<exists>k<length log. ring = drop k log \<and> maxRingSize - 1 \<le> length ring))"

definition shrunk :: "trafficEntry list \<Rightarrow> trafficEntry list" where
  "shrunk r = (if maxRingSize \<le> length r then tl r else r)"

lemma Ring_shrink: "Ring (shrink po) = shrunk (Ring po)"
  by (simp add: shrink_def shrunk_def)

lemma shrunk_not_Nil: "r \<noteq> [] \<Longrightarrow> shrunk r \<noteq> []"
  by (cases r) (auto simp: shrunk_def maxRingSize_def)

lemma length_shrunk: "length r \<le> maxRingSize \<Longrightarrow> length (shrunk r) < maxRingSize"
  by (auto simp: shrunk_def maxRingSize_def)

lemma last_shrunk: "r \<noteq> [] \<Longrightarrow> last (shrunk r) = last r"
  using shrunk_not_Nil [of r] by (auto simp: shrunk_def last_tl)

lemma log_push_drop:
  "k < length log \<Longrightarrow> log_push ts fresh bump (drop k log) = drop k (log_push ts fresh bump log)"
  by (cases "log = []") (simp_all add: log_push_def last_drop butlast_drop [symmetric] drop_butlast)

lemma length_log_push: "length (log_push ts fresh bump log) \<le> Suc (length log)"
  by (auto simp: log_push_def)

lemma length_log_push_ge: "length log \<le> length (log_push ts fresh bump log)"
  by (auto simp: log_push_def)

lemma log_push_not_Nil [simp]: "log_push ts fresh bump log \<noteq> []"
  by (simp add: log_push_def)

lemma sorted_wrt_snoc:
  "sorted_wrt (<) (xs @ [x :: int]) \<longleftrightarrow> sorted_wrt (<) xs \<and> (\<forall>y\<in>set xs. y < x)"
  by (simp add: sorted_wrt_append)

lemma log_sorted_push:
  assumes "log_sorted ts0 log" "ts0 \<le> ts" "Timestamp fresh = ts"
    "\<And>e. Timestamp (bump e) = Timestamp e"
  shows "log_sorted ts (log_push ts fresh bump log)"
proof (cases "log = [] \<or> Timestamp (last log) \<noteq> ts")
  case False
  then obtain xs x where log: "log = xs @ [x]" by (metis rev_exhaust)
  then have "log_push ts fresh bump log = xs @ [bump x]" using False by (simp add: log_push_def)
  then show ?thesis
    using assms(1,2,4) unfolding log log_sorted_def by (auto simp: sorted_wrt_snoc)
next
  case True
  have "Timestamp e < ts" if "e \<in> set log" for e
  proof -
    have "log \<noteq> []" using that by auto
    then obtain xs x where log: "log = xs @ [x]" by (metis rev_exhaust)
    have "Timestamp x \<le> ts" "Timestamp x \<noteq> ts"
      using assms(1,2) True log by (auto simp: log_sorted_def)
    moreover have "e = x \<or> Timestamp e < Timestamp x"
      using that assms(1) log by (auto simp: log_sorted_def sorted_wrt_snoc)
    ultimately show ?thesis by auto
  qed
  moreover have "log_push ts fresh bump log = log @ [fresh]" using True by (simp add: log_push_def)
  ultimately show ?thesis
    using assms(1,3) less_imp_le by (auto simp: log_sorted_def sorted_wrt_snoc)
qed

subsection \<open>Sums over a window\<close>

definition window :: "(trafficEntry \<Rightarrow> int) \<Rightarrow> int \<Rightarrow> trafficEntry list \<Rightarrow> int" where
  "window f thold es = (\<Sum>e\<leftarrow>filter (\<lambda>e. thold \<le> Timestamp e) es. f e)"

lemma window_simps [simp]:
  "window f thold [] = 0"
  "window f thold (e # es) = (if thold \<le> Timestamp e then f e else 0) + window f thold es"
  "window f thold (xs @ ys) = window f thold xs + window f thold ys"
  by (simp_all add: window_def)

lemma analyse_loop_window:
  "wrap64 i = i \<Longrightarrow> wrap64 out = out \<Longrightarrow>
     analyse_loop thold es (i, out) =
       (wrap64 (i + window te_In thold es), wrap64 (out + window te_Out thold es))"
proof (induction es arbitrary: i out)
  case (Cons e es)
  show ?case
  proof (cases "Timestamp e < thold")
    case True
    with Cons show ?thesis by simp
  next
    case False
    have "analyse_loop thold es (wrap64 (i + te_In e), wrap64 (out + te_Out e)) =
        (wrap64 (wrap64 (i + te_In e) + window te_In thold es),
         wrap64 (wrap64 (out + te_Out e) + window te_Out thold es))"
      by (rule Cons.IH) simp_all
    with False show ?thesis by (simp add: add.assoc)
  qed
qed simp

lemma wrap64_add_cong: "wrap64 a = wrap64 b \<Longrightarrow> wrap64 (a + c) = wrap64 (b + c)"
  by (metis wrap64_add_left)

lemma window_log_push:
  assumes "Timestamp fresh = ts" "\<And>e. Timestamp (bump e) = Timestamp e"
    "wrap64 (f fresh) = wrap64 d" "\<And>e. wrap64 (f (bump e)) = wrap64 (f e + d)"
  shows "wrap64 (window f thold (log_push ts fresh bump log)) =
    wrap64 (window f thold log + (if thold \<le> ts then d else 0))"
proof (cases "log = [] \<or> Timestamp (last log) \<noteq> ts")
  case True
  then show ?thesis
    using assms(1,3) wrap64_add_cong [of "f fresh" d "window f thold log"]
    by (auto simp: log_push_def add.commute)
next
  case False
  then obtain xs x where log: "log = xs @ [x]" by (metis rev_exhaust)
  with False have "Timestamp x = ts" by simp
  with False log assms(2) show ?thesis
    using wrap64_add_cong [OF assms(4) [of x], of "window f thold xs"]
    by (auto simp: log_push_def algebra_simps)
qed

lemma ascending_gap:
  "sorted_wrt (<) xs \<Longrightarrow> i + m < length xs \<Longrightarrow> xs ! i + int m \<le> (xs ! (i + m) :: int)"
proof (induction m)
  case (Suc m)
  then have "xs ! (i + m) < xs ! (i + Suc m)"
    by (intro sorted_wrt_nth_less) auto
  with Suc show ?case by simp
qed simp

text \<open>A window of at most 60 seconds lies within the part of the log that the ring keeps.\<close>

lemma window_recent:
  assumes "recent log ring" "log_sorted ts log" "ts - thold < int (maxRingSize - 1)"
  shows "window f thold ring = window f thold log"
proof (cases "ring = log")
  case False
  then obtain k where k: "k < length log" "ring = drop k log" "maxRingSize - 1 \<le> length ring"
    using assms(1) by (auto simp: recent_def)
  have "Timestamp e < thold" if "e \<in> set (take k log)" for e
  proof -
    obtain i where i: "i < k" "e = log ! i"
      using \<open>e \<in> set (take k log)\<close> k(1) by (auto simp: in_set_conv_nth)
    let ?m = "length log - 1 - i"
    have "map Timestamp log ! i + int ?m \<le> map Timestamp log ! (i + ?m)"
      using assms(2) i k(1) by (intro ascending_gap) (auto simp: log_sorted_def)
    moreover have "Timestamp (log ! (i + ?m)) \<le> ts"
      using assms(2) i k(1) by (auto simp: log_sorted_def)
    moreover have "int (maxRingSize - 1) \<le> int ?m"
      using i k by simp
    ultimately show ?thesis using assms(3) i k(1) by simp
  qed
  then have "filter (\<lambda>e. thold \<le> Timestamp e) (take k log) = []"
    by (fastforce simp: filter_empty_conv)
  then have "window f thold (take k log) = 0"
    by (simp add: window_def)
  then show ?thesis
    using window_simps(3) [of f thold "take k log" "drop k log"] k(2) by simp
qed simp

section \<open>The contract both increase operations meet\<close>

text \<open>
  \<open>IncreaseInput\<close> and \<open>IncreaseOutput\<close> share a contract: make room, then push onto the entry of the
  current second. \<open>din\<close> and \<open>dout\<close> say what the operation adds to each direction.
\<close>

locale traffic_recorder =
  fixes rec :: "time \<Rightarrow> int \<Rightarrow> process \<Rightarrow> process"
    and fresh :: "int \<Rightarrow> int \<Rightarrow> trafficEntry"
    and bump :: "int \<Rightarrow> trafficEntry \<Rightarrow> trafficEntry"
    and din :: "int \<Rightarrow> int"
    and dout :: "int \<Rightarrow> int"
  assumes rec_Ring: "Ring (rec now n p) = log_push (unix now) (fresh (unix now) n) (bump n) (shrunk (Ring p))"
    and rec_frame: "rec now n p = p\<lparr>Ring := Ring (rec now n p)\<rparr>"
    and ts_fresh: "Timestamp (fresh ts n) = ts"
    and ts_bump: "Timestamp (bump n e) = Timestamp e"
    and in_fresh: "wrap64 (te_In (fresh ts n)) = wrap64 (din n)"
    and in_bump: "wrap64 (te_In (bump n e)) = wrap64 (te_In e + din n)"
    and out_fresh: "wrap64 (te_Out (fresh ts n)) = wrap64 (dout n)"
    and out_bump: "wrap64 (te_Out (bump n e)) = wrap64 (te_Out e + dout n)"
begin

lemma rec_length:
  "length (Ring p) \<le> maxRingSize \<Longrightarrow> length (Ring (rec now n p)) \<le> maxRingSize"
  using length_log_push [of "unix now" "fresh (unix now) n" "bump n" "shrunk (Ring p)"]
    length_shrunk [of "Ring p"]
  by (simp add: rec_Ring)

lemma rec_last: "Timestamp (last (Ring (rec now n p))) = unix now"
  by (auto simp: rec_Ring log_push_def ts_fresh ts_bump)

lemma rec_other_fields:
  "Pid (rec now n p) = Pid p \<and> inodes (rec now n p) = inodes p \<and>
     TrafficStats (rec now n p) = TrafficStats p \<and> InodeCount (rec now n p) = InodeCount p"
  by (subst (1 2 3 4) rec_frame) simp

lemma rec_sorted:
  assumes "log_sorted ts0 (Ring p)" "ts0 \<le> unix now"
  shows "log_sorted (unix now) (Ring (rec now n p))"
proof -
  have "log_sorted ts0 (shrunk (Ring p))"
    using assms(1) by (cases "Ring p") (auto simp: log_sorted_def shrunk_def)
  then show ?thesis
    unfolding rec_Ring by (rule log_sorted_push [OF _ assms(2)]) (simp_all add: ts_fresh ts_bump)
qed

lemma recent_shrunk:
  assumes "recent log ring" "ring \<noteq> []"
  shows "\<exists>k<length log. shrunk ring = drop k log \<and> (k = 0 \<or> maxRingSize - 1 \<le> length (shrunk ring))
    \<and> length (shrunk ring) < maxRingSize"
proof -
  obtain k where k: "k < length log" "ring = drop k log" "k = 0 \<or> maxRingSize - 1 \<le> length ring"
    using assms unfolding recent_def by (metis drop_0 length_greater_0_conv)
  have len: "length (shrunk ring) < maxRingSize"
    using assms by (simp add: recent_def length_shrunk)
  show ?thesis
  proof (cases "maxRingSize \<le> length ring")
    case True
    then have "shrunk ring = drop (Suc k) log" "Suc k < length log"
      using k by (auto simp: shrunk_def drop_Suc tl_drop maxRingSize_def)
    moreover have "maxRingSize - 1 \<le> length (shrunk ring)" using True by (simp add: shrunk_def)
    ultimately show ?thesis using len by blast
  next
    case False
    with k len show ?thesis by (intro exI [of _ k]) (auto simp: shrunk_def)
  qed
qed

text \<open>Refinement: the ring stays the recent part of the log to which the same push is applied.\<close>

lemma rec_recent:
  assumes "recent log (Ring p)"
  shows "recent (log_push (unix now) (fresh (unix now) n) (bump n) log) (Ring (rec now n p))"
    (is "recent ?log' _")
proof (cases "Ring p = []")
  case True
  then have "log = []" using assms by (auto simp: recent_def)
  with True show ?thesis
    by (simp add: rec_Ring recent_def shrunk_def log_push_def maxRingSize_def)
next
  case False
  then obtain k where k: "k < length log" "shrunk (Ring p) = drop k log"
      "k = 0 \<or> maxRingSize - 1 \<le> length (shrunk (Ring p))" "length (shrunk (Ring p)) < maxRingSize"
    using recent_shrunk [OF assms] by blast
  let ?r = "log_push (unix now) (fresh (unix now) n) (bump n) (shrunk (Ring p))"
  have r: "?r = drop k ?log'"
    using k(1,2) by (simp add: log_push_drop)
  have "length ?r \<le> maxRingSize" "length (shrunk (Ring p)) \<le> length ?r"
    using length_log_push [of "unix now" "fresh (unix now) n" "bump n" "shrunk (Ring p)"] k(4)
      length_log_push_ge [of "shrunk (Ring p)"] by auto
  moreover have "k < length ?log'"
    by (rule less_le_trans [OF k(1) length_log_push_ge])
  ultimately have "recent ?log' ?r"
    using k(3) unfolding recent_def r by auto
  then show ?thesis by (simp add: rec_Ring)
qed

lemma window_in_push:
  "wrap64 (window te_In thold (log_push ts (fresh ts n) (bump n) log)) =
     wrap64 (window te_In thold log + (if thold \<le> ts then din n else 0))"
  by (rule window_log_push) (simp_all add: ts_fresh ts_bump in_fresh in_bump)

lemma window_out_push:
  "wrap64 (window te_Out thold (log_push ts (fresh ts n) (bump n) log)) =
     wrap64 (window te_Out thold log + (if thold \<le> ts then dout n else 0))"
  by (rule window_log_push) (simp_all add: ts_fresh ts_bump out_fresh out_bump)

end

definition fresh_in :: "int \<Rightarrow> int \<Rightarrow> trafficEntry" where
  "fresh_in ts n = \<lparr>Timestamp = ts, te_In = n, te_Out = 0\<rparr>"

definition fresh_out :: "int \<Rightarrow> int \<Rightarrow> trafficEntry" where
  "fresh_out ts n = \<lparr>Timestamp = ts, te_In = 0, te_Out = n\<rparr>"

definition bump_in :: "int \<Rightarrow> trafficEntry \<Rightarrow> trafficEntry" where
  "bump_in n e = e\<lparr>te_In := wrap64 (te_In e + n)\<rparr>"

definition bump_out :: "int \<Rightarrow> trafficEntry \<Rightarrow> trafficEntry" where
  "bump_out n e = e\<lparr>te_Out := wrap64 (te_Out e + n)\<rparr>"

interpretation rin: traffic_recorder IncreaseInput fresh_in bump_in "\<lambda>n. n" "\<lambda>_. 0"
proof unfold_locales
  fix now n p
  show "Ring (IncreaseInput now n p) =
      log_push (unix now) (fresh_in (unix now) n) (bump_in n) (shrunk (Ring p))"
    using shrunk_not_Nil [of "Ring p"]
    by (cases "Ring p = []")
      (simp_all add: IncreaseInput_def Let_def log_push_def fresh_in_def bump_in_def Ring_shrink
        shrunk_def maxRingSize_def)
  show "IncreaseInput now n p = p\<lparr>Ring := Ring (IncreaseInput now n p)\<rparr>"
    by (simp add: IncreaseInput_def Let_def shrink_def)
qed (simp_all add: fresh_in_def bump_in_def)

interpretation rout: traffic_recorder IncreaseOutput fresh_out bump_out "\<lambda>_. 0" "\<lambda>n. n"
proof unfold_locales
  fix now n p
  show "Ring (IncreaseOutput now n p) =
      log_push (unix now) (fresh_out (unix now) n) (bump_out n) (shrunk (Ring p))"
    using shrunk_not_Nil [of "Ring p"]
    by (cases "Ring p = []")
      (simp_all add: IncreaseOutput_def Let_def log_push_def fresh_out_def bump_out_def Ring_shrink
        shrunk_def maxRingSize_def)
  show "IncreaseOutput now n p = p\<lparr>Ring := Ring (IncreaseOutput now n p)\<rparr>"
    by (simp add: IncreaseOutput_def Let_def shrink_def)
qed (simp_all add: fresh_out_def bump_out_def)

section \<open>Runs of traffic events\<close>

text \<open>An event is a clock reading, a direction and a byte count; \<open>account\<close> feeds a run of them.\<close>

type_synonym event = "time \<times> sideOption \<times> int"

definition account1 :: "process \<Rightarrow> event \<Rightarrow> process" where
  "account1 p ev = (case ev of (t, side, n) \<Rightarrow> increaseProcessTraffic t p n side)"

definition account :: "event list \<Rightarrow> process \<Rightarrow> process" where
  "account evs p = foldl account1 p evs"

definition log_event :: "trafficEntry list \<Rightarrow> event \<Rightarrow> trafficEntry list" where
  "log_event log ev = (case ev of (t, side, n) \<Rightarrow>
     (case side of
        inputSide \<Rightarrow> log_push (unix t) (fresh_in (unix t) n) (bump_in n) log
      | outputSide \<Rightarrow> log_push (unix t) (fresh_out (unix t) n) (bump_out n) log))"

definition event_log :: "event list \<Rightarrow> trafficEntry list" where
  "event_log evs = foldl log_event [] evs"

text \<open>The bytes of one direction since a second, read off the events themselves.\<close>

definition bytes_since :: "sideOption \<Rightarrow> int \<Rightarrow> event list \<Rightarrow> int" where
  "bytes_since side thold evs =
     (\<Sum>(t, s, n)\<leftarrow>evs. if s = side \<and> thold \<le> unix t then n else 0)"

lemma account_snoc [simp]: "account (evs @ [ev]) p = account1 (account evs p) ev"
  by (simp add: account_def)

lemma event_log_snoc [simp]: "event_log (evs @ [ev]) = log_event (event_log evs) ev"
  by (simp add: event_log_def)

lemma bytes_since_snoc [simp]:
  "bytes_since side thold (evs @ [(t, s, n)]) =
     bytes_since side thold evs + (if s = side \<and> thold \<le> unix t then n else 0)"
  by (simp add: bytes_since_def)

lemma account_Nil [simp]: "account [] p = p" "event_log [] = []" "bytes_since side thold [] = 0"
  by (simp_all add: account_def event_log_def bytes_since_def)

lemma map_option_account_Nil [simp]: "map_option (account []) x = x"
  by (cases x) simp_all

lemma account1_length:
  "length (Ring p) \<le> maxRingSize \<Longrightarrow> length (Ring (account1 p ev)) \<le> maxRingSize"
  by (cases ev)
    (auto simp: account1_def increaseProcessTraffic_def rin.rec_length rout.rec_length
      split: sideOption.split)

lemma account1_sorted:
  "log_sorted ts0 (Ring p) \<Longrightarrow> ts0 \<le> unix (fst ev) \<Longrightarrow>
     log_sorted (unix (fst ev)) (Ring (account1 p ev))"
  by (cases ev)
    (auto simp: account1_def increaseProcessTraffic_def intro: rin.rec_sorted rout.rec_sorted
      split: sideOption.split)

lemma account_length:
  "length (Ring p) \<le> maxRingSize \<Longrightarrow> length (Ring (account evs p)) \<le> maxRingSize"
  by (induction evs rule: rev_induct) (auto intro: account1_length)

lemma recent_account1:
  assumes "recent (event_log evs) (Ring p)"
  shows "recent (event_log (evs @ [ev])) (Ring (account1 p ev))"
proof -
  obtain t side n where ev: "ev = (t, side, n)" by (cases ev)
  show ?thesis
    using rin.rec_recent [OF assms] rout.rec_recent [OF assms]
    by (cases side) (simp_all add: ev account1_def increaseProcessTraffic_def log_event_def)
qed

lemma recent_Nil [simp]: "recent [] []"
  by (simp add: recent_def)

lemma recent_account: "Ring p = [] \<Longrightarrow> recent (event_log evs) (Ring (account evs p))"
  by (induction evs rule: rev_induct) (simp_all add: recent_account1 del: event_log_snoc)

lemma sorted_event_log:
  "sorted (map fst evs) \<Longrightarrow> \<forall>ev\<in>set evs. fst ev \<le> now \<Longrightarrow> log_sorted (unix now) (event_log evs)"
proof (induction evs arbitrary: now rule: rev_induct)
  case Nil
  then show ?case by (simp add: log_sorted_def)
next
  case (snoc ev evs)
  obtain t side n where ev: "ev = (t, side, n)" by (cases ev)
  have "log_sorted (unix t) (event_log evs)"
    using snoc.prems(1) by (intro snoc.IH) (auto simp: ev sorted_append)
  then have "log_sorted (unix t) (event_log (evs @ [ev]))"
    by (cases side) (simp_all add: ev log_event_def log_sorted_push rin.ts_fresh rin.ts_bump
        rout.ts_fresh rout.ts_bump)
  moreover have "unix t \<le> unix now" using snoc.prems(2) ev by (simp add: unix_mono)
  ultimately show ?case by (auto simp: log_sorted_def intro: order_trans)
qed

lemma window_event_log:
  "wrap64 (window te_In thold (event_log evs)) = wrap64 (bytes_since inputSide thold evs) \<and>
   wrap64 (window te_Out thold (event_log evs)) = wrap64 (bytes_since outputSide thold evs)"
proof (induction evs rule: rev_induct)
  case (snoc ev evs)
  obtain t side n where ev: "ev = (t, side, n)" by (cases ev)
  show ?case
    using snoc
    by (cases side)
      (auto simp: ev log_event_def rin.window_in_push rin.window_out_push rout.window_in_push
        rout.window_out_push intro: wrap64_add_cong)
qed simp

lemma threshold_small:
  assumes "0 \<le> sec" "sec \<le> 2 ^ 32"
  shows "threshold now sec = unix now - sec"
proof -
  have "wrap64 (- sec) = - sec" using assms by (intro wrap64_id) auto
  moreover have "wrap64 (- sec * second) = - sec * second" using assms by (intro wrap64_id) auto
  moreover have "(now + - sec * second) div second = now div second - sec"
    using div_mult_self2 [of second now "- sec"] by (simp add: algebra_simps)
  ultimately show ?thesis by (simp only: threshold_def unix_def)
qed

text \<open>
  The statistics of a window of up to 59 seconds are the byte counts of the events in it, whatever
  the ring has evicted by then.
\<close>

definition window_stats :: "time \<Rightarrow> int \<Rightarrow> event list \<Rightarrow> trafficStatsEntry" where
  "window_stats now sec evs =
     (let i = wrap64 (bytes_since inputSide (unix now - sec) evs);
          out = wrap64 (bytes_since outputSide (unix now - sec) evs)
      in zero_stats\<lparr>st_In := i, st_Out := out, st_InRate := quot64 i sec, st_OutRate := quot64 out sec\<rparr>)"

lemma analyseStats_window:
  assumes "sec \<noteq> 0"
  shows "TrafficStats (analyseStats now sec p) =
    (let i = wrap64 (window te_In (threshold now sec) (Ring p));
         out = wrap64 (window te_Out (threshold now sec) (Ring p))
     in Some (zero_stats\<lparr>st_In := i, st_Out := out,
          st_InRate := quot64 i sec, st_OutRate := quot64 out sec\<rparr>))"
  using assms analyse_loop_window [of 0 0 "threshold now sec" "Ring p"]
  by (simp add: analyseStats_def Let_def wrap64_def)

lemma analyseStats_recent:
  assumes "recent (event_log evs) (Ring p)"
    and "sorted (map fst evs)" "\<forall>ev\<in>set evs. fst ev \<le> now" "0 < sec" "sec \<le> 59"
  shows "TrafficStats (analyseStats now sec p) = Some (window_stats now sec evs)"
proof -
  note assms(1)
  moreover have "log_sorted (unix now) (event_log evs)"
    using assms(2,3) by (rule sorted_event_log)
  moreover have "unix now - (unix now - sec) < int (maxRingSize - 1)"
    using assms(5) by (simp add: maxRingSize_def)
  ultimately have eq: "window f (unix now - sec) (Ring p) = window f (unix now - sec) (event_log evs)" for f
    by (rule window_recent)
  show ?thesis
    using assms(4,5) analyseStats_window [of sec now p]
    by (simp add: threshold_small eq window_event_log window_stats_def Let_def)
qed

lemma analyseStats_account:
  assumes "Ring p = []" "sorted (map fst evs)" "\<forall>ev\<in>set evs. fst ev \<le> now" "0 < sec" "sec \<le> 59"
  shows "TrafficStats (analyseStats now sec (account evs p)) = Some (window_stats now sec evs)"
  by (rule analyseStats_recent [OF recent_account [OF assms(1)] assms(2-5)])


section \<open>The ring exactly, and a window of 60 seconds\<close>

text \<open>
  How many entries the ring has after a run of events: all of them up to 60; from the 61st on, 61 after
  the first event of a second and 60 from the second event on, as \<open>shrink\<close> then drops an entry that
  nothing replaces.
\<close>

definition at_second :: "int \<Rightarrow> event list \<Rightarrow> event list" where
  "at_second s evs = filter (\<lambda>ev. unix (fst ev) = s) evs"

definition kept :: "event list \<Rightarrow> nat" where
  "kept evs =
     (if length (event_log evs) < maxRingSize then length (event_log evs)
      else if length (at_second (unix (fst (last evs))) evs) = 1 then maxRingSize
      else maxRingSize - 1)"

lemma Ring_account1: "Ring (account1 p ev) = log_event (shrunk (Ring p)) ev"
  by (cases ev) (simp add: account1_def increaseProcessTraffic_def log_event_def rin.rec_Ring rout.rec_Ring
      split: sideOption.split)

lemma log_event_drop: "k < length log \<Longrightarrow> log_event (drop k log) ev = drop k (log_event log ev)"
  by (simp add: log_event_def log_push_drop split: prod.split sideOption.split)

lemma log_event_seconds:
  "map Timestamp (log_event log ev) =
     (if log = [] \<or> Timestamp (last log) \<noteq> unix (fst ev) then map Timestamp log @ [unix (fst ev)] else map Timestamp log)"
proof -
  have same: "map Timestamp (butlast log @ [bump (last log)]) = map Timestamp log"
    if "log \<noteq> []" "\<And>e. Timestamp (bump e) = Timestamp e" for bump
    using that by (cases log rule: rev_cases) simp_all
  have push: "map Timestamp (log_push ts fresh bump log) =
      (if log = [] \<or> Timestamp (last log) \<noteq> ts then map Timestamp log @ [ts] else map Timestamp log)"
    if "Timestamp fresh = ts" "\<And>e. Timestamp (bump e) = Timestamp e" for ts fresh bump
    using same [of bump] that by (auto simp: log_push_def)
  obtain t side n where ev: "ev = (t, side, n)" by (cases ev)
  show ?thesis
    by (cases side) (simp_all only: ev log_event_def prod.case sideOption.case fst_conv push rin.ts_fresh rin.ts_bump
        rout.ts_fresh rout.ts_bump)
qed

text \<open>The seconds of the log are the seconds of the events.\<close>

lemma event_log_seconds: "Timestamp ` set (event_log evs) = (\<lambda>ev. unix (fst ev)) ` set evs"
proof (induction evs rule: rev_induct)
  case (snoc ev evs)
  have "Timestamp ` set (log_event log ev) = insert (unix (fst ev)) (Timestamp ` set log)" for log
    using arg_cong [OF log_event_seconds [of log ev], of set]
    by (auto split: if_splits) (metis imageI last_in_set)
  then show ?case using snoc by simp
qed simp

lemma event_log_empty: "event_log evs = [] \<longleftrightarrow> evs = []"
  using event_log_seconds [of evs] by auto

lemma event_log_last: "evs \<noteq> [] \<Longrightarrow> Timestamp (last (event_log evs)) = unix (fst (last evs))"
proof (induction evs rule: rev_induct)
  case (snoc ev evs)
  have "last (map Timestamp (log_event log ev)) = unix (fst ev)" for log
    by (subst log_event_seconds) (auto simp: last_map)
  moreover have "log_event log ev \<noteq> []" for log by (simp add: log_event_def split: prod.split sideOption.split)
  ultimately show ?case by (metis event_log_snoc last_map last_snoc)
qed simp


lemma at_second_snoc:
  "at_second s (evs @ [ev]) = at_second s evs @ (if unix (fst ev) = s then [ev] else [])"
  by (simp add: at_second_def)

lemma last_second:
  assumes "sorted (map fst (evs @ [ev]))"
  shows "length (at_second (unix (fst ev)) (evs @ [ev])) = 1 \<longleftrightarrow> evs = [] \<or> unix (fst (last evs)) \<noteq> unix (fst ev)"
proof (cases "evs = []")
  case False
  have "unix (fst e) \<le> unix (fst (last evs))" if "e \<in> set evs" for e
  proof -
    obtain xs x where evs: "evs = xs @ [x]" using False by (metis rev_exhaust)
    then show ?thesis using assms that by (auto simp: sorted_append intro!: unix_mono)
  qed
  moreover have "unix (fst (last evs)) \<le> unix (fst ev)"
    using assms False by (intro unix_mono) (auto simp: sorted_append)
  ultimately have "at_second (unix (fst ev)) evs = [] \<longleftrightarrow> unix (fst (last evs)) \<noteq> unix (fst ev)"
    using False by (fastforce simp: at_second_def filter_empty_conv)
  then show ?thesis using False by (simp add: at_second_snoc)
qed (simp add: at_second_def)

lemma kept_snoc:
  assumes "sorted (map fst (evs @ [ev]))" "evs \<noteq> []"
  shows "length (event_log (evs @ [ev])) - kept (evs @ [ev]) =
    (if maxRingSize \<le> kept evs then Suc (length (event_log evs) - kept evs) else length (event_log evs) - kept evs)"
proof -
  have len: "length (event_log (evs @ [ev])) =
      (if unix (fst (last evs)) \<noteq> unix (fst ev) then Suc (length (event_log evs)) else length (event_log evs))"
    using arg_cong [OF log_event_seconds [of "event_log evs" ev], of length] assms(2)
    by (auto simp: event_log_empty event_log_last split: if_splits)
  show ?thesis
    using last_second [OF assms(1)] assms(2) len by (auto simp: kept_def maxRingSize_def)
qed

lemma kept_bound: "kept evs \<le> length (event_log evs)" "evs \<noteq> [] \<Longrightarrow> 0 < kept evs"
  by (auto simp: kept_def maxRingSize_def event_log_empty)

lemma Ring_account:
  assumes "Ring p = []"
  shows "sorted (map fst evs) \<Longrightarrow> Ring (account evs p) = drop (length (event_log evs) - kept evs) (event_log evs)"
proof (induction evs rule: rev_induct)
  case (snoc ev evs)
  show ?case
  proof (cases "evs = []")
    case True
    have "length (event_log [ev]) = 1" by (simp add: event_log_def log_event_def log_push_def split: prod.split sideOption.split)
    then have "kept [ev] = 1" by (simp add: kept_def maxRingSize_def)
    then show ?thesis using True assms Ring_account1 [of p ev] \<open>length (event_log [ev]) = 1\<close>
      by (simp add: account_def event_log_def shrunk_def maxRingSize_def)
  next
    case False
    let ?k = "length (event_log evs) - kept evs" and ?k' = "length (event_log (evs @ [ev])) - kept (evs @ [ev])"
    have "Ring (account evs p) = drop ?k (event_log evs)" using snoc by (simp add: sorted_append)
    then have "shrunk (Ring (account evs p)) = drop ?k' (event_log evs)"
      using kept_bound(1) [of evs] unfolding kept_snoc [OF snoc.prems False]
      by (simp add: shrunk_def drop_Suc tl_drop)
    moreover have "?k' < length (event_log evs)"
      using kept_bound [of evs] False unfolding kept_snoc [OF snoc.prems False]
      by (auto simp: kept_def maxRingSize_def split: if_splits)
    ultimately show ?thesis by (simp add: Ring_account1 log_event_drop)
  qed
qed (simp add: assms)


text \<open>
  The minute in which the ring is one entry short: every one of the 61 seconds the window spans has had
  traffic, and the current one more than once.
\<close>

definition full_minute :: "time \<Rightarrow> event list \<Rightarrow> bool" where
  "full_minute now evs \<longleftrightarrow>
     list_all (\<lambda>s. at_second s evs \<noteq> []) [unix now - 60..unix now] \<and> 2 \<le> length (at_second (unix now) evs)"

lemma at_second_some: "at_second s evs \<noteq> [] \<longleftrightarrow> s \<in> Timestamp ` set (event_log evs)"
  by (auto simp: at_second_def event_log_seconds filter_empty_conv)

lemma window_cong:
  assumes "\<And>e. e \<in> set es \<Longrightarrow> thold \<le> Timestamp e \<longleftrightarrow> thold' \<le> Timestamp e"
  shows "window f thold es = window f thold' es"
  using assms by (simp add: window_def cong: filter_cong)

lemma window_none: "(\<And>e. e \<in> set es \<Longrightarrow> Timestamp e < thold) \<Longrightarrow> window f thold es = 0"
proof -
  assume "\<And>e. e \<in> set es \<Longrightarrow> Timestamp e < thold"
  then have "filter (\<lambda>e. thold \<le> Timestamp e) es = []" by (fastforce simp: filter_empty_conv)
  then show ?thesis by (simp add: window_def)
qed

lemma window_drop:
  assumes "\<And>e. e \<in> set (take j log) \<Longrightarrow> Timestamp e < thold"
  shows "window f thold (drop j log) = window f thold log"
  using window_simps(3) [of f thold "take j log" "drop j log"] window_none [where es = "take j log" and thold = thold and f = f] assms by simp

text \<open>A strictly ascending list of integers that contains an interval has its length.\<close>

lemma interval_length:
  assumes "{a..b} \<subseteq> set xs"
  shows "b - a < int (length xs)"
proof (cases "a \<le> b")
  case True
  have "card {a..b} \<le> card (set xs)" using assms by (intro card_mono) auto
  also have "\<dots> \<le> length xs" by (rule card_length)
  finally show ?thesis by simp
qed linarith


lemma full_minute_iff:
  "full_minute now evs \<longleftrightarrow>
     {unix now - 60..unix now} \<subseteq> set (map Timestamp (event_log evs)) \<and> 2 \<le> length (at_second (unix now) evs)"
  by (auto simp: full_minute_def at_second_some list_all_iff)

lemma ascending_upto_last:
  assumes "sorted_wrt (<) (xs :: int list)" "\<forall>x\<in>set xs. x \<le> ts" "i < length xs"
  shows "xs ! i + int (length xs - 1 - i) \<le> ts"
proof -
  have "i + (length xs - 1 - i) < length xs" using assms(3) by simp
  from ascending_gap [OF assms(1) this] have "xs ! i + int (length xs - 1 - i) \<le> xs ! (length xs - 1)" using assms(3) by simp
  moreover have "xs ! (length xs - 1) \<in> set xs" using assms(3) by (intro nth_mem) simp
  ultimately show ?thesis using assms(2) by fastforce
qed

text \<open>In a full minute the ring has lost the first second of the window; otherwise nothing of the window.\<close>

lemma kept_full:
  assumes "sorted (map fst evs)" "\<forall>ev\<in>set evs. fst ev \<le> now" "full_minute now evs"
  shows "kept evs = maxRingSize - 1" "maxRingSize \<le> length (event_log evs)"
proof -
  have sub: "{unix now - 60..unix now} \<subseteq> set (map Timestamp (event_log evs))" and two: "2 \<le> length (at_second (unix now) evs)"
    using assms(3) by (simp_all add: full_minute_iff)
  show long: "maxRingSize \<le> length (event_log evs)" using interval_length [OF sub] by (simp add: maxRingSize_def)
  then have "evs \<noteq> []" by (auto simp: maxRingSize_def)
  then obtain xs ev where evs: "evs = xs @ [ev]" by (metis rev_exhaust)
  obtain e where "e \<in> set evs" "unix (fst e) = unix now"
  proof -
    have "set (at_second (unix now) evs) \<noteq> {}" using two by auto
    then show thesis using that by (auto simp: at_second_def)
  qed
  moreover have "fst e \<le> fst ev" using assms(1) calculation(1) by (auto simp: evs sorted_append)
  ultimately have "unix (fst ev) = unix now"
    using assms(2) unix_mono [of "fst e" "fst ev"] unix_mono [of "fst ev" now] by (simp add: evs)
  then show "kept evs = maxRingSize - 1" using two long by (simp add: kept_def evs)
qed

lemma not_full_gap:
  assumes "sorted (map fst evs)" "\<forall>ev\<in>set evs. fst ev \<le> now" "\<not> full_minute now evs"
    and e: "e \<in> set (take (length (event_log evs) - kept evs) (event_log evs))"
  shows "Timestamp e < unix now - 60"
proof -
  let ?xs = "map Timestamp (event_log evs)" and ?n = "length (event_log evs)"
  have asc: "sorted_wrt (<) ?xs" and top: "\<forall>x\<in>set ?xs. x \<le> unix now"
    using sorted_event_log [OF assms(1,2)] by (auto simp: log_sorted_def)
  obtain i where i: "i < ?n - kept evs" "e = event_log evs ! i" using e by (auto simp: in_set_conv_nth)
  have upto: "?xs ! m + int (?n - 1 - m) \<le> unix now" if "m < ?n" for m
    using ascending_upto_last [OF asc top, of m] that by simp
  have lo: "Timestamp e + int (?n - 1 - i) \<le> unix now" using upto [of i] i by simp
  have long: "maxRingSize \<le> ?n" using i(1) by (auto simp: kept_def split: if_splits)
  show ?thesis
  proof (rule ccontr)
    assume le: "\<not> Timestamp e < unix now - 60"
    then have "int (?n - 1 - i) \<le> 60" using lo by linarith
    then have i': "i + 61 = ?n" "kept evs = maxRingSize - 1" and two: "length (at_second (unix (fst (last evs))) evs) \<noteq> 1"
      using i(1) long by (auto simp: kept_def maxRingSize_def split: if_splits)
    have e60: "?xs ! i = unix now - 60" using lo le i i'(1) by simp
    have each: "?xs ! (i + m) = unix now - 60 + int m" if "m \<le> 60" for m
      using ascending_gap [OF asc, of i m] upto [of "i + m"] that i'(1) e60 by simp
    have sub: "{unix now - 60..unix now} \<subseteq> set ?xs"
    proof
      fix s assume s: "s \<in> {unix now - 60..unix now}"
      define m where "m = nat (s - (unix now - 60))"
      have "m \<le> 60" "s = unix now - 60 + int m" using s by (auto simp: m_def)
      then have "s = ?xs ! (i + m)" using each by simp
      moreover have "i + m < length ?xs" using i'(1) \<open>m \<le> 60\<close> by simp
      ultimately show "s \<in> set ?xs" using nth_mem by metis
    qed
    have ne: "evs \<noteq> []" "event_log evs \<noteq> []" using long by (auto simp: maxRingSize_def)
    have "?n - 1 = i + 60" "i + 60 < ?n" using i'(1) by linarith+
    then have "unix (fst (last evs)) = ?xs ! (i + 60)"
      using event_log_last [OF ne(1)] by (simp only: last_conv_nth [OF ne(2)] nth_map)
    then have last: "unix (fst (last evs)) = unix now" using each [of 60] by simp
    then have "last evs \<in> set (at_second (unix now) evs)" using ne(1) by (simp add: at_second_def)
    then have "2 \<le> length (at_second (unix now) evs)"
      using two last by (cases "at_second (unix now) evs") (auto simp: Suc_le_eq)
    then show False using assms(3) sub by (simp add: full_minute_iff)
  qed
qed


lemma full_window:
  assumes "sorted (map fst evs)" "\<forall>ev\<in>set evs. fst ev \<le> now" "full_minute now evs"
    and j: "j = length (event_log evs) - kept evs"
  shows "window f (unix now - 60) (drop j (event_log evs)) = window f (unix now - 59) (event_log evs)"
proof -
  let ?log = "event_log evs" and ?xs = "map Timestamp (event_log evs)"
  note kept = kept_full [OF assms(1-3)]
  have asc: "sorted_wrt (<) ?xs" and top: "\<forall>x\<in>set ?xs. x \<le> unix now"
    using sorted_event_log [OF assms(1,2)] by (auto simp: log_sorted_def)
  have old: "x < unix now - 59" if "x \<in> set (take j ?xs)" for x
  proof -
    obtain i where "i < length (take j ?xs)" "take j ?xs ! i = x" using \<open>x \<in> set (take j ?xs)\<close> unfolding in_set_conv_nth by blast
    then have i: "i < j" "x = ?xs ! i" "i < length ?xs" by simp_all
    have "x + int (length ?xs - 1 - i) \<le> unix now" using ascending_upto_last [OF asc top i(3)] i(2) by simp
    then show ?thesis using i(1) j kept by (simp add: maxRingSize_def)
  qed
  have new: "unix now - 59 \<le> x" if x: "x \<in> set (drop j ?xs)" for x
  proof (rule ccontr)
    assume "\<not> ?thesis"
    have "{unix now - 59..unix now} \<subseteq> set (remove1 x (drop j ?xs))"
    proof
      fix s assume s: "s \<in> {unix now - 59..unix now}"
      then have "s \<in> set ?xs" using assms(3) by (auto simp: full_minute_iff)
      moreover have "s \<notin> set (take j ?xs)" using old s by force
      ultimately have "s \<in> set (drop j ?xs)" by (metis Un_iff append_take_drop_id set_append)
      then show "s \<in> set (remove1 x (drop j ?xs))" using s \<open>\<not> unix now - 59 \<le> x\<close> by (auto simp: in_set_remove1)
    qed
    from interval_length [OF this] show False using x j kept by (simp add: length_remove1 maxRingSize_def)
  qed
  have "unix now - 59 \<le> Timestamp e" if "e \<in> set (drop j ?log)" for e
    using new [of "Timestamp e"] imageI [OF that, of Timestamp] by (simp add: drop_map)
  then have "window f (unix now - 60) (drop j ?log) = window f (unix now - 59) (drop j ?log)"
    by (intro window_cong) fastforce
  moreover have "Timestamp e < unix now - 59" if "e \<in> set (take j ?log)" for e
    using old [of "Timestamp e"] imageI [OF that, of Timestamp] by (simp add: take_map)
  then have "window f (unix now - 59) (drop j ?log) = window f (unix now - 59) ?log" by (intro window_drop) blast
  ultimately show ?thesis by simp
qed

text \<open>The statistics of a window of 60 seconds, whatever the traffic.\<close>

lemma analyseStats_minute:
  assumes "Ring p = []" "sorted (map fst evs)" "\<forall>ev\<in>set evs. fst ev \<le> now"
    and T: "T = unix now - (if full_minute now evs then 59 else 60)"
  shows "TrafficStats (analyseStats now 60 (account evs p)) =
    Some (zero_stats\<lparr>st_In := wrap64 (bytes_since inputSide T evs), st_Out := wrap64 (bytes_since outputSide T evs),
      st_InRate := quot64 (wrap64 (bytes_since inputSide T evs)) 60,
      st_OutRate := quot64 (wrap64 (bytes_since outputSide T evs)) 60\<rparr>)"
proof -
  let ?j = "length (event_log evs) - kept evs"
  have "window f (unix now - 60) (drop ?j (event_log evs)) = window f T (event_log evs)" for f
  proof (cases "full_minute now evs")
    case True
    then show ?thesis using full_window [OF assms(2,3) True refl] T by simp
  next
    case False
    have "window f (unix now - 60) (drop ?j (event_log evs)) = window f (unix now - 60) (event_log evs)"
      by (rule window_drop) (rule not_full_gap [OF assms(2,3) False])
    then show ?thesis using T False by simp
  qed
  then have "window f (unix now - 60) (Ring (account evs p)) = window f T (event_log evs)" for f
    by (simp add: Ring_account [OF assms(1,2)])
  then show ?thesis
    using analyseStats_window [of 60 now "account evs p"] window_event_log [of T evs]
    by (simp add: threshold_small Let_def)
qed

end
