(* ===== verification/ProcScan.thy ===== *)
theory ProcScan
  imports GoStrings TrafficRing
begin

text \<open>
  The scan of \<open>/proc\<close> (\<open>GetProcesses\<close>, \<open>getMatchingPIDs\<close>, \<open>GetProcesses1\<close>, \<open>getProcessExe\<close>,
  \<open>getProcessName\<close> of \<open>process.go\<close>, \<open>matchStringSuffix\<close> of \<open>utils.go\<close>). The file system is one
  snapshot: what \<open>filepath.Glob\<close> returns for a pattern and what \<open>os.Readlink\<close> returns for a path,
  \<open>None\<close> where they return an error. The map from pid to process is in the order of insertion.
\<close>

record procfs =
  Glob :: "string \<Rightarrow> string list option"
  Readlink :: "string \<Rightarrow> string option"

fun matchStringSuffix :: "string \<Rightarrow> string list \<Rightarrow> bool" where
  "matchStringSuffix s [] = False"
| "matchStringSuffix s (val # mv) = (if HasSuffix s val then True else matchStringSuffix s mv)"

text \<open>A failed \<open>Readlink\<close> returns the empty string, which \<open>getProcessExe\<close> passes on.\<close>

definition getProcessExe :: "procfs \<Rightarrow> string \<Rightarrow> string" where
  "getProcessExe fs pid =
     (case Readlink fs (''/proc/'' @ pid @ ''/exe'') of None \<Rightarrow> '''' | Some path \<Rightarrow> path)"

definition getProcessName :: "string \<Rightarrow> string" where
  "getProcessName exe = Title (last (Split exe (CHR ''/'')))"

text \<open>\<open>filepath.Base\<close>: the last element of a path, without trailing slashes.\<close>

definition filepath_Base :: "string \<Rightarrow> string" where
  "filepath_Base path =
     (if path = '''' then ''.''
      else let p = rev (dropWhile (\<lambda>c. c = CHR ''/'') (rev path)) in
           if p = '''' then ''/'' else last (Split p (CHR ''/'')))"

fun matching_loop :: "procfs \<Rightarrow> string \<Rightarrow> string list \<Rightarrow> string list \<Rightarrow> string list" where
  "matching_loop fs nameFilter [] pids = pids"
| "matching_loop fs nameFilter (procDir # dirs) pids =
     (let pid = filepath_Base procDir;
          exe = getProcessExe fs pid;
          pname = getProcessName exe
      in matching_loop fs nameFilter dirs
           (if nameFilter \<noteq> '''' then (if pname = nameFilter then pids @ [pid] else pids)
            else pids @ [pid]))"

definition getMatchingPIDs :: "procfs \<Rightarrow> string \<Rightarrow> go_error + string list" where
  "getMatchingPIDs fs nameFilter =
     (case Glob fs ''/proc/[0-9]*'' of
        None \<Rightarrow> Inl ErrIO
      | Some procDirs \<Rightarrow> Inr (matching_loop fs nameFilter procDirs []))"

definition socket_label :: string where "socket_label = ''socket:[''"

definition new_process :: "string \<Rightarrow> string \<Rightarrow> string \<Rightarrow> string \<Rightarrow> process" where
  "new_process pid inode name exe =
     \<lparr>Name = name, Pid = pid, Exe = exe, State = '''', InodeCount = 1,
      TrafficStats = Some zero_stats, Ring = [], inodes = [inode], p_revision = 0\<rparr>"

text \<open>The inode between \<open>socket:[\<close> and the last byte of a link's target.\<close>

definition link_inode :: "string \<Rightarrow> string go" where
  "link_inode name = go_slice name (int (length socket_label)) (int (length name) - 1)"

text \<open>The inner loop of \<open>GetProcesses\<close> over the descriptors of one process.\<close>

fun fd_loop ::
    "procfs \<Rightarrow> string \<Rightarrow> string \<Rightarrow> string list \<Rightarrow> (string, process) gomap \<Rightarrow>
     (string, process) gomap go" where
  "fd_loop fs nameFilter pid [] ppm = Ret ppm"
| "fd_loop fs nameFilter pid (fpath # files) ppm =
     (case Readlink fs fpath of
        None \<Rightarrow> fd_loop fs nameFilter pid files ppm
      | Some name \<Rightarrow>
          if \<not> HasPrefix name socket_label then fd_loop fs nameFilter pid files ppm
          else go_bind (link_inode name) (\<lambda>inode.
            fd_loop fs nameFilter pid files
              (case gm_get ppm pid of
                 Some po \<Rightarrow> gm_set pid (po\<lparr>inodes := inodes po @ [inode],
                              InodeCount := wrap64 (InodeCount po + 1)\<rparr>) ppm
               | None \<Rightarrow> gm_set pid (new_process pid inode nameFilter (getProcessExe fs pid)) ppm)))"

fun pid_loop ::
    "procfs \<Rightarrow> string \<Rightarrow> string list \<Rightarrow> (string, process) gomap \<Rightarrow> (string, process) gomap go" where
  "pid_loop fs nameFilter [] ppm = Ret ppm"
| "pid_loop fs nameFilter (pid # pids) ppm =
     (case Glob fs (''/proc/'' @ pid @ ''/fd/[0-9]*'') of
        None \<Rightarrow> pid_loop fs nameFilter pids ppm
      | Some files \<Rightarrow>
          go_bind (fd_loop fs nameFilter pid files ppm) (pid_loop fs nameFilter pids))"

definition GetProcesses :: "procfs \<Rightarrow> string \<Rightarrow> (go_error + (string, process) gomap) go" where
  "GetProcesses fs nameFilter =
     (case getMatchingPIDs fs nameFilter of
        Inl err \<Rightarrow> Ret (Inl err)
      | Inr pidList \<Rightarrow> go_bind (pid_loop fs nameFilter pidList []) (\<lambda>ppm. Ret (Inr ppm)))"

text \<open>
  The older \<open>GetProcesses1\<close>: one glob over all descriptors, standard streams skipped, the pid cut
  out of the path (index 2 of its parts).
\<close>

fun files_loop1 ::
    "procfs \<Rightarrow> string \<Rightarrow> string list \<Rightarrow> (string, process) gomap \<Rightarrow> (string, process) gomap go" where
  "files_loop1 fs nameFilter [] ppm = Ret ppm"
| "files_loop1 fs nameFilter (fpath # files) ppm =
     (if matchStringSuffix fpath [''fd/0'', ''fd/1'', ''fd/2''] then files_loop1 fs nameFilter files ppm
      else
        let name = (case Readlink fs fpath of None \<Rightarrow> '''' | Some n \<Rightarrow> n) in
        if \<not> HasPrefix name socket_label then files_loop1 fs nameFilter files ppm
        else go_bind (go_index (Split fpath (CHR ''/'')) 2) (\<lambda>pid.
             go_bind (link_inode name) (\<lambda>inode.
             case gm_get ppm pid of
               Some po \<Rightarrow> files_loop1 fs nameFilter files
                 (gm_set pid (po\<lparr>inodes := inodes po @ [inode],
                    InodeCount := int (length (inodes po @ [inode]))\<rparr>) ppm)
             | None \<Rightarrow>
                 let exe = getProcessExe fs pid; pname = getProcessName exe in
                 if nameFilter \<noteq> '''' \<and> pname \<noteq> nameFilter then files_loop1 fs nameFilter files ppm
                 else files_loop1 fs nameFilter files (gm_set pid (new_process pid inode pname exe) ppm))))"

definition GetProcesses1 :: "procfs \<Rightarrow> string \<Rightarrow> (go_error + (string, process) gomap) go" where
  "GetProcesses1 fs nameFilter =
     (case Glob fs ''/proc/[0-9]*/fd/[0-9]*'' of
        None \<Rightarrow> Ret (Inl ErrIO)
      | Some files \<Rightarrow> go_bind (files_loop1 fs nameFilter files []) (\<lambda>ppm. Ret (Inr ppm)))"

section \<open>What a scan finds\<close>

text \<open>The targets of the socket descriptors of a process, and the process a scan makes of them.\<close>

definition socket_links :: "procfs \<Rightarrow> string list \<Rightarrow> string list" where
  "socket_links fs files =
     filter (\<lambda>name. HasPrefix name socket_label) (List.map_filter (Readlink fs) files)"

definition pid_links :: "procfs \<Rightarrow> string \<Rightarrow> string list" where
  "pid_links fs pid =
     (case Glob fs (''/proc/'' @ pid @ ''/fd/[0-9]*'') of None \<Rightarrow> [] | Some files \<Rightarrow> socket_links fs files)"

definition inode_of :: "string \<Rightarrow> string" where
  "inode_of name = butlast (drop (length socket_label) name)"

definition scanned :: "procfs \<Rightarrow> string \<Rightarrow> string \<Rightarrow> process" where
  "scanned fs nameFilter pid =
     (new_process pid '''' nameFilter (getProcessExe fs pid))
       \<lparr>inodes := map inode_of (pid_links fs pid),
        InodeCount := wrap64 (int (length (pid_links fs pid)))\<rparr>"

lemma map_filter_simps [simp]:
  "List.map_filter f [] = []"
  "List.map_filter f (x # xs) = (case f x of None \<Rightarrow> List.map_filter f xs | Some y \<Rightarrow> y # List.map_filter f xs)"
  by (simp_all add: List.map_filter_def split: option.split)

lemma link_inode_Ret:
  "length socket_label < length name \<Longrightarrow> link_inode name = Ret (inode_of name)"
  by (simp add: link_inode_def inode_of_def go_slice_def butlast_conv_take nat_diff_distrib
      of_nat_diff)

lemma link_inode_Panic: "length name = length socket_label \<Longrightarrow> link_inode name = Panic"
  by (simp add: link_inode_def go_slice_def)

text \<open>A socket link with nothing after the label is the one thing the slice panics on.\<close>

lemma link_inode_Panic_iff:
  "HasPrefix name socket_label \<Longrightarrow> link_inode name = Panic \<longleftrightarrow> name = socket_label"
  using link_inode_Ret [of name] link_inode_Panic [of name]
  by (fastforce simp: HasPrefix_iff)

lemma link_inode_ok:
  assumes "HasPrefix name socket_label" "name \<noteq> socket_label"
  shows "link_inode name = Ret (inode_of name)"
proof -
  obtain t where "name = socket_label @ t" "t \<noteq> []" using assms by (auto simp: HasPrefix_iff)
  then show ?thesis by (intro link_inode_Ret) simp
qed

text \<open>One socket of a process recorded in the map; the inner loop is a run of these.\<close>

definition add_socket ::
    "procfs \<Rightarrow> string \<Rightarrow> string \<Rightarrow> (string, process) gomap \<Rightarrow> string \<Rightarrow> (string, process) gomap" where
  "add_socket fs f pid ppm inode =
     (case gm_get ppm pid of
        Some po \<Rightarrow> gm_set pid (po\<lparr>inodes := inodes po @ [inode],
                     InodeCount := wrap64 (InodeCount po + 1)\<rparr>) ppm
      | None \<Rightarrow> gm_set pid (new_process pid inode f (getProcessExe fs pid)) ppm)"

lemma fd_loop_sockets:
  "\<forall>name\<in>set (socket_links fs files). name \<noteq> socket_label \<Longrightarrow>
     fd_loop fs f pid files ppm =
       Ret (foldl (add_socket fs f pid) ppm (map inode_of (socket_links fs files)))"
proof (induction files arbitrary: ppm)
  case Nil
  then show ?case by (simp add: socket_links_def)
next
  case (Cons fpath files)
  then have IH: "fd_loop fs f pid files ppm' =
      Ret (foldl (add_socket fs f pid) ppm' (map inode_of (socket_links fs files)))" for ppm'
    by (auto simp: socket_links_def split: option.splits)
  consider "Readlink fs fpath = None"
    | name where "Readlink fs fpath = Some name" "\<not> HasPrefix name socket_label"
    | name where "Readlink fs fpath = Some name" "HasPrefix name socket_label" by (meson option.exhaust)
  then show ?case
  proof cases
    case 3
    then have "name \<noteq> socket_label" using Cons.prems by (simp add: socket_links_def)
    with 3 show ?thesis
      by (simp add: link_inode_ok IH socket_links_def add_socket_def [of fs f pid ppm])
  qed (simp_all add: IH socket_links_def)
qed

lemma fd_loop_Panic:
  "\<exists>name\<in>set (socket_links fs files). name = socket_label \<Longrightarrow> fd_loop fs f pid files ppm = Panic"
proof (induction files arbitrary: ppm)
  case (Cons fpath files)
  consider "Readlink fs fpath = None"
    | name where "Readlink fs fpath = Some name" "\<not> HasPrefix name socket_label"
    | name where "Readlink fs fpath = Some name" "HasPrefix name socket_label" "name \<noteq> socket_label"
    | "Readlink fs fpath = Some socket_label" "HasPrefix socket_label socket_label"
    by (metis option.exhaust)
  then show ?case
    by cases (use Cons in \<open>simp_all add: socket_links_def link_inode_ok link_inode_Panic\<close>)
qed (simp add: socket_links_def)

lemma gm_ok_add_sockets: "gm_ok ppm \<Longrightarrow> gm_ok (foldl (add_socket fs f pid) ppm is)"
  by (induction "is" arbitrary: ppm) (auto simp: add_socket_def split: option.split)

lemma get_add_sockets_other:
  "q \<noteq> pid \<Longrightarrow> gm_get (foldl (add_socket fs f pid) ppm is) q = gm_get ppm q"
  by (induction "is" arbitrary: ppm) (auto simp: add_socket_def gomap_simps split: option.split)

lemma get_add_sockets_Some:
  "gm_get ppm pid = Some po \<Longrightarrow>
     gm_get (foldl (add_socket fs f pid) ppm is) pid =
       (if is = [] then Some po
        else Some (po\<lparr>inodes := inodes po @ is, InodeCount := wrap64 (InodeCount po + int (length is))\<rparr>))"
  by (induction "is" arbitrary: ppm po) (auto simp: add_socket_def gomap_simps add_ac)

lemma get_add_sockets_None:
  assumes "gm_get ppm pid = None"
  shows "gm_get (foldl (add_socket fs f pid) ppm is) pid =
    (if is = [] then None
     else Some ((new_process pid '''' f (getProcessExe fs pid))
            \<lparr>inodes := is, InodeCount := wrap64 (int (length is))\<rparr>))"
proof (cases "is")
  case (Cons i js)
  have "gm_get (add_socket fs f pid ppm i) pid = Some (new_process pid i f (getProcessExe fs pid))"
    using assms by (simp add: add_socket_def gomap_simps)
  from get_add_sockets_Some [OF this] Cons show ?thesis
    by (simp add: new_process_def wrap64_def)
qed (simp add: assms)

text \<open>The whole scan: one entry per matching process that has a socket open.\<close>

definition links_fine :: "procfs \<Rightarrow> string \<Rightarrow> bool" where
  "links_fine fs pid \<longleftrightarrow> (\<forall>name\<in>set (pid_links fs pid). name \<noteq> socket_label)"

lemma pid_loop_result:
  assumes "\<forall>pid\<in>set pids. links_fine fs pid" "distinct pids" "gm_ok ppm"
    "\<forall>pid\<in>set pids. gm_get ppm pid = None"
  shows "\<exists>ppm'. pid_loop fs f pids ppm = Ret ppm' \<and> gm_ok ppm' \<and>
    (\<forall>q. gm_get ppm' q =
       (if q \<in> set pids then (if pid_links fs q = [] then None else Some (scanned fs f q))
        else gm_get ppm q))"
  using assms
proof (induction pids arbitrary: ppm)
  case (Cons pid pids)
  define ppm1 where
    "ppm1 = foldl (add_socket fs f pid) ppm (map inode_of (pid_links fs pid))"
  have step: "pid_loop fs f (pid # pids) ppm = pid_loop fs f pids ppm1"
    using Cons.prems(1)
    by (auto simp: ppm1_def pid_links_def links_fine_def fd_loop_sockets split: option.split)
  have other: "gm_get ppm1 q = gm_get ppm q" if "q \<noteq> pid" for q
    using that by (simp add: ppm1_def get_add_sockets_other)
  have own: "gm_get ppm1 pid = (if pid_links fs pid = [] then None else Some (scanned fs f pid))"
    using Cons.prems(4) by (simp add: ppm1_def get_add_sockets_None scanned_def)
  have "gm_get ppm1 q = None" if "q \<in> set pids" for q
    using that other [of q] Cons.prems(2,4) by auto
  then have "\<exists>ppm'. pid_loop fs f pids ppm1 = Ret ppm' \<and> gm_ok ppm' \<and>
    (\<forall>q. gm_get ppm' q =
       (if q \<in> set pids then (if pid_links fs q = [] then None else Some (scanned fs f q))
        else gm_get ppm1 q))"
    using Cons.prems by (intro Cons.IH) (auto simp: ppm1_def gm_ok_add_sockets)
  then obtain ppm' where "pid_loop fs f pids ppm1 = Ret ppm'" "gm_ok ppm'"
    "\<And>q. gm_get ppm' q =
       (if q \<in> set pids then (if pid_links fs q = [] then None else Some (scanned fs f q))
        else gm_get ppm1 q)" by blast
  then show ?case
    unfolding step using Cons.prems(2) other own by (intro exI [of _ ppm']) auto
qed simp

lemma matching_loop_filter:
  "matching_loop fs f dirs pids =
     pids @ filter (\<lambda>pid. f = '''' \<or> getProcessName (getProcessExe fs pid) = f) (map filepath_Base dirs)"
  by (induction fs f dirs pids rule: matching_loop.induct) (auto simp: Let_def)

lemma GetProcesses_result:
  assumes "getMatchingPIDs fs f = Inr pids" "distinct pids" "\<forall>pid\<in>set pids. links_fine fs pid"
  shows "\<exists>ppm. GetProcesses fs f = Ret (Inr ppm) \<and> gm_ok ppm \<and>
    (\<forall>pid. gm_get ppm pid =
       (if pid \<in> set pids \<and> pid_links fs pid \<noteq> [] then Some (scanned fs f pid) else None))"
  using pid_loop_result [of pids fs "[]" f] assms by (fastforce simp: GetProcesses_def)

section \<open>Every scanned process is fresh\<close>

text \<open>Whatever the links are: a process from a scan has zeroed statistics and an empty ring.\<close>

definition fresh_scan :: "(string, process) gomap \<Rightarrow> bool" where
  "fresh_scan ppm \<longleftrightarrow>
     gm_ok ppm \<and> (\<forall>pid p. gm_get ppm pid = Some p \<longrightarrow> TrafficStats p \<noteq> None \<and> Ring p = [])"

lemma fresh_scan_Nil [simp]: "fresh_scan []"
  by (simp add: fresh_scan_def)

lemma fresh_scan_add: "fresh_scan ppm \<Longrightarrow> fresh_scan (add_socket fs f pid ppm inode)"
  by (auto simp: fresh_scan_def add_socket_def gomap_simps new_process_def split: option.split)

lemma fresh_scan_fd_loop: "fresh_scan ppm \<Longrightarrow> fd_loop fs f pid files ppm = Ret ppm' \<Longrightarrow> fresh_scan ppm'"
proof (induction fs f pid files ppm rule: fd_loop.induct)
  case (2 fs f pid fpath files ppm)
  show ?case
  proof (cases "Readlink fs fpath")
    case None
    with 2 show ?thesis by simp
  next
    case (Some name)
    show ?thesis
    proof (cases "HasPrefix name socket_label")
      case False
      with 2 Some show ?thesis by simp
    next
      case True
      with "2.prems"(2) Some obtain inode where "link_inode name = Ret inode"
        "fd_loop fs f pid files (add_socket fs f pid ppm inode) = Ret ppm'"
        by (auto simp: go_simps add_socket_def)
      with "2.IH"(3) [OF Some] True fresh_scan_add [OF "2.prems"(1)] show ?thesis
        by (simp add: add_socket_def)
    qed
  qed
qed simp

lemma fresh_scan_pid_loop: "fresh_scan ppm \<Longrightarrow> pid_loop fs f pids ppm = Ret ppm' \<Longrightarrow> fresh_scan ppm'"
  by (induction fs f pids ppm rule: pid_loop.induct)
    (auto simp: go_simps dest: fresh_scan_fd_loop split: option.splits)

lemma fresh_scan_GetProcesses: "GetProcesses fs f = Ret (Inr ppm) \<Longrightarrow> fresh_scan ppm"
  by (auto simp: GetProcesses_def go_simps intro: fresh_scan_pid_loop [of "[]"] split: sum.splits)

section \<open>When a scan panics\<close>

lemma pid_loop_Panic:
  assumes "\<not> links_fine fs pid"
  shows "pid_loop fs f (pid # pids) ppm = Panic"
proof -
  have bare: "socket_label \<in> set (pid_links fs pid)" using assms by (auto simp: links_fine_def)
  show ?thesis
  proof (cases "Glob fs (''/proc/'' @ pid @ ''/fd/[0-9]*'')")
    case (Some files)
    then have "\<exists>name\<in>set (socket_links fs files). name = socket_label"
      using bare by (simp add: pid_links_def)
    from fd_loop_Panic [OF this] Some show ?thesis by simp
  qed (use bare in \<open>simp add: pid_links_def\<close>)
qed

lemma pid_loop_step:
  assumes "links_fine fs pid"
  shows "\<exists>ppm1. pid_loop fs f (pid # pids) ppm = pid_loop fs f pids ppm1"
proof (cases "Glob fs (''/proc/'' @ pid @ ''/fd/[0-9]*'')")
  case (Some files)
  then have "\<forall>name\<in>set (socket_links fs files). name \<noteq> socket_label"
    using assms by (simp add: links_fine_def pid_links_def)
  from fd_loop_sockets [OF this, of f pid ppm] Some show ?thesis by (simp) blast
qed auto

lemma pid_loop_Panic_iff: "pid_loop fs f pids ppm = Panic \<longleftrightarrow> (\<exists>pid\<in>set pids. \<not> links_fine fs pid)"
proof (induction pids arbitrary: ppm)
  case (Cons pid pids)
  show ?case
  proof (cases "links_fine fs pid")
    case True
    then obtain ppm1 where "pid_loop fs f (pid # pids) ppm = pid_loop fs f pids ppm1"
      using pid_loop_step by blast
    with Cons.IH [of ppm1] True show ?thesis by (simp del: pid_loop.simps)
  next
    case False
    then show ?thesis by (simp add: pid_loop_Panic del: pid_loop.simps)
  qed
qed simp

lemma GetProcesses_Panic_iff:
  "GetProcesses fs f = Panic \<longleftrightarrow>
     (\<exists>pids pid. getMatchingPIDs fs f = Inr pids \<and> pid \<in> set pids \<and> socket_label \<in> set (pid_links fs pid))"
  using pid_loop_Panic_iff [of fs f _ "[]"]
  by (auto simp: GetProcesses_def go_simps links_fine_def split: sum.split)

end
