(* ===== verification/ProcControl.thy ===== *)
theory ProcControl
  imports ProcScan "HOL-Library.Multiset"
begin

text \<open>
  The table of processes (\<open>processController\<close> of \<open>process.go\<close>). Processes are shared by pointer
  between the table, the ranking and the callers of \<open>GetRank\<close>, so they live in an explicit store
  and the table holds addresses. Every method runs under the mutex and is one atomic step.
  \<open>ctx\<close> and \<open>cancel\<close> serve only the loop \<open>Run\<close>, which calls \<open>Rescan\<close> on a timer.
\<close>

section \<open>The store\<close>

type_synonym addr = nat

record store =
  cells :: "addr \<Rightarrow> process option"
  next_addr :: addr

definition empty_store :: store where
  "empty_store = \<lparr>cells = (\<lambda>_. None), next_addr = 0\<rparr>"

definition alloc :: "process \<Rightarrow> store \<Rightarrow> addr \<times> store" where
  "alloc p h = (next_addr h,
     h\<lparr>cells := (cells h)(next_addr h := Some p), next_addr := Suc (next_addr h)\<rparr>)"

definition heap_map :: "addr \<Rightarrow> (process \<Rightarrow> process) \<Rightarrow> store \<Rightarrow> store" where
  "heap_map a f h =
     (case cells h a of None \<Rightarrow> h | Some p \<Rightarrow> h\<lparr>cells := (cells h)(a := Some (f p))\<rparr>)"

definition store_ok :: "store \<Rightarrow> bool" where
  "store_ok h \<longleftrightarrow> (\<forall>a. cells h a \<noteq> None \<longleftrightarrow> a < next_addr h)"

lemma cells_heap_map [simp]:
  "cells (heap_map a f h) b = (if b = a then map_option f (cells h a) else cells h b)"
  by (simp add: heap_map_def split: option.split)

lemma next_heap_map [simp]: "next_addr (heap_map a f h) = next_addr h"
  by (simp add: heap_map_def split: option.split)

lemma store_ok_heap_map [intro]: "store_ok h \<Longrightarrow> store_ok (heap_map a f h)"
  by (auto simp: store_ok_def)

lemma store_ok_alloc: "store_ok h \<Longrightarrow> alloc p h = (a, h') \<Longrightarrow> store_ok h'"
  by (auto simp: store_ok_def alloc_def less_Suc_eq split: if_splits)

section \<open>The controller\<close>

record processController =
  pc_dict :: "(string, addr) gomap"
  pc_revision :: int
  inodePidMap :: "(string, string) gomap"
  sortedProcesses :: "addr list"
  filterPName :: string

definition NewProcessController :: processController where
  "NewProcessController =
     \<lparr>pc_dict = [], pc_revision = 0, inodePidMap = [], sortedProcesses = [], filterPName = ''''\<rparr>"

definition pc_Add :: "string \<Rightarrow> addr \<Rightarrow> processController \<Rightarrow> processController" where
  "pc_Add pid p pm = pm\<lparr>pc_dict := gm_set pid p (pc_dict pm)\<rparr>"

definition pc_Get :: "processController \<Rightarrow> string \<Rightarrow> addr option" where
  "pc_Get pm pid = gm_get (pc_dict pm) pid"

definition GetProcessByInode :: "processController \<Rightarrow> string \<Rightarrow> addr option" where
  "GetProcessByInode pm inode =
     (case gm_get (inodePidMap pm) inode of
        None \<Rightarrow> None
      | Some pid \<Rightarrow> gm_get (pc_dict pm) pid)"

definition pc_delete :: "string \<Rightarrow> processController \<Rightarrow> processController" where
  "pc_delete pid pm = pm\<lparr>pc_dict := gm_del pid (pc_dict pm)\<rparr>"

text \<open>\<open>anyIterator\<close> and \<open>readIterator\<close> call a function on every process of the table.\<close>

definition anyIterator :: "(process \<Rightarrow> process) \<Rightarrow> processController \<Rightarrow> store \<Rightarrow> store" where
  "anyIterator fn pm h = foldl (\<lambda>h (pid, po). heap_map po fn h) h (pc_dict pm)"

definition pc_copy :: "processController \<Rightarrow> (string, addr) gomap" where
  "pc_copy pm = foldl (\<lambda>ndict (k, v). gm_set k v ndict) [] (pc_dict pm)"

definition Reset :: "processController \<Rightarrow> processController" where
  "Reset pm = pm\<lparr>pc_dict := [], inodePidMap := []\<rparr>"

subsection \<open>Rescan\<close>

text \<open>The first loop: processes already known keep their object and get the new inode list.\<close>

fun add_pids ::
    "(string \<times> process) list \<Rightarrow> processController \<times> store \<Rightarrow> processController \<times> store" where
  "add_pids [] s = s"
| "add_pids ((pid, po) # ps) (pm, h) =
     (case gm_get (pc_dict pm) pid of
        Some pp \<Rightarrow> add_pids ps (pm, heap_map pp (\<lambda>p. p\<lparr>inodes := inodes po\<rparr>) h)
      | None \<Rightarrow> (case alloc po h of (a, h') \<Rightarrow>
          add_pids ps (pm\<lparr>pc_dict := gm_set pid a (pc_dict pm)\<rparr>, h')))"

text \<open>The second loop: processes the scan did not find are removed.\<close>

fun del_pids ::
    "(string, process) gomap \<Rightarrow> (string \<times> addr) list \<Rightarrow> (string, addr) gomap \<Rightarrow> (string, addr) gomap" where
  "del_pids ps [] d = d"
| "del_pids ps ((pid, po) # rest) d =
     (case gm_get ps pid of
        Some _ \<Rightarrow> del_pids ps rest d
      | None \<Rightarrow> del_pids ps rest (gm_del pid d))"

text \<open>The third loop: the map from inode to pid is built anew.\<close>

fun inode_map ::
    "(string \<times> process) list \<Rightarrow> (string, string) gomap \<Rightarrow> (string, string) gomap" where
  "inode_map [] m = m"
| "inode_map ((pid, po) # ps) m =
     inode_map ps (foldl (\<lambda>m inode. gm_set inode pid m) m (inodes po))"

definition rescan_apply ::
    "(string, process) gomap \<Rightarrow> processController \<times> store \<Rightarrow> processController \<times> store" where
  "rescan_apply ps s =
     (case s of (pm, h) \<Rightarrow>
      case add_pids ps (pm\<lparr>pc_revision := wrap64 (pc_revision pm + 1)\<rparr>, h) of (pm1, h1) \<Rightarrow>
        (pm1\<lparr>pc_dict := del_pids ps (pc_dict pm1) (pc_dict pm1), inodePidMap := inode_map ps []\<rparr>, h1))"

text \<open>
  \<open>ord\<close> is the order in which \<open>range\<close> visits the scanned processes; Go leaves it open. The scan
  runs before the lock is taken, on the filter the controller has.
\<close>

definition Rescan ::
    "((string, process) gomap \<Rightarrow> (string, process) gomap) \<Rightarrow> procfs \<Rightarrow>
     processController \<times> store \<Rightarrow> (go_error option \<times> processController \<times> store) go" where
  "Rescan ord fs s =
     (case s of (pm, h) \<Rightarrow>
      go_bind (GetProcesses fs (filterPName pm)) (\<lambda>r.
        case r of
          Inl err \<Rightarrow> Ret (Some err, pm, h)
        | Inr ps \<Rightarrow> Ret (None, rescan_apply (ord ps) (pm, h))))"

subsection \<open>Ranking\<close>

text \<open>\<open>Less\<close> compares the wrapped sums; it dereferences \<open>TrafficStats\<close>.\<close>

definition rank_value :: "store \<Rightarrow> addr \<Rightarrow> int" where
  "rank_value h a =
     (case cells h a of
        None \<Rightarrow> 0
      | Some p \<Rightarrow> (case TrafficStats p of None \<Rightarrow> 0 | Some s \<Rightarrow> wrap64 (st_In s + st_Out s)))"

definition has_stats :: "store \<Rightarrow> addr \<Rightarrow> bool" where
  "has_stats h a = (case cells h a of None \<Rightarrow> False | Some p \<Rightarrow> TrafficStats p \<noteq> None)"

definition Less :: "store \<Rightarrow> addr list \<Rightarrow> nat \<Rightarrow> nat \<Rightarrow> bool go" where
  "Less h s i j =
     (if i < length s \<and> j < length s \<and> has_stats h (s ! i) \<and> has_stats h (s ! j)
      then Ret (rank_value h (s ! j) < rank_value h (s ! i)) else Panic)"

text \<open>
  \<open>sort.Sort\<close> puts the largest sum first. It is not stable; here the order among equals is that
  of the \<open>range\<close> loop before it, which is itself open, so every outcome of the Go code is one of
  the model's. With two or more elements every element is compared at least once, so a nil
  \<open>TrafficStats\<close> among them is a panic. \<open>clk pid\<close> is the clock reading \<open>analyseStats\<close> takes for
  that process.
\<close>

definition sort_Sort :: "store \<Rightarrow> addr list \<Rightarrow> addr list go" where
  "sort_Sort h pos =
     (if 2 \<le> length pos \<and> \<not> list_all (has_stats h) pos then Panic
      else Ret (sort_key (\<lambda>a. - rank_value h a) pos))"

definition analyse_all ::
    "(string \<Rightarrow> time) \<Rightarrow> int \<Rightarrow> (string, addr) gomap \<Rightarrow> store \<Rightarrow> store" where
  "analyse_all clk sec d h = foldl (\<lambda>h (pid, po). heap_map po (analyseStats (clk pid) sec) h) h d"

definition Sort ::
    "((string, addr) gomap \<Rightarrow> (string, addr) gomap) \<Rightarrow> (string \<Rightarrow> time) \<Rightarrow> int \<Rightarrow>
     processController \<times> store \<Rightarrow> (processController \<times> store) go" where
  "Sort ord clk sec s =
     (case s of (pm, h) \<Rightarrow>
      let d = ord (pc_dict pm); h' = analyse_all clk sec d h in
      go_bind (sort_Sort h' (map snd d)) (\<lambda>pos. Ret (pm\<lparr>sortedProcesses := pos\<rparr>, h')))"

fun copy_all :: "store \<Rightarrow> addr list \<Rightarrow> process list go" where
  "copy_all h [] = Ret []"
| "copy_all h (a # as) =
     (case cells h a of
        None \<Rightarrow> Panic
      | Some p \<Rightarrow> go_bind (copy_process p) (\<lambda>c. go_bind (copy_all h as) (\<lambda>cs. Ret (c # cs))))"

text \<open>\<open>GetRank\<close> builds copies and returns the originals.\<close>

definition GetRank :: "int \<Rightarrow> processController \<Rightarrow> store \<Rightarrow> addr list go" where
  "GetRank limit pm h =
     (let src = sortedProcesses pm in
      go_bind (if limit < int (length src) then go_slice src 0 limit else Ret src) (\<lambda>src.
      go_bind (copy_all h src) (\<lambda>res. Ret src)))"

text \<open>\<open>GetProcessRank\<close> of \<open>netflow.go\<close>.\<close>

definition GetProcessRank ::
    "((string, addr) gomap \<Rightarrow> (string, addr) gomap) \<Rightarrow> (string \<Rightarrow> time) \<Rightarrow> int \<Rightarrow> int \<Rightarrow>
     processController \<times> store \<Rightarrow> ((go_error + addr list) \<times> processController \<times> store) go" where
  "GetProcessRank ord clk limit recentSeconds s =
     (if int maxRingSize < recentSeconds
      then Ret (Inl (ErrMsg ''windows interval must <= 60''), s)
      else go_bind (Sort ord clk recentSeconds s) (\<lambda>s'.
           go_bind (GetRank limit (fst s') (snd s')) (\<lambda>prank. Ret (Inr prank, s'))))"

section \<open>The table as a map from pids to processes\<close>

text \<open>
  The abstraction of a controller and its store, and the invariant: keys are unique, every address
  in the table is allocated, and no two pids share an object.
\<close>

definition procs :: "processController \<Rightarrow> store \<Rightarrow> string \<Rightarrow> process option" where
  "procs pm h pid = (case gm_get (pc_dict pm) pid of None \<Rightarrow> None | Some a \<Rightarrow> cells h a)"

definition pc_ok :: "processController \<Rightarrow> store \<Rightarrow> bool" where
  "pc_ok pm h \<longleftrightarrow>
     gm_ok (pc_dict pm) \<and> gm_ok (inodePidMap pm) \<and> store_ok h \<and>
     (\<forall>pid a. gm_get (pc_dict pm) pid = Some a \<longrightarrow> a < next_addr h) \<and>
     (\<forall>p q a. gm_get (pc_dict pm) p = Some a \<longrightarrow> gm_get (pc_dict pm) q = Some a \<longrightarrow> p = q)"

definition merge_scan :: "process option \<Rightarrow> process \<Rightarrow> process" where
  "merge_scan old po = (case old of None \<Rightarrow> po | Some p \<Rightarrow> p\<lparr>inodes := inodes po\<rparr>)"

lemma pc_ok_New: "pc_ok NewProcessController empty_store"
  by (simp add: pc_ok_def NewProcessController_def empty_store_def store_ok_def)

lemma pc_ok_cell: "pc_ok pm h \<Longrightarrow> gm_get (pc_dict pm) pid = Some a \<Longrightarrow> \<exists>p. cells h a = Some p"
  by (auto simp: pc_ok_def store_ok_def)

lemma pc_ok_heap_map [intro]: "pc_ok pm h \<Longrightarrow> pc_ok pm (heap_map a f h)"
  by (auto simp: pc_ok_def)

lemma procs_heap_map:
  assumes "pc_ok pm h" "gm_get (pc_dict pm) pid = Some a"
  shows "procs pm (heap_map a f h) q = (if q = pid then map_option f (procs pm h pid) else procs pm h q)"
  using assms by (auto simp: procs_def pc_ok_def split: option.split)

lemma procs_dict_update [simp]:
  "procs (pm\<lparr>pc_revision := r\<rparr>) h = procs pm h"
  "procs (pm\<lparr>inodePidMap := m\<rparr>) h = procs pm h"
  "procs (pm\<lparr>sortedProcesses := ss\<rparr>) h = procs pm h"
  by (simp_all add: procs_def fun_eq_iff)

lemma pc_ok_update [simp]:
  "pc_ok (pm\<lparr>pc_revision := r\<rparr>) h = pc_ok pm h"
  "pc_ok (pm\<lparr>sortedProcesses := ss\<rparr>) h = pc_ok pm h"
  by (simp_all add: pc_ok_def)

text \<open>A new object under a new pid.\<close>

lemma add_new_process:
  assumes "pc_ok pm h" "alloc po h = (a, h')"
  shows "pc_ok (pm\<lparr>pc_dict := gm_set pid a (pc_dict pm)\<rparr>) h'"
    and "procs (pm\<lparr>pc_dict := gm_set pid a (pc_dict pm)\<rparr>) h' q =
      (if q = pid then Some po else procs pm h q)"
proof -
  have fresh: "gm_get (pc_dict pm) q \<noteq> Some a" for q
    using assms by (auto simp: pc_ok_def alloc_def)
  have "store_ok h'" using assms by (auto simp: pc_ok_def intro: store_ok_alloc)
  moreover have "next_addr h' = Suc (next_addr h)" "a = next_addr h"
    using assms(2) by (auto simp: alloc_def)
  moreover have "b < Suc (next_addr h)" if "gm_get (pc_dict pm) q = Some b" for q b
    using that assms(1) by (auto simp: pc_ok_def less_Suc_eq)
  ultimately show "pc_ok (pm\<lparr>pc_dict := gm_set pid a (pc_dict pm)\<rparr>) h'"
    using assms(1) fresh by (auto simp: pc_ok_def gomap_simps)
  show "procs (pm\<lparr>pc_dict := gm_set pid a (pc_dict pm)\<rparr>) h' q =
      (if q = pid then Some po else procs pm h q)"
    using assms(2) fresh by (auto simp: procs_def gomap_simps alloc_def split: option.split)
qed

text \<open>
  The first loop refines a merge on the abstract table, leaves the other fields alone and never
  moves a known process to another address.
\<close>

lemma add_pids_result:
  assumes "gm_ok ps" "pc_ok pm h" "add_pids ps (pm, h) = (pm1, h1)"
  shows "pc_ok pm1 h1"
    and "procs pm1 h1 pid =
      (case gm_get ps pid of None \<Rightarrow> procs pm h pid | Some po \<Rightarrow> Some (merge_scan (procs pm h pid) po))"
    and "gm_get (pc_dict pm) pid = Some a \<Longrightarrow> gm_get (pc_dict pm1) pid = Some a"
    and "gm_get (pc_dict pm1) pid \<noteq> None \<longleftrightarrow> gm_get (pc_dict pm) pid \<noteq> None \<or> gm_get ps pid \<noteq> None"
    and "pm1 = pm\<lparr>pc_dict := pc_dict pm1\<rparr>"
proof -
  have "pc_ok pm1 h1 \<and>
    (\<forall>pid. procs pm1 h1 pid =
      (case gm_get ps pid of None \<Rightarrow> procs pm h pid | Some po \<Rightarrow> Some (merge_scan (procs pm h pid) po))) \<and>
    (\<forall>pid a. gm_get (pc_dict pm) pid = Some a \<longrightarrow> gm_get (pc_dict pm1) pid = Some a) \<and>
    (\<forall>pid. gm_get (pc_dict pm1) pid \<noteq> None \<longleftrightarrow>
       gm_get (pc_dict pm) pid \<noteq> None \<or> gm_get ps pid \<noteq> None) \<and>
    pm1 = pm\<lparr>pc_dict := pc_dict pm1\<rparr>"
    using assms
  proof (induction ps arbitrary: pm h)
    case (Cons x ps)
    obtain q po where x: "x = (q, po)" by force
    have ok: "gm_ok ps" and new: "gm_get ps q = None"
      using Cons.prems(1) x by (auto simp: gm_ok_def gm_get_def map_of_eq_None_iff)
    show ?case
    proof (cases "gm_get (pc_dict pm) q")
      case (Some pp)
      let ?h = "heap_map pp (\<lambda>p. p\<lparr>inodes := inodes po\<rparr>) h"
      have step: "add_pids ps (pm, ?h) = (pm1, h1)" using Cons.prems(3) Some x by simp
      have "\<exists>p. procs pm h q = Some p"
        using pc_ok_cell [OF Cons.prems(2) Some] Some by (simp add: procs_def)
      then have "procs pm ?h pid = (if pid = q then Some (merge_scan (procs pm h q) po) else procs pm h pid)" for pid
        using procs_heap_map [OF Cons.prems(2) Some] by (auto simp: merge_scan_def)
      with Cons.IH [OF ok pc_ok_heap_map [OF Cons.prems(2)] step] show ?thesis
        using new Some by (auto simp: x gm_get_Cons split: option.splits)
    next
      case None
      obtain a h' where al: "alloc po h = (a, h')" by force
      let ?pm = "pm\<lparr>pc_dict := gm_set q a (pc_dict pm)\<rparr>"
      have step: "add_pids ps (?pm, h') = (pm1, h1)" using Cons.prems(3) None x al by simp
      have "procs pm h q = None" using None by (simp add: procs_def)
      with Cons.IH [OF ok add_new_process(1) [OF Cons.prems(2) al] step] show ?thesis
        using new None add_new_process(2) [OF Cons.prems(2) al, of q]
        by (auto simp: x gm_get_Cons gomap_simps merge_scan_def split: option.splits if_splits)
          (metis option.distinct(1))
    qed
  qed simp
  then show "pc_ok pm1 h1"
    and "procs pm1 h1 pid =
      (case gm_get ps pid of None \<Rightarrow> procs pm h pid | Some po \<Rightarrow> Some (merge_scan (procs pm h pid) po))"
    and "gm_get (pc_dict pm) pid = Some a \<Longrightarrow> gm_get (pc_dict pm1) pid = Some a"
    and "gm_get (pc_dict pm1) pid \<noteq> None \<longleftrightarrow> gm_get (pc_dict pm) pid \<noteq> None \<or> gm_get ps pid \<noteq> None"
    and "pm1 = pm\<lparr>pc_dict := pc_dict pm1\<rparr>"
    by blast+
qed

lemma get_del_pids:
  "gm_get (del_pids ps rest d) pid =
     (if pid \<in> set (gm_keys rest) \<and> gm_get ps pid = None then None else gm_get d pid)"
  by (induction ps rest d rule: del_pids.induct)
    (auto simp: gm_keys_def gomap_simps split: option.splits)

lemma gm_ok_del_pids: "gm_ok d \<Longrightarrow> gm_ok (del_pids ps rest d)"
  by (induction ps rest d rule: del_pids.induct) (auto simp: gm_ok_del split: option.split)

lemma get_set_inodes:
  "gm_get (foldl (\<lambda>m inode. gm_set inode pid m) m is) j =
     (if j \<in> set is then Some pid else gm_get m j)"
  by (induction "is" arbitrary: m) (auto simp: gomap_simps)

lemma gm_ok_inode_map: "gm_ok m \<Longrightarrow> gm_ok (inode_map ps m)"
proof (induction ps m rule: inode_map.induct)
  case (2 pid po ps m)
  have "gm_ok (foldl (\<lambda>m inode. gm_set inode pid m) m is)" for "is"
    using "2.prems" by (induction "is" rule: rev_induct) auto
  with 2 show ?case by simp
qed simp

text \<open>Who owns an inode, according to a scan.\<close>

definition owns :: "(string, process) gomap \<Rightarrow> string \<Rightarrow> string \<Rightarrow> bool" where
  "owns ps pid inode \<longleftrightarrow> (\<exists>po. (pid, po) \<in> set ps \<and> inode \<in> set (inodes po))"

lemma inode_map_owner:
  "(gm_get (inode_map ps m) j = Some pid \<longrightarrow> owns ps pid j \<or> gm_get m j = Some pid) \<and>
   (gm_get (inode_map ps m) j = None \<longleftrightarrow> (\<forall>p. \<not> owns ps p j) \<and> gm_get m j = None)"
proof (induction ps m rule: inode_map.induct)
  case (2 q po ps m)
  have owns: "owns ((q, po) # ps) p j \<longleftrightarrow> p = q \<and> j \<in> set (inodes po) \<or> owns ps p j" for p
    by (auto simp: owns_def)
  show ?case using 2 by (auto simp: owns get_set_inodes split: if_splits)
qed (simp add: owns_def)

text \<open>
  The result of a successful rescan on the abstract table: exactly the scanned pids, a known one
  with its history and the new inodes, a new one as scanned.
\<close>

lemma rescan_apply_result:
  assumes "gm_ok ps" "pc_ok pm h" "rescan_apply ps (pm, h) = (pm', h')"
  shows "pc_ok pm' h'"
    and "procs pm' h' pid = map_option (merge_scan (procs pm h pid)) (gm_get ps pid)"
    and "gm_get (pc_dict pm) pid = Some a \<Longrightarrow> gm_get ps pid \<noteq> None \<Longrightarrow> gm_get (pc_dict pm') pid = Some a"
    and "inodePidMap pm' = inode_map ps []"
    and "pc_revision pm' = wrap64 (pc_revision pm + 1)"
    and "sortedProcesses pm' = sortedProcesses pm \<and> filterPName pm' = filterPName pm"
    and "gm_get (pc_dict pm') pid \<noteq> None \<longleftrightarrow> gm_get ps pid \<noteq> None"
proof -
  let ?pm = "pm\<lparr>pc_revision := wrap64 (pc_revision pm + 1)\<rparr>"
  obtain pm1 h1 where add: "add_pids ps (?pm, h) = (pm1, h1)" by force
  have pm': "pm' = pm1\<lparr>pc_dict := del_pids ps (pc_dict pm1) (pc_dict pm1), inodePidMap := inode_map ps []\<rparr>"
    and h': "h' = h1"
    using assms(3) add by (auto simp: rescan_apply_def)
  have ok: "pc_ok ?pm h" using assms(2) by simp
  note res = add_pids_result [OF assms(1) ok add]
  have get': "gm_get (pc_dict pm') q =
      (if gm_get ps q = None then None else gm_get (pc_dict pm1) q)" for q
    by (auto simp: pm' get_del_pids gm_mem_keys)
  show "pc_ok pm' h'"
    using res(1) get' by (auto simp: pc_ok_def h' gm_ok_inode_map pm' gm_ok_del_pids split: if_splits)
  have "procs pm' h' q = (if gm_get ps q = None then None else procs pm1 h1 q)" for q
    by (simp add: procs_def get' h')
  with res(2) [of pid] show "procs pm' h' pid = map_option (merge_scan (procs pm h pid)) (gm_get ps pid)"
    by (auto split: option.split)
  show "gm_get (pc_dict pm') pid = Some a" if "gm_get (pc_dict pm) pid = Some a" "gm_get ps pid \<noteq> None"
    using res(3) [of pid a] that by (simp add: get')
  show "gm_get (pc_dict pm') pid \<noteq> None \<longleftrightarrow> gm_get ps pid \<noteq> None"
    using res(4) [of pid] by (auto simp: get')
  show "inodePidMap pm' = inode_map ps []" by (simp add: pm')
  show "pc_revision pm' = wrap64 (pc_revision pm + 1)"
    by (simp add: pm') (metis (no_types) processController.select_convs(2) processController.surjective
        processController.update_convs(1,2) res(5))
  show "sortedProcesses pm' = sortedProcesses pm \<and> filterPName pm' = filterPName pm"
    by (simp add: pm') (metis (no_types) processController.select_convs(4,5) processController.surjective
        processController.update_convs(1,2) res(5))
qed

section \<open>Lookups by inode\<close>

lemma GetProcessByInode_result:
  assumes "gm_ok ps" "pc_ok pm h" "rescan_apply ps (pm, h) = (pm', h')"
  shows "(GetProcessByInode pm' inode = None \<longleftrightarrow> (\<forall>pid. \<not> owns ps pid inode)) \<and>
    (\<forall>a. GetProcessByInode pm' inode = Some a \<longrightarrow>
      (\<exists>pid p. owns ps pid inode \<and> gm_get (pc_dict pm') pid = Some a \<and> cells h' a = Some p \<and>
        inode \<in> set (inodes p)))"
proof -
  note res = rescan_apply_result [OF assms]
  have im: "inodePidMap pm' = inode_map ps []" by (rule res(4))
  have known: "\<exists>a. gm_get (pc_dict pm') pid = Some a" if "owns ps pid inode" for pid
    using that res(7) [of pid] assms(1) by (auto simp: owns_def gm_get_in_set)
  have cell: "\<exists>p. cells h' a = Some p \<and> inode \<in> set (inodes p)"
    if own: "owns ps pid inode" "gm_get (pc_dict pm') pid = Some a" for pid a
  proof -
    obtain po where "gm_get ps pid = Some po" "inode \<in> set (inodes po)"
      using own(1) assms(1) by (auto simp: owns_def gm_get_in_set)
    with res(2) [of pid] own(2) show ?thesis
      by (auto simp: procs_def merge_scan_def split: option.splits)
  qed
  show ?thesis
  proof (cases "gm_get (inode_map ps []) inode")
    case None
    then show ?thesis
      using inode_map_owner [of ps "[]" inode] by (auto simp: GetProcessByInode_def im)
  next
    case (Some pid)
    then have own: "owns ps pid inode" using inode_map_owner [of ps "[]" inode pid] by simp
    with known [OF own] cell [OF own] Some show ?thesis
      by (auto simp: GetProcessByInode_def im)
  qed
qed

section \<open>The ranking\<close>

definition range_order :: "('a list \<Rightarrow> 'a list) \<Rightarrow> bool" where
  "range_order ord \<longleftrightarrow> (\<forall>xs. mset (ord xs) = mset xs)"

lemma range_order_set: "range_order ord \<Longrightarrow> set (ord xs) = set xs"
  by (metis range_order_def set_mset_mset)

lemma gm_get_range_order:
  assumes "range_order ord" "gm_ok m"
  shows "gm_ok (ord m)" and "gm_get (ord m) k = gm_get m k"
proof -
  have "mset (map fst (ord m)) = mset (map fst m)"
    using assms(1) by (simp add: range_order_def)
  then show ok: "gm_ok (ord m)"
    using assms(2) unfolding gm_ok_def by (metis mset_eq_imp_distinct_iff)
  have "(k, v) \<in> set (ord m) \<longleftrightarrow> (k, v) \<in> set m" for v
    by (simp add: range_order_set [OF assms(1)])
  then show "gm_get (ord m) k = gm_get m k"
    using assms(2) ok by (metis gm_get_in_set not_Some_eq)
qed

definition dict_addrs :: "processController \<Rightarrow> addr list" where
  "dict_addrs pm = map snd (pc_dict pm)"

lemma dict_addrs_iff: "pc_ok pm h \<Longrightarrow> a \<in> set (dict_addrs pm) \<longleftrightarrow> (\<exists>pid. gm_get (pc_dict pm) pid = Some a)"
  by (force simp: dict_addrs_def pc_ok_def gm_get_in_set [symmetric])

lemma distinct_dict_addrs:
  assumes "pc_ok pm h"
  shows "distinct (dict_addrs pm)"
proof -
  have "inj_on snd (set (pc_dict pm))"
    using assms by (auto simp: inj_on_def pc_ok_def gm_get_in_set)
  moreover have "distinct (pc_dict pm)"
    using assms by (auto simp: pc_ok_def gm_ok_def distinct_map)
  ultimately show ?thesis by (simp add: dict_addrs_def distinct_map)
qed

text \<open>Running one function per pid over a table without shared objects.\<close>

lemma cells_foldl_heap_map:
  assumes "distinct (map snd d)" "distinct (map fst d)"
  shows "cells (foldl (\<lambda>h (pid, po). heap_map po (f pid) h) h d) a =
    (case find (\<lambda>x. snd x = a) d of None \<Rightarrow> cells h a | Some (pid, _) \<Rightarrow> map_option (f pid) (cells h a))"
  using assms
proof (induction d arbitrary: h)
  case (Cons x d)
  obtain pid po where x: "x = (pid, po)" by force
  have none: "find (\<lambda>x. snd x = po) d = None"
    using Cons.prems(1) x by (force simp: find_None_iff)
  show ?case
    using Cons none by (auto simp: x split: option.split)
qed simp

lemma analyse_all_cells:
  assumes "pc_ok pm h" "range_order ord" "gm_get (pc_dict pm) pid = Some a"
  shows "cells (analyse_all clk sec (ord (pc_dict pm)) h) a =
    map_option (analyseStats (clk pid) sec) (cells h a)"
proof -
  let ?d = "ord (pc_dict pm)"
  have ok: "gm_ok ?d" "gm_get ?d pid = Some a"
    using gm_get_range_order [OF assms(2), of "pc_dict pm"] assms(1,3) by (auto simp: pc_ok_def)
  have "mset (map snd ?d) = mset (dict_addrs pm)"
    using assms(2) by (simp add: range_order_def dict_addrs_def)
  then have dist: "distinct (map snd ?d)"
    using distinct_dict_addrs [OF assms(1)] by (metis mset_eq_imp_distinct_iff)
  have mem: "(pid, a) \<in> set ?d" using ok by (simp add: gm_get_in_set)
  have "find (\<lambda>x. snd x = a) ?d = Some (pid, a)"
  proof (cases "find (\<lambda>x. snd x = a) ?d")
    case None
    with mem show ?thesis by (auto simp: find_None_iff)
  next
    case (Some y)
    then have "y \<in> set ?d" "snd y = a" by (auto simp: find_Some_iff)
    then have "y = (pid, a)" using dist mem by (auto simp: distinct_map inj_on_def)
    with Some show ?thesis by simp
  qed
  then show ?thesis
    using cells_foldl_heap_map [OF dist, of "\<lambda>pid. analyseStats (clk pid) sec" h a] ok(1)
    by (simp add: analyse_all_def gm_ok_def)
qed

definition all_stats :: "processController \<Rightarrow> store \<Rightarrow> bool" where
  "all_stats pm h \<longleftrightarrow> (\<forall>pid p. procs pm h pid = Some p \<longrightarrow> TrafficStats p \<noteq> None)"

lemma stats_analyseStats: "TrafficStats p \<noteq> None \<Longrightarrow> TrafficStats (analyseStats now sec p) \<noteq> None"
  by (simp add: analyseStats_def Let_def split: prod.split)

lemma next_analyse_all [simp]: "next_addr (analyse_all clk sec d h) = next_addr h"
  by (simp add: analyse_all_def) (induction d arbitrary: h, auto)

lemma store_ok_analyse_all: "store_ok h \<Longrightarrow> store_ok (analyse_all clk sec d h)"
  by (simp add: analyse_all_def) (induction d arbitrary: h, auto)

lemma pc_ok_analyse_all [intro]: "pc_ok pm h \<Longrightarrow> pc_ok pm (analyse_all clk sec d h)"
  by (auto simp: pc_ok_def store_ok_analyse_all)

lemma procs_analyse_all:
  assumes "pc_ok pm h" "range_order ord"
  shows "procs pm (analyse_all clk sec (ord (pc_dict pm)) h) pid =
    map_option (analyseStats (clk pid) sec) (procs pm h pid)"
  using analyse_all_cells [OF assms] by (auto simp: procs_def split: option.split)

lemma all_stats_has_stats:
  "pc_ok pm h \<Longrightarrow> all_stats pm h \<Longrightarrow> a \<in> set (dict_addrs pm) \<Longrightarrow> has_stats h a"
proof -
  assume ok: "pc_ok pm h" and stats: "all_stats pm h" and "a \<in> set (dict_addrs pm)"
  then obtain pid where pid: "gm_get (pc_dict pm) pid = Some a" by (auto simp: dict_addrs_iff)
  then obtain p where "cells h a = Some p" using pc_ok_cell [OF ok] by blast
  moreover from this pid have "procs pm h pid = Some p" by (simp add: procs_def)
  then have "TrafficStats p \<noteq> None" using stats unfolding all_stats_def by blast
  ultimately show "has_stats h a" by (simp add: has_stats_def)
qed

lemma all_stats_analyse_all:
  "pc_ok pm h \<Longrightarrow> range_order ord \<Longrightarrow> all_stats pm h \<Longrightarrow>
     all_stats pm (analyse_all clk sec (ord (pc_dict pm)) h)"
  using stats_analyseStats by (fastforce simp: all_stats_def procs_analyse_all)

text \<open>\<open>Sort\<close>: the ranking becomes the table's addresses, largest total first.\<close>

lemma Sort_result:
  assumes "pc_ok pm h" "all_stats pm h" "range_order ord"
  shows "\<exists>pm' h'. Sort ord clk sec (pm, h) = Ret (pm', h') \<and>
    pm' = pm\<lparr>sortedProcesses := sortedProcesses pm'\<rparr> \<and> pc_ok pm' h' \<and> all_stats pm' h' \<and>
    h' = analyse_all clk sec (ord (pc_dict pm)) h \<and>
    mset (sortedProcesses pm') = mset (dict_addrs pm) \<and>
    sorted_wrt (\<lambda>a b. rank_value h' b \<le> rank_value h' a) (sortedProcesses pm')"
proof -
  let ?d = "ord (pc_dict pm)" and ?h = "analyse_all clk sec (ord (pc_dict pm)) h"
  let ?pos = "sort_key (\<lambda>a. - rank_value ?h a) (map snd ?d)"
  have set: "set (map snd ?d) = set (dict_addrs pm)"
    using range_order_set [OF assms(3), of "pc_dict pm"] by (simp add: dict_addrs_def)
  have stats: "all_stats pm ?h" using all_stats_analyse_all assms by blast
  then have "has_stats ?h a" if "a \<in> set (map snd ?d)" for a
    using that all_stats_has_stats [of pm ?h a] assms(1) set by auto
  then have "list_all (has_stats ?h) (map snd ?d)" by (simp add: list_all_iff)
  then have "sort_Sort ?h (map snd ?d) = Ret ?pos" by (simp add: sort_Sort_def)
  then have res: "Sort ord clk sec (pm, h) = Ret (pm\<lparr>sortedProcesses := ?pos\<rparr>, ?h)"
    by (simp add: Sort_def Let_def)
  have "sorted (map (\<lambda>a. - rank_value ?h a) ?pos)" by simp
  then have "sorted_wrt (\<lambda>a b. rank_value ?h b \<le> rank_value ?h a) ?pos"
    by (simp add: sorted_map)
  moreover have "mset ?pos = mset (dict_addrs pm)"
    using assms(3) by (simp add: range_order_def dict_addrs_def)
  moreover have "all_stats (pm\<lparr>sortedProcesses := ?pos\<rparr>) ?h"
    using stats by (simp add: all_stats_def)
  ultimately show ?thesis using res assms(1) by auto
qed

lemma copy_all_Ret:
  "\<forall>a\<in>set as. has_stats h a \<Longrightarrow> \<exists>cs. copy_all h as = Ret cs \<and> length cs = length as"
proof (induction "as")
  case (Cons a as)
  then obtain cs where "copy_all h as = Ret cs" "length cs = length as" by auto
  with Cons.prems show ?case
    by (auto simp: has_stats_def copy_process_def split: option.splits)
qed simp

lemma GetRank_result:
  assumes "\<forall>a\<in>set (sortedProcesses pm). has_stats h a" "0 \<le> limit"
  shows "GetRank limit pm h = Ret (take (nat limit) (sortedProcesses pm))"
proof -
  let ?src = "take (nat limit) (sortedProcesses pm)"
  have "(if limit < int (length (sortedProcesses pm)) then go_slice (sortedProcesses pm) 0 limit
      else Ret (sortedProcesses pm)) = Ret ?src"
    using assms(2) by (auto simp: go_slice_def)
  moreover obtain cs where "copy_all h ?src = Ret cs"
    using copy_all_Ret [of ?src h] assms(1) by (meson in_set_takeD)
  ultimately show ?thesis by (simp add: GetRank_def Let_def)
qed

lemma sorted_wrt_take_drop:
  "sorted_wrt R xs \<Longrightarrow> a \<in> set (take n xs) \<Longrightarrow> b \<in> set (drop n xs) \<Longrightarrow> R a b"
  by (metis append_take_drop_id sorted_wrt_append)

text \<open>What a call of \<open>GetProcessRank\<close> guarantees.\<close>

definition top_ranked :: "store \<Rightarrow> addr list \<Rightarrow> int \<Rightarrow> addr list \<Rightarrow> bool" where
  "top_ranked h all limit prank \<longleftrightarrow>
     distinct prank \<and> set prank \<subseteq> set all \<and> length prank = min (nat limit) (length all) \<and>
     sorted_wrt (\<lambda>a b. rank_value h b \<le> rank_value h a) prank \<and>
     (\<forall>a b. a \<in> set prank \<and> b \<in> set all - set prank \<longrightarrow> rank_value h b \<le> rank_value h a)"

lemma GetProcessRank_result:
  assumes "pc_ok pm h" "all_stats pm h" "range_order ord" "0 \<le> limit" "sec \<le> int maxRingSize"
  shows "\<exists>prank pm' h'. GetProcessRank ord clk limit sec (pm, h) = Ret (Inr prank, pm', h') \<and>
    pm' = pm\<lparr>sortedProcesses := sortedProcesses pm'\<rparr> \<and> pc_ok pm' h' \<and> all_stats pm' h' \<and>
    (\<forall>pid. procs pm' h' pid = map_option (analyseStats (clk pid) sec) (procs pm h pid)) \<and>
    top_ranked h' (dict_addrs pm) limit prank"
proof -
  obtain pm' h' where sort: "Sort ord clk sec (pm, h) = Ret (pm', h')"
    and pm': "pm' = pm\<lparr>sortedProcesses := sortedProcesses pm'\<rparr>" and ok: "pc_ok pm' h'" "all_stats pm' h'"
    and h': "h' = analyse_all clk sec (ord (pc_dict pm)) h"
    and ms: "mset (sortedProcesses pm') = mset (dict_addrs pm)"
    and sorted: "sorted_wrt (\<lambda>a b. rank_value h' b \<le> rank_value h' a) (sortedProcesses pm')"
    using Sort_result [OF assms(1-3), of clk sec] by blast
  let ?s = "sortedProcesses pm'" and ?p = "take (nat limit) (sortedProcesses pm')"
  have dict: "pc_dict pm' = pc_dict pm" using pm' by (metis processController.select_convs(1)
        processController.surjective processController.update_convs(4))
  have set: "set ?s = set (dict_addrs pm)" using ms by (rule mset_eq_setD)
  have len: "length ?s = length (dict_addrs pm)" using ms by (rule mset_eq_length)
  have dist: "distinct ?s" using distinct_dict_addrs [OF assms(1)] ms
    by (metis mset_eq_imp_distinct_iff)
  have "\<forall>a\<in>set ?s. has_stats h' a"
    using all_stats_has_stats [OF ok] set by (simp add: dict_addrs_def dict)
  then have rank: "GetRank limit pm' h' = Ret ?p" using assms(4) by (rule GetRank_result)
  have out: "b \<in> set (drop (nat limit) ?s)" if "b \<in> set (dict_addrs pm)" "b \<notin> set ?p" for b
    using that set by (metis Un_iff append_take_drop_id set_append)
  have "top_ranked h' (dict_addrs pm) limit ?p"
    unfolding top_ranked_def
    using dist set len sorted out sorted_wrt_take_drop [OF sorted]
    by (auto simp: sorted_wrt_take min.commute dest: in_set_takeD)
  moreover have "procs pm' h' pid = map_option (analyseStats (clk pid) sec) (procs pm h pid)" for pid
    using procs_analyse_all [OF assms(1,3)] by (simp add: procs_def dict h')
  moreover have "GetProcessRank ord clk limit sec (pm, h) = Ret (Inr ?p, pm', h')"
    using assms(5) sort rank by (simp add: GetProcessRank_def)
  ultimately show ?thesis using pm' ok by blast
qed

section \<open>Properties of every process in the table\<close>

definition all_procs :: "(process \<Rightarrow> bool) \<Rightarrow> processController \<Rightarrow> store \<Rightarrow> bool" where
  "all_procs P pm h \<longleftrightarrow> (\<forall>pid p. procs pm h pid = Some p \<longrightarrow> P p)"

lemma all_procsD: "all_procs P pm h \<Longrightarrow> procs pm h pid = Some p \<Longrightarrow> P p"
  by (simp add: all_procs_def)

lemma all_procs_mono: "all_procs P pm h \<Longrightarrow> (\<And>p. P p \<Longrightarrow> Q p) \<Longrightarrow> all_procs Q pm h"
  by (auto simp: all_procs_def)

lemma all_stats_procs: "all_stats pm h = all_procs (\<lambda>p. TrafficStats p \<noteq> None) pm h"
  by (simp add: all_stats_def all_procs_def)

text \<open>What any rescan does to a process: it keeps its history, starts it without one, or removes it.\<close>

definition rescan_change :: "process option \<Rightarrow> process option \<Rightarrow> bool" where
  "rescan_change old new \<longleftrightarrow>
     (case (old, new) of
        (_, None) \<Rightarrow> True
      | (None, Some q) \<Rightarrow> TrafficStats q \<noteq> None \<and> Ring q = []
      | (Some p, Some q) \<Rightarrow> \<exists>is. q = p\<lparr>inodes := is\<rparr>)"

lemma rescan_change_refl [simp]: "rescan_change x x \<longleftrightarrow> True"
proof -
  have "p = p\<lparr>inodes := inodes p\<rparr>" for p :: process by simp
  then have "\<exists>is. p = p\<lparr>inodes := is\<rparr>" for p :: process by blast
  then show ?thesis by (auto simp: rescan_change_def split: option.split)
qed

lemma Rescan_change:
  assumes "Rescan ord fs (pm, h) = Ret (err, pm', h')" "range_order ord" "pc_ok pm h"
  shows "pc_ok pm' h' \<and> (\<forall>pid. rescan_change (procs pm h pid) (procs pm' h' pid)) \<and>
    filterPName pm' = filterPName pm"
proof -
  consider "pm' = pm" "h' = h"
    | ps where "GetProcesses fs (filterPName pm) = Ret (Inr ps)" "rescan_apply (ord ps) (pm, h) = (pm', h')"
  proof -
    obtain r where "GetProcesses fs (filterPName pm) = Ret r"
      using assms(1) by (auto simp: Rescan_def go_simps)
    with assms(1) that show thesis by (cases r) (auto simp: Rescan_def)
  qed
  then show ?thesis
  proof cases
    case 2
    have fresh: "fresh_scan ps" by (rule fresh_scan_GetProcesses [OF 2(1)])
    then have ok: "gm_ok (ord ps)" and get: "\<And>pid. gm_get (ord ps) pid = gm_get ps pid"
      using gm_get_range_order [OF assms(2), of ps] by (simp_all add: fresh_scan_def)
    note res = rescan_apply_result [OF ok assms(3) 2(2)]
    have "rescan_change old (Some (merge_scan old po))" if "gm_get ps pid = Some po" for pid po old
      using that fresh by (auto simp: merge_scan_def rescan_change_def fresh_scan_def split: option.split)
    then have "rescan_change (procs pm h pid) (procs pm' h' pid)" for pid
      by (cases "gm_get ps pid") (simp_all add: res(2) get rescan_change_def split: option.split)
    then show ?thesis using res(1,6) by simp
  qed (use assms in simp)
qed

lemma all_procs_change:
  assumes "\<forall>pid. rescan_change (procs pm h pid) (procs pm' h' pid)" "all_procs P pm h"
    and "\<And>p is. P p \<Longrightarrow> P (p\<lparr>inodes := is\<rparr>)" "\<And>p. TrafficStats p \<noteq> None \<Longrightarrow> Ring p = [] \<Longrightarrow> P p"
  shows "all_procs P pm' h'"
  unfolding all_procs_def
proof (intro allI impI)
  fix pid q
  assume "procs pm' h' pid = Some q"
  then show "P q"
    using assms(1) [rule_format, of pid] assms(2-4)
    by (auto simp: rescan_change_def all_procs_def split: option.splits)
qed

end
