(* ===== verification/Netflow.thy ===== *)
theory Netflow
  imports Complex_Main Netstat ProcControl GoChan
begin

text \<open>
  The state of the sniffer (\<open>Netflow\<close> of \<open>netflow.go\<close>), its options, \<open>New\<close>, \<open>Start\<close> and \<open>Stop\<close>.
  The context is the flag \<open>nf_done\<close>; a \<open>float64\<close> option is its value; a logger is its name. What
  comes from outside (the devices libpcap lists, the result of creating a file or a cgroup) is an
  argument. \<open>nf_workers\<close>, \<open>nf_syncer\<close> and \<open>nf_sniffing\<close> say which goroutines have been started.
\<close>

section \<open>Packets, as gopacket decodes them\<close>

record ipv4_layer =
  ip_SrcIP :: ipv4
  ip_DstIP :: ipv4
  ip_IHL :: "8 word"

record tcp_layer =
  tcp_SrcPort :: port
  tcp_DstPort :: port
  tcp_DataOffset :: "8 word"
  tcp_Payload :: "8 word list"

record packet =
  pkt_ipv4 :: "ipv4_layer option"
  pkt_tcp :: "tcp_layer option"

record delayEntry =
  de_timestamp :: time
  de_times :: int
  de_addr :: string
  de_length :: int
  de_side :: sideOption

section \<open>The state\<close>

text \<open>A value of \<open>LoggerInterface\<close>: the library's own, which prints, or one the caller brings.\<close>

datatype logger_interface = PrintLogger | CallerLogger nat

record netflow =
  nf_done :: bool
  connInodeHash :: mapping
  processHash :: processController
  heap :: store
  workerNum :: int
  qsize :: int
  delayQueue :: "delayEntry chan"
  packetQueue :: "packet option chan"   \<comment> \<open>\<open>None\<close> is a nil packet\<close>
  bindIPs :: "(string, unit) gomap"
  bindDevices :: "(string, unit) gomap"
  counter :: int
  captureTimeout :: duration
  syncInterval :: duration
  pcapFilter :: string
  pcapFileName :: string
  pcapFile :: "string option"           \<comment> \<open>the file being written, if one was created\<close>
  debugMode :: bool
  cpuCore :: rat
  memMB :: int
  exitFunc :: nat                       \<comment> \<open>how many cgroup clean-ups are registered\<close>
  nf_timer :: bool                      \<comment> \<open>whether the capture timer is set and running\<close>
  nf_workers :: int
  nf_syncer :: bool
  nf_sniffing :: "string list"          \<comment> \<open>devices with a capture goroutine\<close>
  nf_logger :: logger_interface

definition defaultQueueSize :: int where "defaultQueueSize = 2000000"
definition defaultWorkerNum :: int where "defaultWorkerNum = 1"
definition defaultSyncInterval :: duration where "defaultSyncInterval = 1 * second"
definition defaultCaptureTimeout :: duration where
  "defaultCaptureTimeout = 12 * 30 * 24 * 60 * 60 * second"

section \<open>Options\<close>

type_synonym optionFunc = "netflow \<Rightarrow> go_error + netflow"

definition WithPcapFilter :: "string \<Rightarrow> optionFunc" where
  "WithPcapFilter filt = (\<lambda>nf. if filt = '''' then Inr nf else Inr (nf\<lparr>pcapFilter := filt\<rparr>))"

definition WithOpenDebug :: optionFunc where
  "WithOpenDebug = (\<lambda>nf. Inr (nf\<lparr>debugMode := True\<rparr>))"

definition WithLimitCgroup :: "rat \<Rightarrow> int \<Rightarrow> optionFunc" where
  "WithLimitCgroup cpu mem = (\<lambda>nf. Inr (nf\<lparr>cpuCore := cpu, memMB := mem\<rparr>))"

definition WithLogger :: "logger_interface \<Rightarrow> optionFunc" where
  "WithLogger logger = (\<lambda>nf. Inr (nf\<lparr>nf_logger := logger\<rparr>))"

definition WithStorePcap :: "string \<Rightarrow> optionFunc" where
  "WithStorePcap fpath = (\<lambda>nf. Inr (nf\<lparr>pcapFileName := fpath\<rparr>))"

definition WithCaptureTimeout :: "duration \<Rightarrow> optionFunc" where
  "WithCaptureTimeout dur =
     (let dur = (if defaultCaptureTimeout < dur then defaultCaptureTimeout else dur)
      in (\<lambda>nf. Inr (nf\<lparr>captureTimeout := dur\<rparr>)))"

definition WithName :: "string \<Rightarrow> optionFunc" where
  "WithName pname =
     (\<lambda>nf. Inr (nf\<lparr>processHash := (processHash nf)\<lparr>filterPName := pname\<rparr>\<rparr>))"

definition WithSyncInterval :: "duration \<Rightarrow> optionFunc" where
  "WithSyncInterval dur =
     (\<lambda>nf. if dur \<le> 0 then Inl (ErrMsg ''invalid sync interval'') else Inr (nf\<lparr>syncInterval := dur\<rparr>))"

definition WithWorkerNum :: "int \<Rightarrow> optionFunc" where
  "WithWorkerNum num =
     (let num = (if num \<le> 0 then defaultWorkerNum else num) in (\<lambda>nf. Inr (nf\<lparr>workerNum := num\<rparr>)))"

text \<open>The new context is a child of the given one: done as soon as that one is.\<close>

definition WithCtx :: "bool \<Rightarrow> optionFunc" where
  "WithCtx ctx_done = (\<lambda>nf. Inr (nf\<lparr>nf_done := ctx_done\<rparr>))"

definition name_set :: "string list \<Rightarrow> (string, unit) gomap" where
  "name_set xs = foldl (\<lambda>mm x. gm_set x () mm) [] xs"

definition WithBindIPs :: "string list \<Rightarrow> optionFunc" where
  "WithBindIPs ips =
     (\<lambda>nf. if length ips = 0 then Inl (ErrMsg ''invalid ips'') else Inr (nf\<lparr>bindIPs := name_set ips\<rparr>))"

definition WithBindDevices :: "string list \<Rightarrow> optionFunc" where
  "WithBindDevices devs =
     (\<lambda>nf. if length devs = 0 then Inl (ErrMsg ''invalid devs'')
           else Inr (nf\<lparr>bindDevices := name_set devs\<rparr>))"

definition WithQueueSize :: "int \<Rightarrow> optionFunc" where
  "WithQueueSize sz =
     (let sz = (if sz < 1000 then defaultQueueSize else sz) in (\<lambda>nf. Inr (nf\<lparr>qsize := sz\<rparr>)))"

section \<open>Devices\<close>

text \<open>A device as libpcap lists it; of an address, its text and whether it is multicast.\<close>

record device =
  dev_Name :: string
  dev_Addresses :: "(string \<times> bool) list"

fun addr_loop :: "(string \<times> bool) list \<Rightarrow> (string, unit) gomap \<Rightarrow> (string, unit) gomap" where
  "addr_loop [] ips = ips"
| "addr_loop ((ip, multicast) # addrs) ips =
     (if multicast then addr_loop addrs ips else addr_loop addrs (gm_set ip () ips))"

fun device_loop ::
    "device list \<Rightarrow> (string, unit) gomap \<times> (string, unit) gomap \<Rightarrow>
     (string, unit) gomap \<times> (string, unit) gomap" where
  "device_loop [] (ips, names) = (ips, names)"
| "device_loop (dev # devs) (ips, names) =
     (let ips = addr_loop (dev_Addresses dev) ips; keep = gm_set (dev_Name dev) () names in
      device_loop devs (ips,
        if HasPrefix (dev_Name dev) ''eth'' then keep
        else if HasPrefix (dev_Name dev) ''em'' then keep
        else if HasPrefix (dev_Name dev) ''enp'' then keep
        else if HasPrefix (dev_Name dev) ''eno'' then keep
        else if HasPrefix (dev_Name dev) ''ppp'' then keep
        else if HasPrefix (dev_Name dev) ''lo'' then keep
        else if HasPrefix (dev_Name dev) ''bond'' then keep
        else names))"

text \<open>\<open>None\<close>: libpcap could not list its devices, and both maps are nil.\<close>

definition parseIpaddrsAndDevices ::
    "device list option \<Rightarrow> (string, unit) gomap \<times> (string, unit) gomap" where
  "parseIpaddrsAndDevices devs =
     (case devs of None \<Rightarrow> ([], []) | Some ds \<Rightarrow> device_loop ds ([], []))"

section \<open>Construction, start, stop\<close>

text \<open>The value before the options run; both queues are made here, with the default size.\<close>

definition new_base :: "device list option \<Rightarrow> netflow" where
  "new_base devices =
     (case parseIpaddrsAndDevices devices of (ips, devs) \<Rightarrow>
      \<lparr>nf_done = False, connInodeHash = NewMapping, processHash = NewProcessController,
       heap = empty_store, workerNum = defaultWorkerNum, qsize = defaultQueueSize,
       delayQueue = make_chan (nat defaultQueueSize), packetQueue = make_chan (nat defaultQueueSize),
       bindIPs = ips, bindDevices = devs, counter = 0, captureTimeout = defaultCaptureTimeout,
       syncInterval = defaultSyncInterval, pcapFilter = '''', pcapFileName = '''', pcapFile = None,
       debugMode = False, cpuCore = 0, memMB = 0, exitFunc = 0, nf_timer = False, nf_workers = 0,
       nf_syncer = False, nf_sniffing = [], nf_logger = PrintLogger\<rparr>)"

fun apply_options :: "optionFunc list \<Rightarrow> netflow \<Rightarrow> go_error + netflow" where
  "apply_options [] nf = Inr nf"
| "apply_options (opt # opts) nf =
     (case opt nf of Inl err \<Rightarrow> Inl err | Inr nf' \<Rightarrow> apply_options opts nf')"

definition New :: "device list option \<Rightarrow> optionFunc list \<Rightarrow> go_error + netflow" where
  "New devices opts = apply_options opts (new_base devices)"

definition incrCounter :: "netflow \<Rightarrow> netflow" where
  "incrCounter nf = nf\<lparr>counter := wrap64 (counter nf + 1)\<rparr>"

definition LoadCounter :: "netflow \<Rightarrow> int" where
  "LoadCounter nf = counter nf"

text \<open>\<open>create_err\<close> is the error \<open>os.Create\<close> returns, if any.\<close>

definition configurePersist :: "go_error option \<Rightarrow> netflow \<Rightarrow> go_error option \<times> netflow" where
  "configurePersist create_err nf =
     (if pcapFileName nf = '''' then (None, nf)
      else (case create_err of
              Some e \<Rightarrow> (Some e, nf)
            | None \<Rightarrow> (None, nf\<lparr>pcapFile := Some (pcapFileName nf)\<rparr>)))"

text \<open>The clean-up is registered whether or not the configuration succeeds.\<close>

definition configureCgroups :: "go_error option \<Rightarrow> netflow \<Rightarrow> go_error option \<times> netflow" where
  "configureCgroups cgroup_err nf =
     (if cpuCore nf = 0 \<and> memMB nf = 0 then (None, nf)
      else (cgroup_err, nf\<lparr>exitFunc := exitFunc nf + 1\<rparr>))"

definition startNetworkSniffer :: "netflow \<Rightarrow> netflow" where
  "startNetworkSniffer nf =
     nf\<lparr>nf_sniffing := gm_keys (bindDevices nf), nf_workers := workerNum nf, nf_timer := True\<rparr>"

definition Start :: "go_error option \<Rightarrow> go_error option \<Rightarrow> netflow \<Rightarrow> go_error option \<times> netflow" where
  "Start create_err cgroup_err nf =
     (case configurePersist create_err nf of
        (Some e, nf) \<Rightarrow> (Some e, nf)
      | (None, nf) \<Rightarrow>
          (case configureCgroups cgroup_err nf of
             (Some e, nf) \<Rightarrow> (Some e, nf)
           | (None, nf) \<Rightarrow> (None, startNetworkSniffer (nf\<lparr>nf_syncer := True\<rparr>))))"

text \<open>\<open>finalize\<close> stops the timer and runs the clean-ups (effects on the cgroup only).\<close>

definition finalize :: "netflow \<Rightarrow> netflow" where
  "finalize nf = nf\<lparr>nf_timer := False\<rparr>"

definition Stop :: "netflow \<Rightarrow> netflow" where
  "Stop nf = finalize (nf\<lparr>nf_done := True\<rparr>)"

section \<open>What a constructed value is like\<close>

text \<open>The options of the library, with any arguments.\<close>

inductive library_option :: "optionFunc \<Rightarrow> bool" where
  filter: "library_option (WithPcapFilter filt)"
| debug: "library_option WithOpenDebug"
| cgroup: "library_option (WithLimitCgroup cpu mem)"
| logger: "library_option (WithLogger logger)"
| store: "library_option (WithStorePcap fpath)"
| timeout: "library_option (WithCaptureTimeout dur)"
| name: "library_option (WithName pname)"
| interval: "library_option (WithSyncInterval dur)"
| workers: "library_option (WithWorkerNum num)"
| ctx: "library_option (WithCtx ctx_done)"
| ips: "library_option (WithBindIPs ips)"
| devs: "library_option (WithBindDevices devs)"
| queue: "library_option (WithQueueSize sz)"

lemmas option_defs = WithPcapFilter_def WithOpenDebug_def WithLimitCgroup_def WithLogger_def WithStorePcap_def
  WithCaptureTimeout_def WithName_def WithSyncInterval_def WithWorkerNum_def WithCtx_def
  WithBindIPs_def WithBindDevices_def WithQueueSize_def

text \<open>Nothing has been captured or scanned yet, and the queues have the default capacity.\<close>

definition pristine :: "netflow \<Rightarrow> bool" where
  "pristine nf \<longleftrightarrow>
     connInodeHash nf = NewMapping \<and>
     pc_dict (processHash nf) = [] \<and> inodePidMap (processHash nf) = [] \<and>
     sortedProcesses (processHash nf) = [] \<and> pc_revision (processHash nf) = 0 \<and>
     heap nf = empty_store \<and> counter nf = 0 \<and>
     delayQueue nf = make_chan (nat defaultQueueSize) \<and>
     packetQueue nf = make_chan (nat defaultQueueSize)"

text \<open>The settings the goroutines rely on: \<open>time.NewTicker\<close> panics on an interval that is not positive.\<close>

definition settings_ok :: "netflow \<Rightarrow> bool" where
  "settings_ok nf \<longleftrightarrow>
     0 < syncInterval nf \<and> 1 \<le> workerNum nf \<and> 1000 \<le> qsize nf \<and>
     captureTimeout nf \<le> defaultCaptureTimeout"

lemma pristine_base: "pristine (new_base devices)"
  by (simp add: pristine_def new_base_def NewProcessController_def split: prod.split)

lemma settings_ok_base: "settings_ok (new_base devices)"
  by (simp add: settings_ok_def new_base_def defaultSyncInterval_def defaultWorkerNum_def
      defaultQueueSize_def split: prod.split)

lemma library_option_pristine:
  "library_option opt \<Longrightarrow> opt nf = Inr nf' \<Longrightarrow> pristine nf \<Longrightarrow> pristine nf'"
  by (induction opt rule: library_option.induct)
    (auto simp: option_defs pristine_def NewProcessController_def Let_def split: if_splits)

lemma library_option_settings:
  "library_option opt \<Longrightarrow> opt nf = Inr nf' \<Longrightarrow> settings_ok nf \<Longrightarrow> settings_ok nf'"
  by (induction opt rule: library_option.induct)
    (auto simp: option_defs settings_ok_def Let_def defaultWorkerNum_def defaultQueueSize_def split: if_splits)

lemma apply_options_inv:
  assumes "\<And>opt nf nf'. library_option opt \<Longrightarrow> opt nf = Inr nf' \<Longrightarrow> P nf \<Longrightarrow> P nf'"
  shows "list_all library_option opts \<Longrightarrow> apply_options opts nf = Inr nf' \<Longrightarrow> P nf \<Longrightarrow> P nf'"
proof (induction opts arbitrary: nf)
  case (Cons opt opts)
  then show ?case using assms by (cases "opt nf") auto
qed simp

lemma New_pristine: "New devices opts = Inr nf \<Longrightarrow> list_all library_option opts \<Longrightarrow> pristine nf"
  using apply_options_inv [of pristine] library_option_pristine pristine_base
  unfolding New_def by blast

lemma New_settings: "New devices opts = Inr nf \<Longrightarrow> list_all library_option opts \<Longrightarrow> settings_ok nf"
  using apply_options_inv [of settings_ok] library_option_settings settings_ok_base
  unfolding New_def by blast

lemma Start_pristine: "pristine nf \<Longrightarrow> Start e1 e2 nf = (None, nf') \<Longrightarrow> pristine nf'"
  by (auto simp: Start_def configurePersist_def configureCgroups_def startNetworkSniffer_def
      pristine_def split: if_splits option.splits prod.splits)

section \<open>What the devices decide\<close>

definition device_prefixes :: "string list" where
  "device_prefixes = [''eth'', ''em'', ''enp'', ''eno'', ''ppp'', ''lo'', ''bond'']"

lemma get_addr_loop:
  "gm_get (addr_loop addrs ips) ip \<noteq> None \<longleftrightarrow> (ip, False) \<in> set addrs \<or> gm_get ips ip \<noteq> None"
  by (induction addrs ips rule: addr_loop.induct) (auto simp: gomap_simps)

lemma device_loop_Cons:
  "device_loop (dev # devs) (ips, names) =
     device_loop devs (addr_loop (dev_Addresses dev) ips,
       if \<exists>p\<in>set device_prefixes. HasPrefix (dev_Name dev) p then gm_set (dev_Name dev) () names else names)"
  by (simp add: device_prefixes_def Let_def)

lemma get_device_loop:
  "(gm_get (fst (device_loop devs (ips, names))) ip \<noteq> None \<longleftrightarrow>
      (\<exists>dev\<in>set devs. (ip, False) \<in> set (dev_Addresses dev)) \<or> gm_get ips ip \<noteq> None) \<and>
   (gm_get (snd (device_loop devs (ips, names))) n \<noteq> None \<longleftrightarrow>
      (\<exists>dev\<in>set devs. dev_Name dev = n \<and> (\<exists>p\<in>set device_prefixes. HasPrefix n p)) \<or> gm_get names n \<noteq> None)"
proof (induction devs arbitrary: ips names)
  case (Cons dev devs)
  define ips' where "ips' = addr_loop (dev_Addresses dev) ips"
  define keep where "keep \<longleftrightarrow> (\<exists>p\<in>set device_prefixes. HasPrefix (dev_Name dev) p)"
  define names' where "names' = (if keep then gm_set (dev_Name dev) () names else names)"
  have step: "device_loop (dev # devs) (ips, names) = device_loop devs (ips', names')"
    unfolding device_loop_Cons ips'_def names'_def keep_def by (rule refl)
  have "gm_get ips' ip \<noteq> None \<longleftrightarrow> (ip, False) \<in> set (dev_Addresses dev) \<or> gm_get ips ip \<noteq> None"
    unfolding ips'_def by (rule get_addr_loop)
  moreover have "gm_get names' n \<noteq> None \<longleftrightarrow> keep \<and> dev_Name dev = n \<or> gm_get names n \<noteq> None"
    by (auto simp: names'_def gomap_simps)
  ultimately show ?case
    unfolding step using Cons.IH [of ips' names'] keep_def by auto
qed simp

end
