(* ===== verification/Engine.thy ===== *)
theory Engine
  imports Netflow
begin

text \<open>
  The packet path of \<open>netflow.go\<close>: capture channels, \<open>enqueue\<close> and \<open>dequeue\<close>, the workers,
  \<open>handlePacket\<close>, the attribution of a packet to a process, and the delay queue for packets that
  could not be attributed. A clock reading is an argument. Where a \<open>select\<close> has two ready cases the
  argument \<open>sel\<close> makes Go's choice. Log messages are left out.
\<close>

section \<open>Attribution\<close>

definition isBindIPs :: "netflow \<Rightarrow> string \<Rightarrow> bool" where
  "isBindIPs nf ipa = (gm_get (bindIPs nf) ipa \<noteq> None)"

definition determineSide :: "netflow \<Rightarrow> string \<Rightarrow> sideOption" where
  "determineSide nf srcIP = (if isBindIPs nf srcIP then outputSide else inputSide)"

definition getProcessByAddr :: "netflow \<Rightarrow> string \<Rightarrow> go_error + addr" where
  "getProcessByAddr nf ad =
     (let inode = fst (Get (connInodeHash nf) ad) in
      if length inode = 0 then Inl ErrNotFound
      else (case GetProcessByInode (processHash nf) inode of
              None \<Rightarrow> Inl ErrNotFound
            | Some proc \<Rightarrow> Inr proc))"

text \<open>\<open>increaseProcessTraffic\<close> on the process a pointer names.\<close>

definition credit :: "time \<Rightarrow> addr \<Rightarrow> int \<Rightarrow> sideOption \<Rightarrow> netflow \<Rightarrow> netflow" where
  "credit now proc len side nf =
     nf\<lparr>heap := heap_map proc (\<lambda>p. increaseProcessTraffic now p len side) (heap nf)\<rparr>"

section \<open>The delay queue\<close>

definition pushDelayQueue :: "delayEntry \<Rightarrow> netflow \<Rightarrow> netflow" where
  "pushDelayQueue de nf =
     (if chan_room (delayQueue nf) then nf\<lparr>delayQueue := chan_send de (delayQueue nf)\<rparr> else nf)"

definition consumeDelayQueue :: "bool \<Rightarrow> netflow \<Rightarrow> delayEntry option \<times> netflow" where
  "consumeDelayQueue sel nf =
     (if nf_done nf \<and> sel then (None, nf)
      else (case chan_recv (delayQueue nf) of
              Some (den, q) \<Rightarrow> (Some den, nf\<lparr>delayQueue := q\<rparr>)
            | None \<Rightarrow> (None, nf)))"

definition handleDelayEntry :: "time \<Rightarrow> delayEntry \<Rightarrow> netflow \<Rightarrow> go_error option \<times> netflow" where
  "handleDelayEntry now entry nf =
     (case getProcessByAddr nf (de_addr entry) of
        Inl err \<Rightarrow> (Some err, nf)
      | Inr proc \<Rightarrow> (None, credit now proc (de_length entry) (de_side entry) nf))"

definition increaseTraffic ::
    "time \<Rightarrow> string \<Rightarrow> int \<Rightarrow> sideOption \<Rightarrow> netflow \<Rightarrow> go_error option \<times> netflow" where
  "increaseTraffic now ad len side nf =
     (case getProcessByAddr nf ad of
        Inl err \<Rightarrow>
          (let den = \<lparr>de_timestamp = now, de_times = 0, de_addr = ad, de_length = len, de_side = side\<rparr>
           in (Some err, pushDelayQueue den nf))
      | Inr proc \<Rightarrow> (None, credit now proc len side nf))"

section \<open>One packet\<close>

definition handlePacket :: "time \<Rightarrow> packet \<Rightarrow> netflow \<Rightarrow> netflow" where
  "handlePacket now packet nf =
     (case pkt_ipv4 packet of None \<Rightarrow> nf | Some ipLayer \<Rightarrow>
      (case pkt_tcp packet of None \<Rightarrow> nf | Some tcpLayer \<Rightarrow>
       let localIP = ip_SrcIP ipLayer; localPort = tcp_SrcPort tcpLayer;
           remoteIP = ip_DstIP ipLayer; remotePort = tcp_DstPort tcpLayer;
           side = determineSide nf (ip_string (ip_SrcIP ipLayer));
           payloadLength = int (length (tcp_Payload tcpLayer));
           ipHeaderLength = int (unat (ip_IHL ipLayer)) * 4;
           tcpHeaderLength = int (unat (tcp_DataOffset tcpLayer)) * 4;
           totalLength = wrap64 (ipHeaderLength + tcpHeaderLength + payloadLength);
           ad = spliceAddr localIP localPort remoteIP remotePort
       in snd (increaseTraffic now ad totalLength side nf)))"

text \<open>
  The older \<open>handlePacket1\<close> counts the payload only; its packet also goes to the capture file, if
  there is one (the second component says whether).
\<close>

definition handlePacket1 :: "time \<Rightarrow> packet \<Rightarrow> netflow \<Rightarrow> netflow \<times> bool" where
  "handlePacket1 now packet nf =
     (case pkt_ipv4 packet of None \<Rightarrow> (nf, False) | Some ipLayer \<Rightarrow>
      (case pkt_tcp packet of None \<Rightarrow> (nf, False) | Some tcpLayer \<Rightarrow>
       let side = (if isBindIPs nf (ip_string (ip_SrcIP ipLayer)) then outputSide else inputSide);
           len = int (length (tcp_Payload tcpLayer));
           ad = spliceAddr (ip_SrcIP ipLayer) (tcp_SrcPort tcpLayer)
                  (ip_DstIP ipLayer) (tcp_DstPort tcpLayer)
       in (snd (increaseTraffic now ad len side nf), pcapFile nf \<noteq> None)))"

section \<open>Queues and workers\<close>

text \<open>The inner \<open>select\<close> of \<open>captureDevice\<close>: a packet that finds the channel full is dropped.\<close>

definition capture :: "packet option \<Rightarrow> packet option chan \<Rightarrow> packet option chan" where
  "capture pkt packetChan = (if chan_room packetChan then chan_send pkt packetChan else packetChan)"

definition enqueue :: "packet option \<Rightarrow> netflow \<Rightarrow> netflow" where
  "enqueue pkt nf =
     (if chan_room (packetQueue nf)
      then incrCounter (nf\<lparr>packetQueue := chan_send pkt (packetQueue nf)\<rparr>)
      else nf)"

text \<open>\<open>None\<close>: neither case is ready and \<open>dequeue\<close> waits. A returned nil is \<open>Some (None, nf)\<close>.\<close>

definition dequeue :: "bool \<Rightarrow> netflow \<Rightarrow> (packet option \<times> netflow) option" where
  "dequeue sel nf =
     (if nf_done nf \<and> sel then Some (None, nf)
      else (case chan_recv (packetQueue nf) of
              Some (pkt, q) \<Rightarrow> Some (pkt, nf\<lparr>packetQueue := q\<rparr>)
            | None \<Rightarrow> if nf_done nf then Some (None, nf) else None))"

datatype worker_state = Running | Waiting | Returned

text \<open>
  The loop of a worker over a schedule: per turn the choice of \<open>select\<close> and the clock. \<open>Waiting\<close>: it
  blocks in \<open>dequeue\<close>; \<open>Returned\<close>: it has seen nil; \<open>Running\<close>: the schedule is used up.
\<close>

fun loopHandlePacket :: "(bool \<times> time) list \<Rightarrow> netflow \<Rightarrow> worker_state \<times> netflow" where
  "loopHandlePacket [] nf = (Running, nf)"
| "loopHandlePacket ((sel, now) # turns) nf =
     (case dequeue sel nf of
        None \<Rightarrow> (Waiting, nf)
      | Some (None, nf') \<Rightarrow> (Returned, nf')
      | Some (Some pkt, nf') \<Rightarrow> loopHandlePacket turns (handlePacket now pkt nf'))"

section \<open>Attribution as a function of the tables\<close>

text \<open>The process a key leads to, the key and the size of a packet.\<close>

definition owner_of :: "netflow \<Rightarrow> string \<Rightarrow> addr option" where
  "owner_of nf key =
     (case lookup (connInodeHash nf) key of
        None \<Rightarrow> None
      | Some inode \<Rightarrow> if inode = '''' then None else GetProcessByInode (processHash nf) inode)"

definition packet_key :: "ipv4_layer \<Rightarrow> tcp_layer \<Rightarrow> string" where
  "packet_key ip tcp = spliceAddr (ip_SrcIP ip) (tcp_SrcPort tcp) (ip_DstIP ip) (tcp_DstPort tcp)"

definition packet_size :: "ipv4_layer \<Rightarrow> tcp_layer \<Rightarrow> int" where
  "packet_size ip tcp =
     4 * int (unat (ip_IHL ip)) + 4 * int (unat (tcp_DataOffset tcp)) + int (length (tcp_Payload tcp))"

definition procs_of :: "netflow \<Rightarrow> string \<Rightarrow> process option" where
  "procs_of nf = procs (processHash nf) (heap nf)"

lemma getProcessByAddr_owner:
  "getProcessByAddr nf key = (case owner_of nf key of None \<Rightarrow> Inl ErrNotFound | Some a \<Rightarrow> Inr a)"
  by (simp add: getProcessByAddr_def owner_of_def Get_lookup Let_def split: option.split)

lemma owner_of_dict: "owner_of nf key = Some a \<Longrightarrow> \<exists>pid. gm_get (pc_dict (processHash nf)) pid = Some a"
  by (auto simp: owner_of_def GetProcessByInode_def split: option.splits if_splits)

lemma owner_of_cong:
  "connInodeHash nf' = connInodeHash nf \<Longrightarrow> processHash nf' = processHash nf \<Longrightarrow>
     owner_of nf' key = owner_of nf key"
  by (auto simp: owner_of_def split: option.split)

text \<open>What crediting changes: one process, by one recorded amount.\<close>

lemma procs_of_credit:
  assumes "pc_ok (processHash nf) (heap nf)" "gm_get (pc_dict (processHash nf)) pid = Some a"
  shows "procs_of (credit now a len side nf) q =
    (if q = pid then map_option (\<lambda>p. increaseProcessTraffic now p len side) (procs_of nf pid)
     else procs_of nf q)"
  using procs_heap_map [OF assms] by (simp add: procs_of_def credit_def)

lemma credit_frame [frame_simps]:
  "processHash (credit now a len side nf) = processHash nf"
  "connInodeHash (credit now a len side nf) = connInodeHash nf"
  "delayQueue (credit now a len side nf) = delayQueue nf"
  "packetQueue (credit now a len side nf) = packetQueue nf"
  "counter (credit now a len side nf) = counter nf"
  "bindIPs (credit now a len side nf) = bindIPs nf"
  "nf_done (credit now a len side nf) = nf_done nf"
  by (simp_all add: credit_def)

lemma pushDelayQueue_frame [frame_simps]:
  "processHash (pushDelayQueue de nf) = processHash nf"
  "connInodeHash (pushDelayQueue de nf) = connInodeHash nf"
  "heap (pushDelayQueue de nf) = heap nf"
  "packetQueue (pushDelayQueue de nf) = packetQueue nf"
  "counter (pushDelayQueue de nf) = counter nf"
  "bindIPs (pushDelayQueue de nf) = bindIPs nf"
  "nf_done (pushDelayQueue de nf) = nf_done nf"
  by (simp_all add: pushDelayQueue_def)

lemma credit_other_fields: "credit now a len side nf = nf\<lparr>heap := heap (credit now a len side nf)\<rparr>"
  by (simp add: credit_def)

section \<open>The two outcomes for a packet\<close>

definition delay_entry :: "netflow \<Rightarrow> time \<Rightarrow> ipv4_layer \<Rightarrow> tcp_layer \<Rightarrow> delayEntry" where
  "delay_entry nf now ip tcp =
     \<lparr>de_timestamp = now, de_times = 0, de_addr = packet_key ip tcp,
      de_length = wrap64 (packet_size ip tcp), de_side = determineSide nf (ip_string (ip_SrcIP ip))\<rparr>"

lemma handlePacket_cases:
  assumes "pkt_ipv4 pkt = Some ip" "pkt_tcp pkt = Some tcp"
  shows "handlePacket now pkt nf =
    (case owner_of nf (packet_key ip tcp) of
       None \<Rightarrow> pushDelayQueue (delay_entry nf now ip tcp) nf
     | Some a \<Rightarrow> credit now a (wrap64 (packet_size ip tcp)) (determineSide nf (ip_string (ip_SrcIP ip))) nf)"
  using assms
  by (simp add: handlePacket_def Let_def increaseTraffic_def getProcessByAddr_owner packet_key_def
      packet_size_def delay_entry_def mult.commute split: option.split)

lemma handlePacket_other:
  "pkt_ipv4 pkt = None \<or> pkt_tcp pkt = None \<Longrightarrow> handlePacket now pkt nf = nf"
  by (auto simp: handlePacket_def split: option.split)

text \<open>A packet is credited, delayed or ignored.\<close>

lemma handlePacket_elim:
  obtains (ignored) "handlePacket now pkt nf = nf"
    | (credited) a len side where "handlePacket now pkt nf = credit now a len side nf"
        "\<exists>pid. gm_get (pc_dict (processHash nf)) pid = Some a"
    | (delayed) de where "handlePacket now pkt nf = pushDelayQueue de nf" "de_timestamp de = now"
proof (cases "pkt_ipv4 pkt = None \<or> pkt_tcp pkt = None")
  case True
  then show ?thesis using handlePacket_other ignored by blast
next
  case False
  then obtain ip tcp where layers: "pkt_ipv4 pkt = Some ip" "pkt_tcp pkt = Some tcp" by auto
  show ?thesis
  proof (cases "owner_of nf (packet_key ip tcp)")
    case None
    then show ?thesis
      using delayed [of "delay_entry nf now ip tcp"] by (simp add: handlePacket_cases [OF layers] delay_entry_def)
  next
    case (Some a)
    show ?thesis
      by (rule credited [OF _ owner_of_dict [OF Some]]) (simp add: handlePacket_cases [OF layers] Some)
  qed
qed

lemma handlePacket_frame [frame_simps]:
  "processHash (handlePacket now pkt nf) = processHash nf"
  "connInodeHash (handlePacket now pkt nf) = connInodeHash nf"
  "packetQueue (handlePacket now pkt nf) = packetQueue nf"
  "counter (handlePacket now pkt nf) = counter nf"
  "bindIPs (handlePacket now pkt nf) = bindIPs nf"
  "nf_done (handlePacket now pkt nf) = nf_done nf"
  by (cases rule: handlePacket_elim [of now pkt nf]; simp add: frame_simps)+

section \<open>Effect on the process table\<close>

text \<open>The key leads to this pid.\<close>

definition owned_by :: "netflow \<Rightarrow> string \<Rightarrow> string \<Rightarrow> bool" where
  "owned_by nf key pid \<longleftrightarrow>
     owner_of nf key \<noteq> None \<and> gm_get (pc_dict (processHash nf)) pid = owner_of nf key"

definition nf_pc_ok :: "netflow \<Rightarrow> bool" where
  "nf_pc_ok nf \<longleftrightarrow> pc_ok (processHash nf) (heap nf)"

lemma owned_by_unique: "nf_pc_ok nf \<Longrightarrow> owned_by nf key p \<Longrightarrow> owned_by nf key q \<Longrightarrow> p = q"
  by (auto simp: owned_by_def nf_pc_ok_def pc_ok_def)

lemma owned_by_cong:
  "connInodeHash nf' = connInodeHash nf \<Longrightarrow> processHash nf' = processHash nf \<Longrightarrow>
     owned_by nf' key pid = owned_by nf key pid"
  using owner_of_cong [of nf' nf key] by (simp add: owned_by_def)

lemma nf_pc_ok_credit [intro]: "nf_pc_ok nf \<Longrightarrow> nf_pc_ok (credit now a len side nf)"
  by (auto simp: nf_pc_ok_def credit_def)

lemma procs_of_owned:
  assumes "nf_pc_ok nf" "owner_of nf key = Some a"
  shows "procs_of (credit now a len side nf) q =
    (if owned_by nf key q then map_option (\<lambda>p. increaseProcessTraffic now p len side) (procs_of nf q)
     else procs_of nf q)"
proof -
  obtain pid where pid: "gm_get (pc_dict (processHash nf)) pid = Some a"
    using owner_of_dict [OF assms(2)] by blast
  then have "owned_by nf key pid" using assms(2) by (simp add: owned_by_def)
  then have "owned_by nf key q \<longleftrightarrow> q = pid" using owned_by_unique assms(1) by blast
  with procs_of_credit [OF assms(1) [unfolded nf_pc_ok_def] pid] show ?thesis by simp
qed

lemma procs_of_handlePacket:
  assumes "nf_pc_ok nf" "pkt_ipv4 pkt = Some ip" "pkt_tcp pkt = Some tcp"
  shows "procs_of (handlePacket now pkt nf) q =
    (if owned_by nf (packet_key ip tcp) q
     then map_option (\<lambda>p. increaseProcessTraffic now p (wrap64 (packet_size ip tcp))
            (determineSide nf (ip_string (ip_SrcIP ip)))) (procs_of nf q)
     else procs_of nf q)"
proof (cases "owner_of nf (packet_key ip tcp)")
  case None
  then show ?thesis
    using handlePacket_cases [OF assms(2,3)] by (simp add: owned_by_def procs_of_def frame_simps)
next
  case (Some a)
  then show ?thesis
    using handlePacket_cases [OF assms(2,3)] procs_of_owned [OF assms(1) Some] by simp
qed

lemma procs_of_handleDelayEntry:
  assumes "nf_pc_ok nf"
  shows "procs_of (snd (handleDelayEntry now e nf)) q =
    (if owned_by nf (de_addr e) q
     then map_option (\<lambda>p. increaseProcessTraffic now p (de_length e) (de_side e)) (procs_of nf q)
     else procs_of nf q)"
proof (cases "owner_of nf (de_addr e)")
  case None
  then show ?thesis by (simp add: handleDelayEntry_def getProcessByAddr_owner owned_by_def)
next
  case (Some a)
  then show ?thesis
    using procs_of_owned [OF assms Some] by (simp add: handleDelayEntry_def getProcessByAddr_owner)
qed

lemma handleDelayEntry_cases:
  "snd (handleDelayEntry now e nf) =
     (case owner_of nf (de_addr e) of None \<Rightarrow> nf | Some a \<Rightarrow> credit now a (de_length e) (de_side e) nf)"
  by (simp add: handleDelayEntry_def getProcessByAddr_owner split: option.split)

lemma handleDelayEntry_frame [frame_simps]:
  "processHash (snd (handleDelayEntry now e nf)) = processHash nf"
  "connInodeHash (snd (handleDelayEntry now e nf)) = connInodeHash nf"
  "packetQueue (snd (handleDelayEntry now e nf)) = packetQueue nf"
  "delayQueue (snd (handleDelayEntry now e nf)) = delayQueue nf"
  "counter (snd (handleDelayEntry now e nf)) = counter nf"
  "bindIPs (snd (handleDelayEntry now e nf)) = bindIPs nf"
  "nf_done (snd (handleDelayEntry now e nf)) = nf_done nf"
  by (simp_all add: handleDelayEntry_cases frame_simps split: option.split)

lemma nf_pc_ok_handleDelayEntry [intro]: "nf_pc_ok nf \<Longrightarrow> nf_pc_ok (snd (handleDelayEntry now e nf))"
  by (auto simp: handleDelayEntry_cases split: option.split)

lemma nf_pc_ok_pushDelayQueue [intro]: "nf_pc_ok nf \<Longrightarrow> nf_pc_ok (pushDelayQueue de nf)"
  by (simp add: nf_pc_ok_def frame_simps)

lemma nf_pc_ok_handlePacket [intro]: "nf_pc_ok nf \<Longrightarrow> nf_pc_ok (handlePacket now pkt nf)"
  by (cases rule: handlePacket_elim [of now pkt nf]) auto

lemma credit_queue: "credit now a len side (nf\<lparr>delayQueue := q\<rparr>) = (credit now a len side nf)\<lparr>delayQueue := q\<rparr>"
  by (simp add: credit_def)

lemma owner_of_queue [simp]: "owner_of (nf\<lparr>delayQueue := q\<rparr>) key = owner_of nf key"
  by (rule owner_of_cong) simp_all

lemma handleDelayEntry_delayQueue:
  "snd (handleDelayEntry now e (nf\<lparr>delayQueue := q\<rparr>)) = (snd (handleDelayEntry now e nf))\<lparr>delayQueue := q\<rparr>"
  by (simp add: handleDelayEntry_cases credit_queue split: option.split)

section \<open>Runs of packets\<close>

fun handle_packets :: "(time \<times> packet) list \<Rightarrow> netflow \<Rightarrow> netflow" where
  "handle_packets [] nf = nf"
| "handle_packets ((now, pkt) # pkts) nf = handle_packets pkts (handlePacket now pkt nf)"

text \<open>The traffic a packet, and a run of packets, is for one process, under the tables of \<open>nf\<close>.\<close>

definition packet_event :: "netflow \<Rightarrow> string \<Rightarrow> time \<times> packet \<Rightarrow> event list" where
  "packet_event nf pid tp =
     (case (pkt_ipv4 (snd tp), pkt_tcp (snd tp)) of
        (Some ip, Some tcp) \<Rightarrow>
          if owned_by nf (packet_key ip tcp) pid
          then [(fst tp, determineSide nf (ip_string (ip_SrcIP ip)), wrap64 (packet_size ip tcp))] else []
      | _ \<Rightarrow> [])"

definition packet_events :: "netflow \<Rightarrow> (time \<times> packet) list \<Rightarrow> string \<Rightarrow> event list" where
  "packet_events nf pkts pid = concat (map (packet_event nf pid) pkts)"

lemma procs_of_handle_one:
  assumes "nf_pc_ok nf"
  shows "procs_of (handlePacket now pkt nf) pid =
    map_option (account (packet_event nf pid (now, pkt))) (procs_of nf pid)"
proof (cases "pkt_ipv4 pkt = None \<or> pkt_tcp pkt = None")
  case True
  then have "packet_event nf pid (now, pkt) = []"
    by (auto simp: packet_event_def split: option.split)
  then show ?thesis using True by (simp add: handlePacket_other option.map_ident)
next
  case False
  then obtain ip tcp where layers: "pkt_ipv4 pkt = Some ip" "pkt_tcp pkt = Some tcp" by auto
  show ?thesis
    by (cases "procs_of nf pid")
      (simp_all add: procs_of_handlePacket [OF assms layers] packet_event_def layers account_def account1_def)
qed

lemma determineSide_cong: "bindIPs nf' = bindIPs nf \<Longrightarrow> determineSide nf' ip = determineSide nf ip"
  by (simp add: determineSide_def isBindIPs_def)

lemma packet_events_handlePacket:
  "packet_events (handlePacket now pkt nf) pkts pid = packet_events nf pkts pid"
proof -
  have "packet_event (handlePacket now pkt nf) pid = packet_event nf pid"
    using owned_by_cong [of "handlePacket now pkt nf" nf] determineSide_cong [of "handlePacket now pkt nf" nf]
    by (simp add: packet_event_def fun_eq_iff frame_simps split: option.split)
  then show ?thesis by (simp add: packet_events_def)
qed

lemma account_append: "account (xs @ ys) p = account ys (account xs p)"
  by (simp add: account_def)

lemma procs_of_handle_packets:
  "nf_pc_ok nf \<Longrightarrow>
     procs_of (handle_packets pkts nf) pid = map_option (account (packet_events nf pkts pid)) (procs_of nf pid)"
proof (induction pkts nf rule: handle_packets.induct)
  case (1 nf)
  then show ?case by (simp add: packet_events_def option.map_ident)
next
  case (2 now pkt pkts nf)
  have "packet_events nf ((now, pkt) # pkts) pid =
      packet_event nf pid (now, pkt) @ packet_events nf pkts pid"
    by (simp add: packet_events_def)
  with 2 show ?case
    by (simp add: nf_pc_ok_handlePacket procs_of_handle_one packet_events_handlePacket
        option.map_comp comp_def account_append)
qed

lemma handle_packets_frame [frame_simps]:
  "processHash (handle_packets pkts nf) = processHash nf"
  "connInodeHash (handle_packets pkts nf) = connInodeHash nf"
  "packetQueue (handle_packets pkts nf) = packetQueue nf"
  "counter (handle_packets pkts nf) = counter nf"
  "nf_done (handle_packets pkts nf) = nf_done nf"
  by (induction pkts nf rule: handle_packets.induct) (simp_all add: frame_simps)

lemma nf_pc_ok_handle_packets [intro]: "nf_pc_ok nf \<Longrightarrow> nf_pc_ok (handle_packets pkts nf)"
  by (induction pkts nf rule: handle_packets.induct) auto

lemma handlePacket_packetQueue:
  "handlePacket now pkt (nf\<lparr>packetQueue := q\<rparr>) = (handlePacket now pkt nf)\<lparr>packetQueue := q\<rparr>"
proof -
  have own: "owner_of (nf\<lparr>packetQueue := q\<rparr>) key = owner_of nf key" for key
    by (rule owner_of_cong) simp_all
  have push: "pushDelayQueue de (nf\<lparr>packetQueue := q\<rparr>) = (pushDelayQueue de nf)\<lparr>packetQueue := q\<rparr>" for de
    by (simp add: pushDelayQueue_def)
  have side: "determineSide (nf\<lparr>packetQueue := q\<rparr>) ip = determineSide nf ip" for ip
    by (rule determineSide_cong) simp
  show ?thesis
  proof (cases "pkt_ipv4 pkt = None \<or> pkt_tcp pkt = None")
    case True
    then show ?thesis by (simp add: handlePacket_other)
  next
    case False
    then obtain ip tcp where layers: "pkt_ipv4 pkt = Some ip" "pkt_tcp pkt = Some tcp" by auto
    show ?thesis
      unfolding handlePacket_cases [OF layers]
      by (simp add: own push side delay_entry_def split: option.split) (simp add: credit_def)
  qed
qed

lemma handle_packets_packetQueue:
  "handle_packets pkts (nf\<lparr>packetQueue := q\<rparr>) = (handle_packets pkts nf)\<lparr>packetQueue := q\<rparr>"
  by (induction pkts nf rule: handle_packets.induct) (simp_all add: handlePacket_packetQueue)

section \<open>A worker alone with the queue\<close>

text \<open>
  Before the context is done, a worker handles the packets of its queue in order, up to the first
  nil, at which it returns; if there is none it comes to wait on the empty queue.
\<close>

lemma dequeue_live:
  assumes "\<not> nf_done nf"
  shows "dequeue sel nf =
    (case chan_buf (packetQueue nf) of
       [] \<Rightarrow> None
     | x # xs \<Rightarrow> Some (x, nf\<lparr>packetQueue := (packetQueue nf)\<lparr>chan_buf := xs\<rparr>\<rparr>))"
  using assms by (simp add: dequeue_def chan_recv_def split: list.split)

lemma worker_result:
  assumes "\<not> nf_done nf" "chan_buf (packetQueue nf) = map Some pkts @ rest"
    "rest = [] \<or> hd rest = None" "length turns = Suc (length pkts)"
  shows "loopHandlePacket turns nf =
    (if rest = [] then Waiting else Returned,
     (handle_packets (zip (map snd turns) pkts) nf)\<lparr>packetQueue := (packetQueue nf)\<lparr>chan_buf := tl rest\<rparr>\<rparr>)"
  using assms
proof (induction pkts arbitrary: nf turns)
  case Nil
  then obtain sel now where "turns = [(sel, now)]" by (auto simp: length_Suc_conv)
  with Nil show ?case by (cases rest) (auto simp: dequeue_live)
next
  case (Cons pkt pkts)
  then obtain sel now turns' where turns: "turns = (sel, now) # turns'" "length turns' = Suc (length pkts)"
    by (auto simp: length_Suc_conv)
  let ?q = "(packetQueue nf)\<lparr>chan_buf := map Some pkts @ rest\<rparr>"
  have "dequeue sel nf = Some (Some pkt, nf\<lparr>packetQueue := ?q\<rparr>)"
    using Cons.prems(1,2) by (simp add: dequeue_live)
  then have "loopHandlePacket turns nf = loopHandlePacket turns' ((handlePacket now pkt nf)\<lparr>packetQueue := ?q\<rparr>)"
    by (simp add: turns(1) handlePacket_packetQueue)
  then show ?case
    using Cons.IH [of "(handlePacket now pkt nf)\<lparr>packetQueue := ?q\<rparr>" turns'] Cons.prems turns(2)
    by (simp add: turns(1) frame_simps handle_packets_packetQueue)
qed

end
