(* ===== verification/Sync.thy ===== *)
theory Sync
  imports Engine
begin

text \<open>
  The resource syncer of \<open>netflow.go\<close>: \<open>rescanResouce\<close> brings the connection table and the process
  table up to date, and each tick of \<open>startResourceSyncer\<close> then drains the delay queue. What the
  operating system shows during one rescan is a record of type \<open>scan_env\<close>.
\<close>

section \<open>The rescan\<close>

text \<open>
  File contents, the user table, the \<open>/proc\<close> snapshot, the order of \<open>range\<close> over the scanned
  processes, successive clock readings, and which error \<open>errgroup\<close> reports when both goroutines fail.
\<close>

record scan_env =
  env_open :: "string \<Rightarrow> string option"
  env_users :: "(string, string) gomap option"
  env_fs :: procfs
  env_ord :: "(string, process) gomap \<Rightarrow> (string, process) gomap"
  env_clk :: "nat \<Rightarrow> time"
  env_conns_first :: bool

definition add_absent :: "time \<Rightarrow> string \<Rightarrow> string \<Rightarrow> mapping \<Rightarrow> mapping" where
  "add_absent now key value m = (if \<not> Exists m key value then Add now key value m else m)"

text \<open>The callback of \<open>rescanConns\<close>; the state is the table and the clock readings still to come.\<close>

definition conn_line ::
    "(string, string) gomap option \<Rightarrow> string \<Rightarrow> mapping \<times> (nat \<Rightarrow> time) \<Rightarrow> (mapping \<times> (nat \<Rightarrow> time)) go" where
  "conn_line users line s =
     (case s of (m, clk) \<Rightarrow>
      go_bind (getConnectionItem users line) (\<lambda>conn.
        case conn of
          None \<Rightarrow> Ret (m, clk)
        | Some conn \<Rightarrow>
            (let m = add_absent (clk 0) (ci_Addr conn) (ci_Inode conn) m;
                 m = add_absent (clk 1) (ci_ReverseAddr conn) (ci_Inode conn) m
             in Ret (m, \<lambda>n. clk (n + 2)))))"

definition rescanConns :: "scan_env \<Rightarrow> netflow \<Rightarrow> (go_error option \<times> netflow) go" where
  "rescanConns env nf =
     go_bind (parseNetworkLines (env_open env) ''tcp'' (conn_line (env_users env))
                (connInodeHash nf, env_clk env))
       (\<lambda>((m, clk), err). Ret (err, nf\<lparr>connInodeHash := m\<rparr>))"

definition rescanProcessInodes :: "scan_env \<Rightarrow> netflow \<Rightarrow> (go_error option \<times> netflow) go" where
  "rescanProcessInodes env nf =
     go_bind (Rescan (env_ord env) (env_fs env) (processHash nf, heap nf))
       (\<lambda>(err, pm, h). Ret (err, nf\<lparr>processHash := pm, heap := h\<rparr>))"

text \<open>
  The two goroutines work on different tables, so their order does not matter; \<open>Wait\<close> returns the
  first error.
\<close>

definition rescanResouce :: "scan_env \<Rightarrow> netflow \<Rightarrow> (go_error option \<times> netflow) go" where
  "rescanResouce env nf =
     go_bind (rescanConns env nf) (\<lambda>(err1, nf1).
     go_bind (rescanProcessInodes env nf1) (\<lambda>(err2, nf2).
       Ret (case (err1, err2) of
              (None, e) \<Rightarrow> e
            | (e, None) \<Rightarrow> e
            | (Some e1, Some e2) \<Rightarrow> Some (if env_conns_first env then e1 else e2), nf2)))"

section \<open>Draining the delay queue\<close>

text \<open>
  One turn of the inner loop: the pending entry or a fresh one, handled unless it is younger than
  the rescan; the flag says whether the loop goes on. A young entry stays pending.
\<close>

definition drain_iter ::
    "bool \<Rightarrow> time \<Rightarrow> time \<Rightarrow> delayEntry option \<times> netflow \<Rightarrow> bool \<times> delayEntry option \<times> netflow" where
  "drain_iter sel now lastTime s =
     (case s of (entry, nf) \<Rightarrow>
      case (case entry of None \<Rightarrow> consumeDelayQueue sel nf | Some e \<Rightarrow> (Some e, nf)) of
        (None, nf) \<Rightarrow> (False, None, nf)
      | (Some e, nf) \<Rightarrow>
          if lastTime < de_timestamp e then (False, Some e, nf)
          else (True, None, snd (handleDelayEntry now e nf)))"

text \<open>What the loop still has to do: at most one turn per queued entry and one for a pending one.\<close>

definition drain_work :: "delayEntry option \<times> netflow \<Rightarrow> nat" where
  "drain_work s = length (chan_buf (delayQueue (snd s))) + (if fst s = None then 0 else 1)"


lemma drain_iter_work:
  "drain_iter sel now lastTime s = (True, s') \<Longrightarrow> drain_work s' < drain_work s"
  by (cases s)
    (auto simp: drain_iter_def drain_work_def consumeDelayQueue_def chan_recv_def frame_simps
      split: option.splits if_splits list.splits)

text \<open>The whole loop when no worker adds to the queue meanwhile; it ends.\<close>

function drain ::
    "(nat \<Rightarrow> bool) \<Rightarrow> (nat \<Rightarrow> time) \<Rightarrow> time \<Rightarrow> delayEntry option \<times> netflow \<Rightarrow> delayEntry option \<times> netflow" where
  "drain sel clk lastTime s =
     (case drain_iter (sel 0) (clk 0) lastTime s of
        (True, s') \<Rightarrow> drain (\<lambda>n. sel (Suc n)) (\<lambda>n. clk (Suc n)) lastTime s'
      | (False, s') \<Rightarrow> s')"
  by pat_completeness auto

termination drain
  by (relation "measure (\<lambda>(sel, clk, lastTime, s). drain_work s)") (simp_all add: drain_iter_work)

declare drain.simps [simp del]

text \<open>
  One tick of \<open>startResourceSyncer\<close>: the error of the rescan is not looked at, then the clock is read
  (\<open>lastTime\<close>) and the queue drained.
\<close>

definition tick ::
    "scan_env \<Rightarrow> time \<Rightarrow> (nat \<Rightarrow> bool) \<Rightarrow> (nat \<Rightarrow> time) \<Rightarrow> delayEntry option \<times> netflow \<Rightarrow>
     (delayEntry option \<times> netflow) go" where
  "tick env lastTime sel clk s =
     (case s of (entry, nf) \<Rightarrow>
      go_bind (rescanResouce env nf) (\<lambda>(err, nf'). Ret (drain sel clk lastTime (entry, nf'))))"

section \<open>What a drain does\<close>

text \<open>The entries a drain has before it, oldest first, and their handling in that order.\<close>

definition pending :: "delayEntry option \<times> netflow \<Rightarrow> delayEntry list" where
  "pending s = (case fst s of None \<Rightarrow> [] | Some e \<Rightarrow> [e]) @ chan_buf (delayQueue (snd s))"

fun handle_entries :: "(nat \<Rightarrow> time) \<Rightarrow> delayEntry list \<Rightarrow> netflow \<Rightarrow> netflow" where
  "handle_entries clk [] nf = nf"
| "handle_entries clk (e # es) nf =
     handle_entries (\<lambda>n. clk (Suc n)) es (snd (handleDelayEntry (clk 0) e nf))"

lemma handle_entries_frame [frame_simps]:
  "processHash (handle_entries clk es nf) = processHash nf"
  "connInodeHash (handle_entries clk es nf) = connInodeHash nf"
  "packetQueue (handle_entries clk es nf) = packetQueue nf"
  "delayQueue (handle_entries clk es nf) = delayQueue nf"
  "counter (handle_entries clk es nf) = counter nf"
  "bindIPs (handle_entries clk es nf) = bindIPs nf"
  "nf_done (handle_entries clk es nf) = nf_done nf"
  by (induction clk es nf rule: handle_entries.induct) (simp_all add: frame_simps)

lemma handle_entries_queue:
  "handle_entries clk es (nf\<lparr>delayQueue := q\<rparr>) = (handle_entries clk es nf)\<lparr>delayQueue := q\<rparr>"
  by (induction clk es nf rule: handle_entries.induct) (simp_all add: handleDelayEntry_delayQueue)

lemma nf_pc_ok_handle_entries [intro]: "nf_pc_ok nf \<Longrightarrow> nf_pc_ok (handle_entries clk es nf)"
  by (induction clk es nf rule: handle_entries.induct) auto

text \<open>One turn of the loop, by the entry at the front.\<close>

lemma drain_iter_Nil:
  "pending s = [] \<Longrightarrow> drain_iter sel now lastTime s = (False, s)"
  by (cases s)
    (auto simp: pending_def drain_iter_def consumeDelayQueue_def chan_recv_def split: option.splits list.splits)

lemma drain_iter_Cons:
  assumes "pending (entry, nf) = e # es" "\<not> nf_done nf"
  shows "drain_iter sel now lastTime (entry, nf) =
    (if lastTime < de_timestamp e
     then (False, Some e, nf\<lparr>delayQueue := (delayQueue nf)\<lparr>chan_buf := es\<rparr>\<rparr>)
     else (True, None, snd (handleDelayEntry now e (nf\<lparr>delayQueue := (delayQueue nf)\<lparr>chan_buf := es\<rparr>\<rparr>))))"
  using assms
  by (cases entry)
    (auto simp: pending_def drain_iter_def consumeDelayQueue_def chan_recv_def split: option.splits list.splits)

text \<open>
  A drain handles the entries no younger than the rescan, in order, and stops at the first younger
  one, which it keeps pending together with everything behind it.
\<close>

lemma drain_result:
  assumes "\<not> nf_done nf" "drain sel clk lastTime (entry, nf) = (entry', nf')"
  shows "pending (entry', nf') = dropWhile (\<lambda>e. de_timestamp e \<le> lastTime) (pending (entry, nf)) \<and>
    nf' = (handle_entries clk (takeWhile (\<lambda>e. de_timestamp e \<le> lastTime) (pending (entry, nf))) nf)
            \<lparr>delayQueue := delayQueue nf'\<rparr> \<and>
    chan_cap (delayQueue nf') = chan_cap (delayQueue nf)"
  using assms
proof (induction "pending (entry, nf)" arbitrary: sel clk entry nf)
  case Nil
  then show ?case using drain_iter_Nil [of "(entry, nf)"] by (auto simp: drain.simps [of sel])
next
  case (Cons e es)
  let ?nf = "nf\<lparr>delayQueue := (delayQueue nf)\<lparr>chan_buf := es\<rparr>\<rparr>"
  note iter = drain_iter_Cons [OF Cons.hyps(2) [symmetric] Cons.prems(1)]
  show ?case
  proof (cases "lastTime < de_timestamp e")
    case True
    with Cons.prems(2) iter have "entry' = Some e" "nf' = ?nf" by (auto simp: drain.simps [of sel])
    moreover from this have "pending (entry', nf') = e # es" by (simp add: pending_def)
    ultimately show ?thesis using True by (simp add: Cons.hyps(2) [symmetric])
  next
    case False
    let ?nf1 = "snd (handleDelayEntry (clk 0) e ?nf)"
    have "drain (\<lambda>n. sel (Suc n)) (\<lambda>n. clk (Suc n)) lastTime (None, ?nf1) = (entry', nf')"
      using Cons.prems(2) iter False by (simp add: drain.simps [of sel])
    moreover have pend: "pending (None, ?nf1) = es" by (simp add: pending_def frame_simps)
    moreover have "\<not> nf_done ?nf1" using Cons.prems(1) by (simp add: frame_simps)
    ultimately have IH: "pending (entry', nf') = dropWhile (\<lambda>e. de_timestamp e \<le> lastTime) es \<and>
        nf' = (handle_entries (\<lambda>n. clk (Suc n)) (takeWhile (\<lambda>e. de_timestamp e \<le> lastTime) es) ?nf1)
          \<lparr>delayQueue := delayQueue nf'\<rparr> \<and> chan_cap (delayQueue nf') = chan_cap (delayQueue ?nf1)"
      using Cons.hyps(1) [of None ?nf1] by metis
    have "?nf1 = (snd (handleDelayEntry (clk 0) e nf))\<lparr>delayQueue := (delayQueue nf)\<lparr>chan_buf := es\<rparr>\<rparr>"
      by (rule handleDelayEntry_delayQueue)
    then show ?thesis
      using IH False by (simp add: Cons.hyps(2) [symmetric] handle_entries_queue)
  qed
qed

text \<open>The effect on a process: the run of events its entries stand for.\<close>

fun delay_events :: "netflow \<Rightarrow> (nat \<Rightarrow> time) \<Rightarrow> delayEntry list \<Rightarrow> string \<Rightarrow> event list" where
  "delay_events nf clk [] pid = []"
| "delay_events nf clk (e # es) pid =
     (if owned_by nf (de_addr e) pid then [(clk 0, de_side e, de_length e)] else []) @
     delay_events nf (\<lambda>n. clk (Suc n)) es pid"

lemma delay_events_cong:
  "connInodeHash nf' = connInodeHash nf \<Longrightarrow> processHash nf' = processHash nf \<Longrightarrow>
     delay_events nf' clk es pid = delay_events nf clk es pid"
  using owned_by_cong [of nf' nf] by (induction es arbitrary: clk) simp_all

lemma procs_of_handle_entries:
  "nf_pc_ok nf \<Longrightarrow>
     procs_of (handle_entries clk es nf) pid =
       map_option (account (delay_events nf clk es pid)) (procs_of nf pid)"
proof (induction clk es nf rule: handle_entries.induct)
  case (1 clk nf)
  then show ?case by (simp add: option.map_ident)
next
  case (2 clk e es nf)
  let ?nf = "snd (handleDelayEntry (clk 0) e nf)"
  have "delay_events ?nf clk' es pid = delay_events nf clk' es pid" for clk'
    by (rule delay_events_cong) (simp_all add: frame_simps)
  with 2 show ?case
    by (auto simp: nf_pc_ok_handleDelayEntry procs_of_handleDelayEntry option.map_comp comp_def
        account_def account1_def)
qed

section \<open>What a rescan leaves in the connection table\<close>

text \<open>The two keys a row is stored under, in the order they are stored.\<close>

definition row_puts :: "tcp_row \<Rightarrow> (string \<times> string) list" where
  "row_puts r =
     (if row_kept r
      then [(spliceAddr (row_local r) (row_lport r) (row_remote r) (row_rport r), row_inode r),
            (spliceAddr (row_remote r) (row_rport r) (row_local r) (row_lport r), row_inode r)]
      else [])"

definition puts :: "('k \<rightharpoonup> 'v) \<Rightarrow> ('k \<times> 'v) list \<Rightarrow> 'k \<rightharpoonup> 'v" where
  "puts f kvs = foldl (\<lambda>f (k, v). f(k \<mapsto> v)) f kvs"

lemma puts_simps [simp]:
  "puts f [] = f"
  "puts f ((k, v) # kvs) = puts (f(k \<mapsto> v)) kvs"
  "puts f (xs @ ys) = puts (puts f xs) ys"
  by (simp_all add: puts_def)

text \<open>The last store to a key wins; a key stored with one value only has that value.\<close>

lemma puts_unique:
  assumes "(k, v) \<in> set kvs" "\<And>w. (k, w) \<in> set kvs \<Longrightarrow> w = v"
  shows "puts f kvs k = Some v"
  using assms
proof (induction kvs rule: rev_induct)
  case (snoc x kvs)
  obtain j u where x: "x = (j, u)" by force
  show ?case
  proof (cases "j = k")
    case True
    then have "u = v" using snoc.prems(2) [of u] x by simp
    with True x show ?thesis by simp
  next
    case False
    then have mem: "(k, v) \<in> set kvs" using snoc.prems(1) x by simp
    have uniq: "w = v" if "(k, w) \<in> set kvs" for w
      by (rule snoc.prems(2)) (simp add: that)
    have "puts f kvs k = Some v" by (rule snoc.IH [OF mem uniq])
    with False x show ?thesis by simp
  qed
qed simp

lemma puts_other: "k \<notin> fst ` set kvs \<Longrightarrow> puts f kvs k = f k"
proof (induction kvs rule: rev_induct)
  case (snoc x kvs)
  then show ?case by (cases x) auto
qed simp

lemma lookup_add_absent: "lookup (add_absent now k v m) = (lookup m)(k \<mapsto> v)"
  by (auto simp: add_absent_def Exists_lookup gomap_simps)

lemma table_ok_add_absent [intro]: "table_ok m \<Longrightarrow> table_ok (add_absent now k v m)"
  by (auto simp: add_absent_def)

lemma conn_line_row:
  assumes "row_ok r" "length pads = length (row_fields r)"
  shows "\<exists>m' clk'. conn_line users (row_text pads r) (m, clk) = Ret (m', clk') \<and>
    lookup m' = puts (lookup m) (row_puts r) \<and> (table_ok m \<longrightarrow> table_ok m')"
proof (cases "row_kept r")
  case True
  let ?k = "spliceAddr (row_local r) (row_lport r) (row_remote r) (row_rport r)"
  let ?k' = "spliceAddr (row_remote r) (row_rport r) (row_local r) (row_lport r)"
  let ?m = "add_absent (clk 1) ?k' (row_inode r) (add_absent (clk 0) ?k (row_inode r) m)"
  have "conn_line users (row_text pads r) (m, clk) = Ret (?m, \<lambda>n. clk (n + 2))"
    unfolding conn_line_def getConnectionItem_row [OF assms]
    by (simp only: True if_True prod.case go_bind.simps option.case Let_def row_item_def
        connection_item.select_convs)
  moreover have "lookup ?m = puts (lookup m) (row_puts r)"
    by (simp only: lookup_add_absent row_puts_def True if_True puts_simps)
  moreover have "table_ok m \<longrightarrow> table_ok ?m" by (blast intro: table_ok_add_absent)
  ultimately show ?thesis by blast
next
  case False
  then show ?thesis
    by (simp add: conn_line_def getConnectionItem_row [OF assms] row_puts_def)
qed

text \<open>The rows of a file in the kernel's format, with their padding.\<close>

definition rows_ok :: "(nat list \<times> tcp_row) list \<Rightarrow> bool" where
  "rows_ok rows \<longleftrightarrow> (\<forall>(pads, r)\<in>set rows. row_ok r \<and> length pads = length (row_fields r))"

definition rows_puts :: "(nat list \<times> tcp_row) list \<Rightarrow> (string \<times> string) list" where
  "rows_puts rows = concat (map (\<lambda>(pads, r). row_puts r) rows)"

lemma process_rows:
  "rows_ok rows \<Longrightarrow>
     \<exists>m' clk'. process_lines (conn_line users) (map (\<lambda>(pads, r). row_text pads r) rows) (m, clk) = Ret (m', clk') \<and>
       lookup m' = puts (lookup m) (rows_puts rows) \<and> (table_ok m \<longrightarrow> table_ok m')"
proof (induction rows arbitrary: m clk)
  case Nil
  then show ?case by (simp add: rows_puts_def)
next
  case (Cons row rows)
  obtain pads r where row: "row = (pads, r)" by force
  then have "row_ok r" "length pads = length (row_fields r)"
    using Cons.prems by (auto simp: rows_ok_def)
  then obtain m1 clk1 where step: "conn_line users (row_text pads r) (m, clk) = Ret (m1, clk1)"
    "lookup m1 = puts (lookup m) (row_puts r)" "table_ok m \<longrightarrow> table_ok m1"
    using conn_line_row by blast
  have "rows_ok rows" using Cons.prems by (simp add: rows_ok_def)
  with Cons.IH [of m1 clk1] obtain m' clk' where
    "process_lines (conn_line users) (map (\<lambda>(pads, r). row_text pads r) rows) (m1, clk1) = Ret (m', clk')"
    "lookup m' = puts (lookup m1) (rows_puts rows)" "table_ok m1 \<longrightarrow> table_ok m'" by blast
  with step show ?case by (simp add: row rows_puts_def)
qed

text \<open>A \<open>tcp\<close> file: a header line, then the rows.\<close>

definition tcp_file :: "(string \<Rightarrow> string option) \<Rightarrow> string \<Rightarrow> (nat list \<times> tcp_row) list \<Rightarrow> bool" where
  "tcp_file open_file header rows \<longleftrightarrow>
     (case open_file procTCPFile of
        None \<Rightarrow> False
      | Some content \<Rightarrow> scan_file content = (header # map (\<lambda>(pads, r). row_text pads r) rows, None))"

lemma rescanConns_result:
  assumes "tcp_file (env_open env) header rows" "rows_ok rows"
  shows "\<exists>m'. rescanConns env nf = Ret (None, nf\<lparr>connInodeHash := m'\<rparr>) \<and>
    lookup m' = puts (lookup (connInodeHash nf)) (rows_puts rows) \<and>
    (table_ok (connInodeHash nf) \<longrightarrow> table_ok m')"
proof -
  obtain content where "env_open env procTCPFile = Some content"
    "scan_file content = (header # map (\<lambda>(pads, r). row_text pads r) rows, None)"
    using assms(1) by (auto simp: tcp_file_def split: option.splits)
  with process_rows [OF assms(2), of "env_users env" "connInodeHash nf" "env_clk env"]
  show ?thesis by (auto simp: rescanConns_def parseNetworkLines_def proc_file_def)
qed

section \<open>What a rescan leaves in the process table\<close>

text \<open>The scan of \<open>/proc\<close> succeeds: the glob works and no socket link is cut short.\<close>

definition proc_scan :: "procfs \<Rightarrow> string \<Rightarrow> string list \<Rightarrow> bool" where
  "proc_scan fs f pids \<longleftrightarrow>
     getMatchingPIDs fs f = Inr pids \<and> distinct pids \<and> (\<forall>pid\<in>set pids. links_fine fs pid)"

text \<open>A scanned process has the inode among its socket links.\<close>

definition scan_owns :: "procfs \<Rightarrow> string list \<Rightarrow> string \<Rightarrow> string \<Rightarrow> bool" where
  "scan_owns fs pids pid inode \<longleftrightarrow> pid \<in> set pids \<and> inode \<in> inode_of ` set (pid_links fs pid)"

definition scan_result :: "procfs \<Rightarrow> string \<Rightarrow> string list \<Rightarrow> string \<Rightarrow> process option" where
  "scan_result fs f pids pid =
     (if pid \<in> set pids \<and> pid_links fs pid \<noteq> [] then Some (scanned fs f pid) else None)"

lemma rescanProcessInodes_result:
  assumes "proc_scan (env_fs env) (filterPName (processHash nf)) pids" "range_order (env_ord env)"
    "nf_pc_ok nf"
  shows "\<exists>pm h ps. rescanProcessInodes env nf = Ret (None, nf\<lparr>processHash := pm, heap := h\<rparr>) \<and>
    rescan_apply ps (processHash nf, heap nf) = (pm, h) \<and> gm_ok ps \<and>
    (\<forall>pid. gm_get ps pid = scan_result (env_fs env) (filterPName (processHash nf)) pids pid)"
proof -
  let ?f = "filterPName (processHash nf)"
  obtain ppm where ppm: "GetProcesses (env_fs env) ?f = Ret (Inr ppm)" "gm_ok ppm"
    "\<forall>pid. gm_get ppm pid = scan_result (env_fs env) ?f pids pid"
    using GetProcesses_result [of "env_fs env" ?f pids] assms(1)
    by (auto simp: proc_scan_def scan_result_def)
  obtain pm h where "rescan_apply (env_ord env ppm) (processHash nf, heap nf) = (pm, h)" by force
  moreover have "gm_ok (env_ord env ppm)" "\<forall>pid. gm_get (env_ord env ppm) pid = gm_get ppm pid"
    using gm_get_range_order [OF assms(2) ppm(2)] by simp_all
  ultimately show ?thesis
    using ppm by (auto simp: rescanProcessInodes_def Rescan_def)
qed

lemma owns_scan:
  assumes "gm_ok ps" "\<forall>pid. gm_get ps pid = scan_result fs f pids pid"
  shows "owns ps pid inode \<longleftrightarrow> scan_owns fs pids pid inode"
proof -
  have "owns ps pid inode \<longleftrightarrow> (\<exists>po. gm_get ps pid = Some po \<and> inode \<in> set (inodes po))"
    using assms(1) by (simp add: owns_def gm_get_in_set)
  also have "\<dots> \<longleftrightarrow> scan_owns fs pids pid inode"
    using assms(2) by (auto simp: scan_result_def scan_owns_def scanned_def)
  finally show ?thesis .
qed

section \<open>A whole rescan\<close>

text \<open>The conditions on one rescan under which both halves succeed.\<close>

definition scan_fine :: "scan_env \<Rightarrow> string \<Rightarrow> string \<Rightarrow> (nat list \<times> tcp_row) list \<Rightarrow> string list \<Rightarrow> bool" where
  "scan_fine env f header rows pids \<longleftrightarrow>
     tcp_file (env_open env) header rows \<and> rows_ok rows \<and>
     proc_scan (env_fs env) f pids \<and> range_order (env_ord env)"

text \<open>What such a rescan establishes, from the state before to the state after.\<close>

definition rescanned ::
    "scan_env \<Rightarrow> (nat list \<times> tcp_row) list \<Rightarrow> string list \<Rightarrow> netflow \<Rightarrow> netflow \<Rightarrow> bool" where
  "rescanned env rows pids nf nf' \<longleftrightarrow>
     nf_pc_ok nf' \<and>
     nf' = nf\<lparr>connInodeHash := connInodeHash nf', processHash := processHash nf', heap := heap nf'\<rparr> \<and>
     lookup (connInodeHash nf') = puts (lookup (connInodeHash nf)) (rows_puts rows) \<and>
     (\<forall>pid. procs_of nf' pid =
        map_option (merge_scan (procs_of nf pid))
          (scan_result (env_fs env) (filterPName (processHash nf)) pids pid)) \<and>
     (\<forall>inode. GetProcessByInode (processHash nf') inode = None \<longleftrightarrow>
        (\<forall>pid. \<not> scan_owns (env_fs env) pids pid inode)) \<and>
     (\<forall>inode a. GetProcessByInode (processHash nf') inode = Some a \<longrightarrow>
        (\<exists>pid. scan_owns (env_fs env) pids pid inode \<and> gm_get (pc_dict (processHash nf')) pid = Some a))"

lemma rescanResouce_result:
  assumes "scan_fine env (filterPName (processHash nf)) header rows pids" "nf_pc_ok nf"
  shows "\<exists>nf'. rescanResouce env nf = Ret (None, nf') \<and> rescanned env rows pids nf nf'"
proof -
  obtain m' where conns: "rescanConns env nf = Ret (None, nf\<lparr>connInodeHash := m'\<rparr>)"
    "lookup m' = puts (lookup (connInodeHash nf)) (rows_puts rows)"
    using rescanConns_result [of env header rows nf] assms(1) by (auto simp: scan_fine_def)
  let ?nf = "nf\<lparr>connInodeHash := m'\<rparr>"
  have "nf_pc_ok ?nf" using assms(2) by (simp add: nf_pc_ok_def)
  then obtain pm h ps where inodes:
    "rescanProcessInodes env ?nf = Ret (None, ?nf\<lparr>processHash := pm, heap := h\<rparr>)"
    "rescan_apply ps (processHash nf, heap nf) = (pm, h)" "gm_ok ps"
    "\<forall>pid. gm_get ps pid = scan_result (env_fs env) (filterPName (processHash nf)) pids pid"
    using rescanProcessInodes_result [of env ?nf pids] assms(1) by (auto simp: scan_fine_def)
  let ?nf' = "?nf\<lparr>processHash := pm, heap := h\<rparr>"
  have ok: "pc_ok (processHash nf) (heap nf)" using assms(2) by (simp add: nf_pc_ok_def)
  note apply_res = rescan_apply_result [OF inodes(3) ok inodes(2)]
  note by_inode = GetProcessByInode_result [OF inodes(3) ok inodes(2)]
  have "nf_pc_ok ?nf'" using apply_res(1) by (simp add: nf_pc_ok_def)
  moreover have "procs_of ?nf' pid = map_option (merge_scan (procs_of nf pid))
      (scan_result (env_fs env) (filterPName (processHash nf)) pids pid)" for pid
    using apply_res(2) [of pid] inodes(4) by (simp add: procs_of_def)
  moreover have "GetProcessByInode pm inode = None \<longleftrightarrow>
      (\<forall>pid. \<not> scan_owns (env_fs env) pids pid inode)" for inode
    using by_inode [of inode] by (simp add: owns_scan [OF inodes(3,4)])
  moreover have "\<exists>pid. scan_owns (env_fs env) pids pid inode \<and> gm_get (pc_dict pm) pid = Some a"
    if "GetProcessByInode pm inode = Some a" for inode a
    using by_inode [of inode] that by (auto simp: owns_scan [OF inodes(3,4)])
  ultimately have "rescanned env rows pids nf ?nf'"
    using conns(2) by (simp add: rescanned_def)
  then show ?thesis
    using conns(1) inodes(1) by (auto simp: rescanResouce_def)
qed

text \<open>
  A key of the rows, stored with one inode only, that one scanned process holds: after the rescan
  it leads to that process.
\<close>

definition key_of_process ::
    "scan_env \<Rightarrow> (nat list \<times> tcp_row) list \<Rightarrow> string list \<Rightarrow> string \<Rightarrow> string \<Rightarrow> bool" where
  "key_of_process env rows pids key pid \<longleftrightarrow>
     (\<exists>inode. inode \<noteq> '''' \<and> (key, inode) \<in> set (rows_puts rows) \<and>
        (\<forall>j. (key, j) \<in> set (rows_puts rows) \<longrightarrow> j = inode) \<and>
        (\<forall>q. scan_owns (env_fs env) pids q inode \<longleftrightarrow> q = pid))"

lemma rescanned_owner:
  assumes "rescanned env rows pids nf nf'" "GetProcessByInode (processHash nf') inode = Some a"
  shows "\<exists>pid. scan_owns (env_fs env) pids pid inode \<and> gm_get (pc_dict (processHash nf')) pid = Some a"
  using assms by (simp add: rescanned_def)

lemma owned_by_rescanned:
  assumes "rescanned env rows pids nf nf'" "key_of_process env rows pids key pid"
  shows "owned_by nf' key pid"
proof -
  obtain inode where inode: "inode \<noteq> ''''" "(key, inode) \<in> set (rows_puts rows)"
    "\<forall>j. (key, j) \<in> set (rows_puts rows) \<longrightarrow> j = inode"
    "\<forall>q. scan_owns (env_fs env) pids q inode \<longleftrightarrow> q = pid"
    using assms(2) unfolding key_of_process_def by blast
  have "lookup (connInodeHash nf') = puts (lookup (connInodeHash nf)) (rows_puts rows)"
    using assms(1) unfolding rescanned_def by blast
  moreover have "puts (lookup (connInodeHash nf)) (rows_puts rows) key = Some inode"
    by (rule puts_unique [OF inode(2)]) (use inode(3) in blast)
  moreover have "GetProcessByInode (processHash nf') inode \<noteq> None"
    using assms(1) inode(4) unfolding rescanned_def by blast
  then obtain a where a: "GetProcessByInode (processHash nf') inode = Some a" by blast
  obtain q where "scan_owns (env_fs env) pids q inode" "gm_get (pc_dict (processHash nf')) q = Some a"
    using rescanned_owner [OF assms(1) a] by blast
  then have "gm_get (pc_dict (processHash nf')) pid = Some a" using inode(4) by simp
  ultimately show ?thesis using inode(1) a by (simp add: owned_by_def owner_of_def)
qed

section \<open>Any rescan that returns\<close>

text \<open>Whatever \<open>/proc\<close> shows, a rescan that returns touches the two tables only and keeps them in order.\<close>

lemma conn_line_table_ok: "conn_line users line (m, clk) = Ret (m', clk') \<Longrightarrow> table_ok m \<Longrightarrow> table_ok m'"
  by (auto simp: conn_line_def go_simps Let_def split: option.splits)

lemma process_lines_table_ok:
  "process_lines (conn_line users) ls (m, clk) = Ret (m', clk') \<Longrightarrow> table_ok m \<Longrightarrow> table_ok m'"
proof (induction ls arbitrary: m clk)
  case (Cons l ls)
  then obtain m1 clk1 where "conn_line users l (m, clk) = Ret (m1, clk1)"
    "process_lines (conn_line users) ls (m1, clk1) = Ret (m', clk')" by (auto simp: go_simps)
  with Cons.IH Cons.prems(2) show ?case by (meson conn_line_table_ok)
qed simp

lemma rescanConns_frame:
  assumes "rescanConns env nf = Ret (err, nf')"
  shows "\<exists>m'. nf' = nf\<lparr>connInodeHash := m'\<rparr> \<and> (table_ok (connInodeHash nf) \<longrightarrow> table_ok m')"
proof -
  obtain m' clk' e where parse: "parseNetworkLines (env_open env) ''tcp'' (conn_line (env_users env))
      (connInodeHash nf, env_clk env) = Ret ((m', clk'), e)" and nf': "nf' = nf\<lparr>connInodeHash := m'\<rparr>"
    using assms by (auto simp: rescanConns_def go_simps)
  have "m' = connInodeHash nf \<or>
    (\<exists>ls. process_lines (conn_line (env_users env)) ls (connInodeHash nf, env_clk env) = Ret (m', clk'))"
    using parse
    by (auto simp: parseNetworkLines_def go_simps split: option.split_asm list.split_asm prod.split_asm)
  then show ?thesis using process_lines_table_ok nf' by blast
qed

lemma rescanResouce_frame:
  assumes "rescanResouce env nf = Ret (err, nf')" "range_order (env_ord env)" "nf_pc_ok nf"
  shows "nf_pc_ok nf' \<and> (\<forall>pid. rescan_change (procs_of nf pid) (procs_of nf' pid)) \<and>
    (table_ok (connInodeHash nf) \<longrightarrow> table_ok (connInodeHash nf')) \<and>
    nf' = nf\<lparr>connInodeHash := connInodeHash nf', processHash := processHash nf', heap := heap nf'\<rparr>"
proof -
  obtain err1 nf1 err2 pm h where conns: "rescanConns env nf = Ret (err1, nf1)"
    and scan: "Rescan (env_ord env) (env_fs env) (processHash nf1, heap nf1) = Ret (err2, pm, h)"
    and nf': "nf' = nf1\<lparr>processHash := pm, heap := h\<rparr>"
    using assms(1) by (auto simp: rescanResouce_def rescanProcessInodes_def go_simps)
  obtain m' where m': "nf1 = nf\<lparr>connInodeHash := m'\<rparr>" "table_ok (connInodeHash nf) \<longrightarrow> table_ok m'"
    using rescanConns_frame [OF conns] by blast
  have "Rescan (env_ord env) (env_fs env) (processHash nf, heap nf) = Ret (err2, pm, h)"
    using scan m'(1) by simp
  then have "pc_ok pm h \<and> (\<forall>pid. rescan_change (procs (processHash nf) (heap nf) pid) (procs pm h pid)) \<and>
      filterPName pm = filterPName (processHash nf)"
    using assms(2,3) by (intro Rescan_change) (auto simp: nf_pc_ok_def)
  then show ?thesis using m' by (simp add: nf' nf_pc_ok_def procs_of_def)
qed

text \<open>The same for the controller alone.\<close>

lemma Rescan_scan:
  assumes "proc_scan fs (filterPName pm) pids" "range_order ord" "pc_ok pm h"
  shows "\<exists>pm' h' ps. Rescan ord fs (pm, h) = Ret (None, pm', h') \<and>
    rescan_apply ps (pm, h) = (pm', h') \<and> gm_ok ps \<and>
    (\<forall>pid. gm_get ps pid = scan_result fs (filterPName pm) pids pid)"
proof -
  let ?f = "filterPName pm"
  obtain ppm where ppm: "GetProcesses fs ?f = Ret (Inr ppm)" "gm_ok ppm"
    "\<forall>pid. gm_get ppm pid = scan_result fs ?f pids pid"
    using GetProcesses_result [of fs ?f pids] assms(1) by (auto simp: proc_scan_def scan_result_def)
  obtain pm' h' where "rescan_apply (ord ppm) (pm, h) = (pm', h')" by force
  then show ?thesis
    using ppm gm_get_range_order [OF assms(2) ppm(2)]
    by (intro exI [of _ pm'] exI [of _ h'] exI [of _ "ord ppm"]) (simp add: Rescan_def)
qed

end
