(* ===== verification/System.thy ===== *)
theory System
  imports Sync
begin

text \<open>
  The running program as a step relation. Its goroutines (the capture of each device with its
  forwarder, the workers, the resource syncer, the periodic clean-up, the timer) and the calls of
  its user (\<open>GetProcessRank\<close>, \<open>Stop\<close>) interleave at the granularity of one handled packet, one
  rescan, one turn of the drain loop. A step that panics ends the program and has no successor.
  The \<open>sy_in\<close>, \<open>sy_out\<close>, \<open>sy_pushed\<close> and \<open>sy_taken\<close> components record history and steer nothing.
\<close>

record sys =
  sy_nf :: netflow
  sy_now :: time
  sy_capture :: "string \<Rightarrow> packet option chan"   \<comment> \<open>\<open>packetChan\<close> of each device\<close>
  sy_entry :: "delayEntry option"                 \<comment> \<open>\<open>entry\<close> of the syncer\<close>
  sy_scanned :: bool                              \<comment> \<open>the rescan before its first tick is over\<close>
  sy_drain :: "time option"                       \<comment> \<open>\<open>lastTime\<close> while it drains\<close>
  sy_in :: "packet option list"                   \<comment> \<open>accepted into the packet queue\<close>
  sy_out :: "packet option list"                  \<comment> \<open>taken out of it by workers\<close>
  sy_pushed :: "delayEntry list"                  \<comment> \<open>accepted into the delay queue\<close>
  sy_taken :: "delayEntry list"                   \<comment> \<open>handled by the syncer\<close>

definition captureQueueSize :: nat where "captureQueueSize = 10000000"

definition sys_start :: "time \<Rightarrow> netflow \<Rightarrow> sys" where
  "sys_start now nf =
     \<lparr>sy_nf = nf, sy_now = now, sy_capture = (\<lambda>_. make_chan captureQueueSize), sy_entry = None,
      sy_scanned = False, sy_drain = None, sy_in = [], sy_out = [], sy_pushed = [], sy_taken = []\<rparr>"

text \<open>What a step appends to a queue, read off the queue before and after.\<close>

definition appended :: "'a chan \<Rightarrow> 'a chan \<Rightarrow> 'a list" where
  "appended q q' = drop (length (chan_buf q)) (chan_buf q')"

inductive sys_step :: "sys \<Rightarrow> sys \<Rightarrow> bool" where
  clock: "sy_now s \<le> t \<Longrightarrow> sys_step s (s\<lparr>sy_now := t\<rparr>)"
| capture: "dev \<in> set (nf_sniffing (sy_nf s)) \<Longrightarrow>
    sys_step s (s\<lparr>sy_capture := (sy_capture s)(dev := capture pkt (sy_capture s dev))\<rparr>)"
| forward: "chan_recv (sy_capture s dev) = Some (pkt, c) \<Longrightarrow> nf = enqueue pkt (sy_nf s) \<Longrightarrow>
    sys_step s (s\<lparr>sy_capture := (sy_capture s)(dev := c), sy_nf := nf,
      sy_in := sy_in s @ appended (packetQueue (sy_nf s)) (packetQueue nf)\<rparr>)"
| handle: "0 < nf_workers (sy_nf s) \<Longrightarrow> dequeue sel (sy_nf s) = Some (Some pkt, nf1) \<Longrightarrow>
    nf = handlePacket (sy_now s) pkt nf1 \<Longrightarrow>
    sys_step s (s\<lparr>sy_nf := nf, sy_out := sy_out s @ [Some pkt],
      sy_pushed := sy_pushed s @ appended (delayQueue nf1) (delayQueue nf)\<rparr>)"
| return: "0 < nf_workers (sy_nf s) \<Longrightarrow> dequeue sel (sy_nf s) = Some (None, nf) \<Longrightarrow>
    sys_step s (s\<lparr>sy_nf := nf\<lparr>nf_workers := nf_workers nf - 1\<rparr>,
      sy_out := sy_out s @ (if packetQueue nf = packetQueue (sy_nf s) then [] else [None])\<rparr>)"
| first_scan: "nf_syncer (sy_nf s) \<Longrightarrow> \<not> sy_scanned s \<Longrightarrow> range_order (env_ord env) \<Longrightarrow>
    rescanResouce env (sy_nf s) = Ret (err, nf) \<Longrightarrow> sys_step s (s\<lparr>sy_nf := nf, sy_scanned := True\<rparr>)"
| rescan: "sy_scanned s \<Longrightarrow> sy_drain s = None \<Longrightarrow> range_order (env_ord env) \<Longrightarrow>
    rescanResouce env (sy_nf s) = Ret (err, nf) \<Longrightarrow>
    sys_step s (s\<lparr>sy_nf := nf, sy_drain := Some (sy_now s)\<rparr>)"
| drain: "sy_drain s = Some lastTime \<Longrightarrow>
    drain_iter sel (sy_now s) lastTime (sy_entry s, sy_nf s) = (again, entry, nf) \<Longrightarrow>
    sys_step s (s\<lparr>sy_nf := nf, sy_entry := entry, sy_drain := (if again then Some lastTime else None),
      sy_taken := sy_taken s @ (if again then take 1 (pending (sy_entry s, sy_nf s)) else [])\<rparr>)"
| rank: "range_order ord \<Longrightarrow>
    GetProcessRank ord clk limit sec (processHash (sy_nf s), heap (sy_nf s)) = Ret (prank, pm, h) \<Longrightarrow>
    sys_step s (s\<lparr>sy_nf := (sy_nf s)\<lparr>processHash := pm, heap := h\<rparr>\<rparr>)"
| cleanup: "sys_step s (s\<lparr>sy_nf := (sy_nf s)\<lparr>connInodeHash :=
      Cleanup (sy_now s) (2 * minute) (connInodeHash (sy_nf s))\<rparr>\<rparr>)"
| stop: "sys_step s (s\<lparr>sy_nf := Stop (sy_nf s)\<rparr>)"

inductive_cases sys_stepE: "sys_step s s'"

inductive reachable :: "sys \<Rightarrow> bool" where
  start: "New devices opts = Inr nf0 \<Longrightarrow> list_all library_option opts \<Longrightarrow>
    Start create_err cgroup_err nf0 = (None, nf) \<Longrightarrow> reachable (sys_start now nf)"
| step: "reachable s \<Longrightarrow> sys_step s s' \<Longrightarrow> reachable s'"

section \<open>The invariant\<close>

text \<open>A process the ranking can look at, whose ring is bounded and ordered up to a second.\<close>

definition proc_fine :: "int \<Rightarrow> process \<Rightarrow> bool" where
  "proc_fine ts p \<longleftrightarrow> TrafficStats p \<noteq> None \<and> length (Ring p) \<le> maxRingSize \<and> log_sorted ts (Ring p)"

definition queue_ok :: "'a chan \<Rightarrow> bool" where
  "queue_ok q \<longleftrightarrow> chan_ok q \<and> chan_cap q = nat defaultQueueSize"

definition tables_ok :: "int \<Rightarrow> netflow \<Rightarrow> bool" where
  "tables_ok ts nf \<longleftrightarrow>
     table_ok (connInodeHash nf) \<and> nf_pc_ok nf \<and> all_procs (proc_fine ts) (processHash nf) (heap nf)"

definition queues_ok :: "sys \<Rightarrow> bool" where
  "queues_ok s \<longleftrightarrow>
     queue_ok (packetQueue (sy_nf s)) \<and> queue_ok (delayQueue (sy_nf s)) \<and>
     sy_in s = sy_out s @ chan_buf (packetQueue (sy_nf s)) \<and>
     counter (sy_nf s) = wrap64 (int (length (sy_in s))) \<and>
     sy_pushed s = sy_taken s @ pending (sy_entry s, sy_nf s) \<and>
     (\<forall>dev. chan_ok (sy_capture s dev))"

definition sys_inv :: "sys \<Rightarrow> bool" where
  "sys_inv s \<longleftrightarrow> tables_ok (unix (sy_now s)) (sy_nf s) \<and> queues_ok s"

lemma proc_fine_fresh: "TrafficStats p \<noteq> None \<Longrightarrow> Ring p = [] \<Longrightarrow> proc_fine ts p"
  by (simp add: proc_fine_def log_sorted_def)

lemma proc_fine_inodes: "proc_fine ts p \<Longrightarrow> proc_fine ts (p\<lparr>inodes := is\<rparr>)"
  by (simp add: proc_fine_def)

lemma proc_fine_mono: "proc_fine ts p \<Longrightarrow> ts \<le> ts' \<Longrightarrow> proc_fine ts' p"
  by (auto simp: proc_fine_def log_sorted_def intro: order_trans)

lemma proc_fine_analyseStats: "proc_fine ts p \<Longrightarrow> proc_fine ts (analyseStats now sec p)"
  by (simp add: proc_fine_def analyseStats_def Let_def split: prod.split)

lemma proc_fine_increase:
  assumes "proc_fine (unix now) p"
  shows "proc_fine (unix now) (increaseProcessTraffic now p len side)"
proof -
  have eq: "increaseProcessTraffic now p len side = account1 p (now, side, len)"
    by (simp add: account1_def)
  have "TrafficStats (increaseProcessTraffic now p len side) = TrafficStats p"
    using rin.rec_other_fields [of now len p] rout.rec_other_fields [of now len p]
    by (cases side) (simp_all add: increaseProcessTraffic_def)
  moreover have "length (Ring (account1 p (now, side, len))) \<le> maxRingSize"
    using assms by (intro account1_length) (simp add: proc_fine_def)
  moreover have "log_sorted (unix now) (Ring (account1 p (now, side, len)))"
    using account1_sorted [of "unix now" p "(now, side, len)"] assms by (simp add: proc_fine_def)
  ultimately show ?thesis using assms by (simp add: proc_fine_def eq)
qed

section \<open>The operations keep it\<close>

lemma tables_ok_mono: "tables_ok ts nf \<Longrightarrow> ts \<le> ts' \<Longrightarrow> tables_ok ts' nf"
  by (auto simp: tables_ok_def intro: all_procs_mono proc_fine_mono)

lemma tables_ok_cong:
  "connInodeHash nf' = connInodeHash nf \<Longrightarrow> processHash nf' = processHash nf \<Longrightarrow> heap nf' = heap nf \<Longrightarrow>
     tables_ok ts nf' = tables_ok ts nf"
  by (simp add: tables_ok_def nf_pc_ok_def)

lemma tables_ok_credit:
  assumes "tables_ok (unix now) nf" "gm_get (pc_dict (processHash nf)) pid = Some a"
  shows "tables_ok (unix now) (credit now a len side nf)"
proof -
  have "all_procs (proc_fine (unix now)) (processHash nf) (heap (credit now a len side nf))"
    using procs_of_credit [of nf pid a now len side] assms
    by (auto simp: all_procs_def tables_ok_def procs_of_def frame_simps nf_pc_ok_def
        intro: proc_fine_increase split: if_splits)
  then show ?thesis using assms(1) by (auto simp: tables_ok_def frame_simps)
qed

lemma tables_ok_pushDelayQueue: "tables_ok ts nf \<Longrightarrow> tables_ok ts (pushDelayQueue de nf)"
  using tables_ok_cong [of "pushDelayQueue de nf" nf] by (simp add: frame_simps)

lemma tables_ok_handlePacket: "tables_ok (unix now) nf \<Longrightarrow> tables_ok (unix now) (handlePacket now pkt nf)"
  by (cases rule: handlePacket_elim [of now pkt nf])
    (auto intro: tables_ok_credit tables_ok_pushDelayQueue)

lemma tables_ok_handleDelayEntry:
  "tables_ok (unix now) nf \<Longrightarrow> tables_ok (unix now) (snd (handleDelayEntry now e nf))"
  using owner_of_dict [of nf "de_addr e"]
  by (auto simp: handleDelayEntry_cases intro: tables_ok_credit split: option.split)

lemma tables_ok_rescan:
  assumes "rescanResouce env nf = Ret (err, nf')" "range_order (env_ord env)" "tables_ok ts nf"
  shows "tables_ok ts nf'" and "packetQueue nf' = packetQueue nf" "delayQueue nf' = delayQueue nf"
    "counter nf' = counter nf"
proof -
  have ok: "nf_pc_ok nf" "table_ok (connInodeHash nf)" "all_procs (proc_fine ts) (processHash nf) (heap nf)"
    using assms(3) by (simp_all add: tables_ok_def)
  note frame = rescanResouce_frame [OF assms(1,2) ok(1)]
  have "\<forall>pid. rescan_change (procs (processHash nf) (heap nf) pid) (procs (processHash nf') (heap nf') pid)"
    using conjunct1 [OF conjunct2 [OF frame]] by (simp add: procs_of_def)
  from all_procs_change [OF this ok(3)] have "all_procs (proc_fine ts) (processHash nf') (heap nf')"
    using proc_fine_inodes proc_fine_fresh by blast
  then have res: "tables_ok ts nf'" using frame ok(2) by (simp add: tables_ok_def)
  have nf': "nf' = nf\<lparr>connInodeHash := connInodeHash nf', processHash := processHash nf', heap := heap nf'\<rparr>"
    using frame by blast
  show "tables_ok ts nf'" by (rule res)
  show "packetQueue nf' = packetQueue nf" by (subst nf') simp
  show "delayQueue nf' = delayQueue nf" by (subst nf') simp
  show "counter nf' = counter nf" by (subst nf') simp
qed

text \<open>A ranking rejects the window and changes nothing, or analyses every process.\<close>

lemma GetProcessRank_frame:
  assumes "GetProcessRank ord clk limit sec (pm, h) = Ret (r, pm', h')" "range_order ord" "pc_ok pm h"
  obtains "pm' = pm" "h' = h"
    | "pc_ok pm' h'" "\<forall>pid. procs pm' h' pid = map_option (analyseStats (clk pid) sec) (procs pm h pid)"
proof (cases "int maxRingSize < sec")
  case True
  then show ?thesis using assms(1) that(1) by (simp add: GetProcessRank_def)
next
  case False
  have "Sort ord clk sec (pm, h) = Ret (pm', h')"
    using assms(1) False by (auto simp: GetProcessRank_def go_simps)
  then have h: "h' = analyse_all clk sec (ord (pc_dict pm)) h" and pm: "\<exists>ss. pm' = pm\<lparr>sortedProcesses := ss\<rparr>"
    by (auto simp: Sort_def Let_def go_simps)
  have "procs pm' h' pid = map_option (analyseStats (clk pid) sec) (procs pm h pid)" for pid
    using pm procs_analyse_all [OF assms(3,2), of clk sec pid] by (auto simp: h)
  moreover have "pc_ok pm' h'" using pm pc_ok_analyse_all [OF assms(3)] by (auto simp: h)
  ultimately show ?thesis using that(2) by blast
qed

lemma tables_ok_rank:
  assumes "GetProcessRank ord clk limit sec (processHash nf, heap nf) = Ret (r, pm, h)"
    "range_order ord" "tables_ok ts nf"
  shows "tables_ok ts (nf\<lparr>processHash := pm, heap := h\<rparr>)"
proof -
  have ok: "pc_ok (processHash nf) (heap nf)" and fine: "all_procs (proc_fine ts) (processHash nf) (heap nf)"
    using assms(3) by (simp_all add: tables_ok_def nf_pc_ok_def)
  show ?thesis
    using assms(1,2) ok
  proof (cases rule: GetProcessRank_frame)
    case 1
    then show ?thesis using assms(3) tables_ok_cong [of "nf\<lparr>processHash := pm, heap := h\<rparr>" nf] by simp
  next
    case 2
    have "all_procs (proc_fine ts) pm h"
      using fine proc_fine_analyseStats by (auto simp: all_procs_def 2(2))
    then show ?thesis using assms(3) 2(1) by (simp add: tables_ok_def nf_pc_ok_def)
  qed
qed

lemma tables_ok_cleanup:
  "tables_ok ts nf \<Longrightarrow> tables_ok ts (nf\<lparr>connInodeHash := Cleanup now x (connInodeHash nf)\<rparr>)"
  by (auto simp: tables_ok_def nf_pc_ok_def)

lemma appended_send [simp]: "appended q (chan_send x q) = [x]" "appended q q = []"
  by (simp_all add: appended_def chan_send_def)

lemma queue_ok_send: "queue_ok q \<Longrightarrow> chan_room q \<Longrightarrow> queue_ok (chan_send x q)"
  by (simp add: queue_ok_def ch.ok_enq frame_simps)

lemma queue_ok_recv: "queue_ok q \<Longrightarrow> chan_recv q = Some (x, q') \<Longrightarrow> queue_ok q' \<and> chan_buf q = x # chan_buf q'"
  using ch.deq_Some [of q x q'] by (simp add: queue_ok_def chan_cap_recv)

lemma dequeue_cases:
  assumes "dequeue sel nf = Some (r, nf')"
  obtains (recv) q where "chan_recv (packetQueue nf) = Some (r, q)" "nf' = nf\<lparr>packetQueue := q\<rparr>"
    | (ended) "r = None" "nf' = nf"
proof (cases "nf_done nf \<and> sel")
  case True
  then show ?thesis using assms ended by (simp add: dequeue_def)
next
  case False
  show ?thesis
  proof (cases "chan_recv (packetQueue nf)")
    case None
    then show ?thesis using assms ended by (simp add: dequeue_def split: if_splits)
  next
    case (Some x)
    obtain pkt q where "x = (pkt, q)" by force
    then show ?thesis using assms recv [of q] False Some by (auto simp: dequeue_def)
  qed
qed

lemma drain_iter_cases:
  assumes "drain_iter sel now lastTime (entry, nf) = (again, entry', nf')"
  obtains (idle) "\<not> again" "entry' = entry" "nf' = nf"
    | (wait) e q where "\<not> again" "entry = None" "chan_recv (delayQueue nf) = Some (e, q)"
        "entry' = Some e" "nf' = nf\<lparr>delayQueue := q\<rparr>"
    | (own) e where "again" "entry = Some e" "entry' = None" "nf' = snd (handleDelayEntry now e nf)"
    | (recv) e q where "again" "entry = None" "chan_recv (delayQueue nf) = Some (e, q)"
        "entry' = None" "nf' = snd (handleDelayEntry now e (nf\<lparr>delayQueue := q\<rparr>))"
proof (cases entry)
  case (Some e)
  then show ?thesis
    using assms idle own [of e] by (simp add: drain_iter_def split: if_splits)
next
  case None
  show ?thesis
  proof (cases "(nf_done nf \<and> sel) \<or> chan_recv (delayQueue nf) = None")
    case True
    then have "consumeDelayQueue sel nf = (None, nf)" by (auto simp: consumeDelayQueue_def)
    then show ?thesis
      using assms None idle by (simp add: drain_iter_def)
  next
    case False
    then obtain e q where q: "chan_recv (delayQueue nf) = Some (e, q)" by fastforce
    with False have c: "consumeDelayQueue sel nf = (Some e, nf\<lparr>delayQueue := q\<rparr>)"
      by (simp add: consumeDelayQueue_def)
    show ?thesis
      using assms None c wait [of e q] recv [of e q] q by (simp add: drain_iter_def split: if_splits)
  qed
qed

section \<open>The invariant is inductive\<close>

lemma pushDelayQueue_queue:
  assumes "queue_ok (delayQueue nf)"
  shows "queue_ok (delayQueue (pushDelayQueue de nf)) \<and>
    chan_buf (delayQueue (pushDelayQueue de nf)) =
      chan_buf (delayQueue nf) @ appended (delayQueue nf) (delayQueue (pushDelayQueue de nf))"
proof (cases "chan_room (delayQueue nf)")
  case True
  then have "delayQueue (pushDelayQueue de nf) = chan_send de (delayQueue nf)"
    by (simp add: pushDelayQueue_def)
  then show ?thesis using assms True queue_ok_send by (simp add: ch.contents_enq queue_ok_def)
next
  case False
  then show ?thesis using assms by (simp add: pushDelayQueue_def)
qed

lemma handlePacket_queue:
  assumes "queue_ok (delayQueue nf)"
  shows "queue_ok (delayQueue (handlePacket now pkt nf)) \<and>
    chan_buf (delayQueue (handlePacket now pkt nf)) =
      chan_buf (delayQueue nf) @ appended (delayQueue nf) (delayQueue (handlePacket now pkt nf))"
proof (cases rule: handlePacket_elim [of now pkt nf])
  case ignored
  then show ?thesis using assms by simp
next
  case (credited a len side)
  then show ?thesis using assms by (simp add: frame_simps)
next
  case (delayed de)
  show ?thesis unfolding delayed(1) by (rule pushDelayQueue_queue [OF assms])
qed

lemma tables_ok_enqueue: "tables_ok ts nf \<Longrightarrow> tables_ok ts (enqueue pkt nf)"
  using tables_ok_cong [of "enqueue pkt nf" nf] by (simp add: enqueue_def incrCounter_def)

lemma pending_cong: "delayQueue nf' = delayQueue nf \<Longrightarrow> pending (entry, nf') = pending (entry, nf)"
  by (simp add: pending_def)

lemma enqueue_queue:
  assumes "queue_ok (packetQueue nf)" "in_int64 (counter nf)"
  shows "queue_ok (packetQueue (enqueue pkt nf)) \<and>
    chan_buf (packetQueue (enqueue pkt nf)) =
      chan_buf (packetQueue nf) @ appended (packetQueue nf) (packetQueue (enqueue pkt nf)) \<and>
    counter (enqueue pkt nf) =
      wrap64 (counter nf + int (length (appended (packetQueue nf) (packetQueue (enqueue pkt nf))))) \<and>
    delayQueue (enqueue pkt nf) = delayQueue nf"
proof (cases "chan_room (packetQueue nf)")
  case True
  then have "packetQueue (enqueue pkt nf) = chan_send pkt (packetQueue nf)"
    "counter (enqueue pkt nf) = wrap64 (counter nf + 1)" "delayQueue (enqueue pkt nf) = delayQueue nf"
    by (simp_all add: enqueue_def incrCounter_def)
  then show ?thesis using assms True queue_ok_send by (simp add: ch.contents_enq queue_ok_def)
next
  case False
  then show ?thesis using assms by (simp add: enqueue_def wrap64_id)
qed

lemma inv_forward:
  assumes "sys_inv s" "chan_recv (sy_capture s dev) = Some (pkt, c)" "nf = enqueue pkt (sy_nf s)"
  shows "sys_inv (s\<lparr>sy_capture := (sy_capture s)(dev := c), sy_nf := nf,
      sy_in := sy_in s @ appended (packetQueue (sy_nf s)) (packetQueue nf)\<rparr>)"
proof -
  have q: "queues_ok s" and t: "tables_ok (unix (sy_now s)) nf"
    using assms(1,3) tables_ok_enqueue by (simp_all add: sys_inv_def)
  have "chan_ok c" using q ch.deq_Some [OF _ assms(2)] by (simp add: queues_ok_def)
  moreover have "in_int64 (counter (sy_nf s))"
    using q wrap64_range by (simp add: queues_ok_def)
  ultimately have "queues_ok (s\<lparr>sy_capture := (sy_capture s)(dev := c), sy_nf := nf,
      sy_in := sy_in s @ appended (packetQueue (sy_nf s)) (packetQueue nf)\<rparr>)"
    using q enqueue_queue [of "sy_nf s" pkt] pending_cong [of nf "sy_nf s" "sy_entry s"]
    by (simp add: queues_ok_def assms(3) add.assoc)
  then show ?thesis using t by (simp add: sys_inv_def)
qed

lemma tables_ok_queue [simp]:
  "tables_ok ts (nf\<lparr>packetQueue := q\<rparr>) = tables_ok ts nf"
  "tables_ok ts (nf\<lparr>delayQueue := dq\<rparr>) = tables_ok ts nf"
  "tables_ok ts (nf\<lparr>nf_workers := n\<rparr>) = tables_ok ts nf"
  by (simp_all add: tables_ok_def nf_pc_ok_def)

lemma inv_handle:
  assumes "sys_inv s" "dequeue sel (sy_nf s) = Some (Some pkt, nf1)" "nf = handlePacket (sy_now s) pkt nf1"
  shows "sys_inv (s\<lparr>sy_nf := nf, sy_out := sy_out s @ [Some pkt],
      sy_pushed := sy_pushed s @ appended (delayQueue nf1) (delayQueue nf)\<rparr>)"
proof -
  obtain q where q: "chan_recv (packetQueue (sy_nf s)) = Some (Some pkt, q)"
    and nf1: "nf1 = (sy_nf s)\<lparr>packetQueue := q\<rparr>"
    using assms(2) by (auto elim: dequeue_cases)
  have inv: "queues_ok s" and t: "tables_ok (unix (sy_now s)) nf"
    using assms(1,3) nf1 tables_ok_handlePacket by (simp_all add: sys_inv_def)
  have "delayQueue nf1 = delayQueue (sy_nf s)" by (simp add: nf1)
  then have d: "queue_ok (delayQueue nf) \<and>
      chan_buf (delayQueue nf) = chan_buf (delayQueue (sy_nf s)) @ appended (delayQueue nf1) (delayQueue nf)"
    using handlePacket_queue [of nf1 "sy_now s" pkt] inv by (simp add: queues_ok_def assms(3))
  have p: "packetQueue nf = q" "counter nf = counter (sy_nf s)"
    by (simp_all add: assms(3) frame_simps nf1)
  have "queue_ok q \<and> chan_buf (packetQueue (sy_nf s)) = Some pkt # chan_buf q"
    by (rule queue_ok_recv [OF _ q]) (use inv in \<open>simp add: queues_ok_def\<close>)
  then have "queues_ok (s\<lparr>sy_nf := nf, sy_out := sy_out s @ [Some pkt],
      sy_pushed := sy_pushed s @ appended (delayQueue nf1) (delayQueue nf)\<rparr>)"
    using inv d p by (simp add: queues_ok_def pending_def)
  then show ?thesis using t by (simp add: sys_inv_def)
qed

lemma inv_return:
  assumes "sys_inv s" "dequeue sel (sy_nf s) = Some (None, nf)"
  shows "sys_inv (s\<lparr>sy_nf := nf\<lparr>nf_workers := nf_workers nf - 1\<rparr>,
      sy_out := sy_out s @ (if packetQueue nf = packetQueue (sy_nf s) then [] else [None])\<rparr>)"
  using assms(2)
proof (cases rule: dequeue_cases)
  case (recv q)
  have q: "queue_ok q \<and> chan_buf (packetQueue (sy_nf s)) = None # chan_buf q"
    by (rule queue_ok_recv [OF _ recv(1)]) (use assms(1) in \<open>simp add: sys_inv_def queues_ok_def\<close>)
  then have "q \<noteq> packetQueue (sy_nf s)" by auto
  with q recv(2) assms(1) show ?thesis by (simp add: sys_inv_def queues_ok_def pending_def)
next
  case ended
  with assms(1) show ?thesis by (simp add: sys_inv_def queues_ok_def pending_def)
qed

lemma inv_drain:
  assumes "sys_inv s"
    "drain_iter sel (sy_now s) lastTime (sy_entry s, sy_nf s) = (again, entry, nf)"
  shows "sys_inv (s\<lparr>sy_nf := nf, sy_entry := entry, sy_drain := dr,
      sy_taken := sy_taken s @ (if again then take 1 (pending (sy_entry s, sy_nf s)) else [])\<rparr>)"
  using assms(2)
proof (cases rule: drain_iter_cases)
  case idle
  with assms(1) show ?thesis by (simp add: sys_inv_def queues_ok_def)
next
  case (wait e q)
  with assms(1) queue_ok_recv [of "delayQueue (sy_nf s)" e q] show ?thesis
    by (simp add: sys_inv_def queues_ok_def pending_def)
next
  case (own e)
  with assms(1) tables_ok_handleDelayEntry show ?thesis
    by (simp add: sys_inv_def queues_ok_def pending_def frame_simps)
next
  case (recv e q)
  with assms(1) tables_ok_handleDelayEntry queue_ok_recv [of "delayQueue (sy_nf s)" e q] show ?thesis
    by (simp add: sys_inv_def queues_ok_def pending_def frame_simps)
qed

lemma queues_ok_frame:
  assumes "queues_ok s" "packetQueue nf = packetQueue (sy_nf s)" "delayQueue nf = delayQueue (sy_nf s)"
    "counter nf = counter (sy_nf s)"
  shows "queues_ok (s\<lparr>sy_nf := nf\<rparr>)"
  using assms by (simp add: queues_ok_def pending_def)

lemma inv_step: "sys_step s s' \<Longrightarrow> sys_inv s \<Longrightarrow> sys_inv s'"
proof (induction rule: sys_step.induct)
  case (clock s t)
  then show ?case
    using tables_ok_mono [OF _ unix_mono] by (auto simp: sys_inv_def queues_ok_def)
next
  case (capture dev s pkt)
  have "chan_ok (capture pkt c)" if "chan_ok c" for c :: "packet option chan"
    using that by (simp add: Engine.capture_def ch.ok_enq)
  with capture show ?case by (simp add: sys_inv_def queues_ok_def)
next
  case (first_scan s env err nf)
  then have "tables_ok (unix (sy_now s)) (sy_nf s)" by (simp add: sys_inv_def)
  note res = tables_ok_rescan [OF first_scan(4,3) this]
  have "queues_ok (s\<lparr>sy_nf := nf\<rparr>)"
    by (rule queues_ok_frame) (use first_scan.prems res in \<open>simp_all add: sys_inv_def\<close>)
  with res(1) show ?case by (simp add: sys_inv_def queues_ok_def)
next
  case (rescan s env err nf)
  then have "tables_ok (unix (sy_now s)) (sy_nf s)" by (simp add: sys_inv_def)
  note res = tables_ok_rescan [OF rescan(4,3) this]
  have "queues_ok (s\<lparr>sy_nf := nf\<rparr>)"
    by (rule queues_ok_frame) (use rescan.prems res in \<open>simp_all add: sys_inv_def\<close>)
  with res(1) show ?case by (simp add: sys_inv_def queues_ok_def)
next
  case (rank ord clk limit sec s prank pm h)
  then show ?case
    using tables_ok_rank [OF rank(2,1)] queues_ok_frame [of s "(sy_nf s)\<lparr>processHash := pm, heap := h\<rparr>"]
    by (simp add: sys_inv_def)
next
  case (cleanup s)
  then show ?case
    using tables_ok_cleanup queues_ok_frame [of s "(sy_nf s)\<lparr>connInodeHash := c\<rparr>" for c]
    by (simp add: sys_inv_def)
next
  case (stop s)
  then show ?case
    using tables_ok_cong [of "Stop (sy_nf s)" "sy_nf s"] queues_ok_frame [of s "Stop (sy_nf s)"]
    by (simp add: sys_inv_def Stop_def finalize_def)
qed (simp_all add: inv_forward inv_handle inv_return inv_drain)

lemma inv_start:
  assumes "pristine nf"
  shows "sys_inv (sys_start now nf)"
  using assms
  by (simp add: sys_inv_def sys_start_def tables_ok_def queues_ok_def queue_ok_def pristine_def
      nf_pc_ok_def pc_ok_def empty_store_def store_ok_def all_procs_def procs_def pending_def
      make_chan_def chan_ok_def wrap64_def)

text \<open>Every state the program can reach satisfies the invariant.\<close>

lemma reachable_inv: "reachable s \<Longrightarrow> sys_inv s"
proof (induction rule: reachable.induct)
  case (start devices opts nf0 create_err cgroup_err nf now)
  then show ?case by (blast intro: inv_start Start_pristine New_pristine)
next
  case (step s s')
  then show ?case by (blast intro: inv_step)
qed

end
