(* ===== verification/Attribution.thy ===== *)
theory Attribution
  imports Sync
begin

text \<open>
  The path of a packet from the wire to the process it is credited to, put together from the components:
  at once when the tables know its connection, with the next tick otherwise.
\<close>

section \<open>Packets after a rescan\<close>

lemma rescanned_frame:
  assumes "rescanned env rows pids nf nf'"
  shows "nf_pc_ok nf'" "delayQueue nf' = delayQueue nf" "bindIPs nf' = bindIPs nf" "nf_done nf' = nf_done nf"
    "packetQueue nf' = packetQueue nf"
    "procs_of nf' pid = map_option (merge_scan (procs_of nf pid))
       (scan_result (env_fs env) (filterPName (processHash nf)) pids pid)"
proof -
  have eq: "nf' = nf\<lparr>connInodeHash := connInodeHash nf', processHash := processHash nf', heap := heap nf'\<rparr>"
    using assms unfolding rescanned_def by blast
  show "nf_pc_ok nf'" using assms by (simp add: rescanned_def)
  show "delayQueue nf' = delayQueue nf" by (subst eq) simp
  show "bindIPs nf' = bindIPs nf" by (subst eq) simp
  show "nf_done nf' = nf_done nf" by (subst eq) simp
  show "packetQueue nf' = packetQueue nf" by (subst eq) simp
  show "procs_of nf' pid = map_option (merge_scan (procs_of nf pid))
       (scan_result (env_fs env) (filterPName (processHash nf)) pids pid)"
    using assms by (simp add: rescanned_def)
qed

lemma known_packet_credited:
  assumes "rescanned env rows pids nf nf'" "key_of_process env rows pids (packet_key ip tcp) pid"
    "pkt_ipv4 pkt = Some ip" "pkt_tcp pkt = Some tcp"
  shows "procs_of (handlePacket now pkt nf') q =
      (if q = pid
       then map_option (\<lambda>p. increaseProcessTraffic now p (wrap64 (packet_size ip tcp))
              (determineSide nf (ip_string (ip_SrcIP ip)))) (procs_of nf' q)
       else procs_of nf' q)"
    and "delayQueue (handlePacket now pkt nf') = delayQueue nf"
proof -
  note frame = rescanned_frame [OF assms(1)]
  have own: "owned_by nf' (packet_key ip tcp) pid" by (rule owned_by_rescanned [OF assms(1,2)])
  then have "owned_by nf' (packet_key ip tcp) q \<longleftrightarrow> q = pid" for q
    using owned_by_unique [OF frame(1)] by blast
  then show "procs_of (handlePacket now pkt nf') q =
      (if q = pid
       then map_option (\<lambda>p. increaseProcessTraffic now p (wrap64 (packet_size ip tcp))
              (determineSide nf (ip_string (ip_SrcIP ip)))) (procs_of nf' q)
       else procs_of nf' q)"
    by (simp add: procs_of_handlePacket [OF frame(1) assms(3,4)] determineSide_cong [OF frame(3)])
  show "delayQueue (handlePacket now pkt nf') = delayQueue nf"
    using own by (auto simp: owned_by_def handlePacket_cases [OF assms(3,4)] frame_simps frame)
qed

section \<open>Ticks\<close>

text \<open>A tick whose rescan succeeds, before the context is done.\<close>

lemma tick_result:
  assumes "scan_fine env (filterPName (processHash nf)) header rows pids" "nf_pc_ok nf" "\<not> nf_done nf"
  shows "\<exists>nf1 entry' nf2. rescanned env rows pids nf nf1 \<and>
    tick env lastTime sel clk (entry, nf) = Ret (entry', nf2) \<and>
    pending (entry', nf2) = dropWhile (\<lambda>e. de_timestamp e \<le> lastTime) (pending (entry, nf)) \<and>
    (\<forall>pid. procs_of nf2 pid =
       map_option (account (delay_events nf1 clk
           (takeWhile (\<lambda>e. de_timestamp e \<le> lastTime) (pending (entry, nf))) pid)) (procs_of nf1 pid))"
proof -
  obtain nf1 where nf1: "rescanResouce env nf = Ret (None, nf1)" "rescanned env rows pids nf nf1"
    using rescanResouce_result [OF assms(1,2)] by blast
  note frame = rescanned_frame [OF nf1(2)]
  obtain entry' nf2 where d: "drain sel clk lastTime (entry, nf1) = (entry', nf2)" by force
  have pend: "pending (entry, nf1) = pending (entry, nf)" by (simp add: pending_def frame(2))
  let ?es = "takeWhile (\<lambda>e. de_timestamp e \<le> lastTime) (pending (entry, nf))"
  have res: "pending (entry', nf2) = dropWhile (\<lambda>e. de_timestamp e \<le> lastTime) (pending (entry, nf))"
    and nf2: "nf2 = (handle_entries clk ?es nf1)\<lparr>delayQueue := delayQueue nf2\<rparr>"
    using drain_result [OF _ d] assms(3) frame(4) by (simp_all add: pend)
  have "procs_of nf2 pid = procs_of (handle_entries clk ?es nf1) pid" for pid
    by (subst nf2) (simp add: procs_of_def)
  then have "procs_of nf2 pid = map_option (account (delay_events nf1 clk ?es pid)) (procs_of nf1 pid)" for pid
    using procs_of_handle_entries [OF frame(1)] by simp
  then show ?thesis
    using nf1 d res by (intro exI [of _ nf1] exI [of _ entry'] exI [of _ nf2]) (simp add: tick_def)
qed

text \<open>
  A packet of a connection the tables do not know yet waits in the delay queue and is credited by
  the next tick that sees the connection and its process.
\<close>

lemma delayed_packet_credited:
  assumes fine: "scan_fine env (filterPName (processHash nf)) header rows pids"
    and ok: "nf_pc_ok nf" "\<not> nf_done nf"
    and empty: "chan_buf (delayQueue nf) = []" "0 < chan_cap (delayQueue nf)"
    and key: "key_of_process env rows pids (packet_key ip tcp) pid"
    and pkt: "pkt_ipv4 pkt = Some ip" "pkt_tcp pkt = Some tcp"
    and unknown: "owner_of nf (packet_key ip tcp) = None" and "now \<le> lastTime"
  shows "\<exists>nf2. tick env lastTime sel clk (None, handlePacket now pkt nf) = Ret (None, nf2) \<and>
    chan_buf (delayQueue nf2) = [] \<and>
    (\<forall>q. procs_of nf2 q =
       map_option (\<lambda>po. account (if q = pid
           then [(clk 0, determineSide nf (ip_string (ip_SrcIP ip)), wrap64 (packet_size ip tcp))] else [])
           (merge_scan (procs_of nf q) po))
         (scan_result (env_fs env) (filterPName (processHash nf)) pids q))"
proof -
  let ?de = "delay_entry nf now ip tcp" and ?nf = "handlePacket now pkt nf"
  have "?nf = pushDelayQueue ?de nf" using unknown by (simp add: handlePacket_cases [OF pkt])
  then have pend: "pending (None, ?nf) = [?de]"
    using empty by (simp add: pending_def pushDelayQueue_def chan_room_def chan_send_def)
  have procs0: "procs_of ?nf q = procs_of nf q" for q
    using \<open>?nf = pushDelayQueue ?de nf\<close> by (simp add: procs_of_def frame_simps)
  have "scan_fine env (filterPName (processHash ?nf)) header rows pids"
    "nf_pc_ok ?nf" "\<not> nf_done ?nf" using fine ok by (auto simp: frame_simps)
  from tick_result [OF this, of lastTime sel clk None] obtain nf1 entry' nf2 where
    nf1: "rescanned env rows pids ?nf nf1"
    and t: "tick env lastTime sel clk (None, ?nf) = Ret (entry', nf2)"
    and p: "pending (entry', nf2) = dropWhile (\<lambda>e. de_timestamp e \<le> lastTime) [?de]"
    and procs: "\<And>q. procs_of nf2 q = map_option (account (delay_events nf1 clk
           (takeWhile (\<lambda>e. de_timestamp e \<le> lastTime) [?de]) q)) (procs_of nf1 q)"
    unfolding pend by blast
  have old: "de_timestamp ?de \<le> lastTime" using \<open>now \<le> lastTime\<close> by (simp add: delay_entry_def)
  then have none: "entry' = None" "chan_buf (delayQueue nf2) = []"
    using p by (auto simp: pending_def split: option.splits)
  note frame = rescanned_frame [OF nf1]
  have "owned_by nf1 (packet_key ip tcp) q \<longleftrightarrow> q = pid" for q
    using owned_by_rescanned [OF nf1 key] owned_by_unique [OF frame(1)] by blast
  then have "delay_events nf1 clk [?de] q =
      (if q = pid then [(clk 0, determineSide nf (ip_string (ip_SrcIP ip)), wrap64 (packet_size ip tcp))] else [])" for q
    by (simp add: delay_entry_def)
  then have "procs_of nf2 q =
       map_option (\<lambda>po. account (if q = pid
           then [(clk 0, determineSide nf (ip_string (ip_SrcIP ip)), wrap64 (packet_size ip tcp))] else [])
           (merge_scan (procs_of nf q) po))
         (scan_result (env_fs env) (filterPName (processHash nf)) pids q)" for q
    using procs [of q] old frame(6) [of q]
    by (simp add: procs0 frame_simps option.map_comp comp_def)
  then show ?thesis using t none by blast
qed

section \<open>The events of packets in order of time\<close>

lemma account1_stats: "TrafficStats (account1 p ev) = TrafficStats p"
  using rin.rec_other_fields rout.rec_other_fields
  by (cases ev) (simp add: account1_def increaseProcessTraffic_def split: sideOption.split)

lemma account_stats [simp]: "TrafficStats (account evs p) = TrafficStats p"
  by (induction evs rule: rev_induct) (simp_all add: account1_stats)

lemma packet_event_times: "ev \<in> set (packet_event nf pid tp) \<Longrightarrow> fst ev = fst tp"
  by (auto simp: packet_event_def split: option.splits if_splits)

lemma sorted_packet_event: "sorted (map fst (packet_event nf pid tp))"
  by (simp add: packet_event_def split: option.split)

lemma packet_events_times: "ev \<in> set (packet_events nf pkts pid) \<Longrightarrow> \<exists>tp\<in>set pkts. fst ev = fst tp"
  by (auto simp: packet_events_def dest: packet_event_times)

lemma sorted_packet_events: "sorted (map fst pkts) \<Longrightarrow> sorted (map fst (packet_events nf pkts pid))"
proof (induction pkts)
  case (Cons tp pkts)
  have "packet_events nf (tp # pkts) pid = packet_event nf pid tp @ packet_events nf pkts pid"
    by (simp add: packet_events_def)
  moreover have "fst x \<le> fst y" if "x \<in> set (packet_event nf pid tp)" "y \<in> set (packet_events nf pkts pid)" for x y
    using packet_event_times [OF that(1)] packet_events_times [OF that(2)] Cons.prems by auto
  ultimately show ?case
    using Cons sorted_packet_event [of nf pid tp] by (simp add: sorted_append)
qed (simp add: packet_events_def)

end
