(* ===== verification/History.thy ===== *)
theory History
  imports System Attribution
begin

text \<open>
  What a process of the table has received since it came into the table, over a whole run of the
  program: a log of traffic events per process, kept beside the run. It is defined by what workers take
  out of the packet queue and the syncer out of the delay queue, with the owner the tables name at that
  moment; the rings, the statistics and \<open>GetProcessRank\<close> play no part in it.
\<close>

section \<open>The log of a run\<close>

text \<open>The traffic one step is for a process, read off what the step has handled.\<close>

definition handled_event :: "sys \<Rightarrow> string \<Rightarrow> packet option \<Rightarrow> event list" where
  "handled_event s pid pkt =
     (case pkt of None \<Rightarrow> [] | Some pkt \<Rightarrow> packet_event (sy_nf s) pid (sy_now s, pkt))"

definition step_events :: "sys \<Rightarrow> sys \<Rightarrow> string \<Rightarrow> event list" where
  "step_events s s' pid =
     concat (map (handled_event s pid) (drop (length (sy_out s)) (sy_out s'))) @
     delay_events (sy_nf s) (\<lambda>_. sy_now s) (drop (length (sy_taken s)) (sy_taken s')) pid"

text \<open>A process that is not in the table has no log; one that comes into it starts with the empty one.\<close>

definition log_step :: "sys \<Rightarrow> sys \<Rightarrow> (string \<Rightarrow> event list) \<Rightarrow> string \<Rightarrow> event list" where
  "log_step s s' L pid = (if procs_of (sy_nf s) pid = None then [] else L pid @ step_events s s' pid)"

inductive logged :: "sys \<Rightarrow> (string \<Rightarrow> event list) \<Rightarrow> bool" where
  start: "New devices opts = Inr nf0 \<Longrightarrow> list_all library_option opts \<Longrightarrow>
    Start create_err cgroup_err nf0 = (None, nf) \<Longrightarrow> logged (sys_start now nf) (\<lambda>_. [])"
| step: "logged s L \<Longrightarrow> sys_step s s' \<Longrightarrow> logged s' (log_step s s' L)"

lemma logged_reachable: "logged s L \<Longrightarrow> reachable s"
  by (induction rule: logged.induct) (blast intro: reachable.intros)+

text \<open>Every run has a log.\<close>

lemma reachable_logged: "reachable s \<Longrightarrow> \<exists>L. logged s L"
  by (induction rule: reachable.induct) (blast intro: logged.intros)+

section \<open>The ring remembers it\<close>

definition remembers :: "time \<Rightarrow> event list \<Rightarrow> process \<Rightarrow> bool" where
  "remembers now evs p \<longleftrightarrow>
     recent (event_log evs) (Ring p) \<and> sorted (map fst evs) \<and> (\<forall>ev\<in>set evs. fst ev \<le> now)"

lemma remembers_fresh: "Ring p = [] \<Longrightarrow> remembers now [] p"
  by (simp add: remembers_def)

lemma remembers_Ring: "Ring q = Ring p \<Longrightarrow> remembers now evs q = remembers now evs p"
  by (simp add: remembers_def)

lemma remembers_mono: "remembers now evs p \<Longrightarrow> now \<le> now' \<Longrightarrow> remembers now' evs p"
  by (auto simp: remembers_def intro: order_trans)

lemma remembers_account1:
  assumes "remembers now evs p" "fst ev = now"
  shows "remembers now (evs @ [ev]) (account1 p ev)"
  using assms recent_account1 [of evs p ev] by (auto simp: remembers_def sorted_append simp del: event_log_snoc)

lemma remembers_account:
  "remembers now evs p \<Longrightarrow> \<forall>ev\<in>set new. fst ev = now \<Longrightarrow> remembers now (evs @ new) (account new p)"
proof (induction new rule: rev_induct)
  case (snoc ev new)
  then have "remembers now (evs @ new) (account new p)" by simp
  then have "remembers now ((evs @ new) @ [ev]) (account1 (account new p) ev)"
    using snoc.prems(2) by (intro remembers_account1) simp_all
  then show ?case by simp
qed simp

text \<open>The statistics a report computes are those of the log.\<close>

lemma remembers_stats:
  "remembers now evs p \<Longrightarrow> now \<le> clk \<Longrightarrow> 0 < sec \<Longrightarrow> sec \<le> 59 \<Longrightarrow>
     TrafficStats (analyseStats clk sec p) = Some (window_stats clk sec evs)"
  by (rule analyseStats_recent) (auto simp: remembers_def)

section \<open>What a step does to a process\<close>

text \<open>
  Either the process keeps its ring or a rescan has replaced it, and the step handles nothing; or it is
  fed exactly the events of the step.
\<close>

definition follows :: "time \<Rightarrow> event list \<Rightarrow> process option \<Rightarrow> process option \<Rightarrow> bool" where
  "follows now evs old new \<longleftrightarrow>
     (\<forall>ev\<in>set evs. fst ev = now) \<and>
     (\<forall>q. new = Some q \<longrightarrow>
        (case old of None \<Rightarrow> Ring q = [] | Some p \<Rightarrow> Ring q = Ring (account evs p)))"

lemma follows_same: "map_option Ring new = map_option Ring old \<Longrightarrow> follows now [] old new"
  by (cases old) (auto simp: follows_def)

lemma follows_change: "rescan_change old new \<Longrightarrow> follows now [] old new"
  by (auto simp: follows_def rescan_change_def split: option.splits)

lemma follows_account:
  "new = map_option (account evs) old \<Longrightarrow> \<forall>ev\<in>set evs. fst ev = now \<Longrightarrow> follows now evs old new"
  by (cases old) (auto simp: follows_def)

lemma handled_event_frame:
  assumes "processHash nf = processHash (sy_nf s)" "connInodeHash nf = connInodeHash (sy_nf s)"
    "bindIPs nf = bindIPs (sy_nf s)"
  shows "handled_event s pid (Some pkt) = packet_event nf pid (sy_now s, pkt)"
  using owned_by_cong [of nf "sy_nf s"] determineSide_cong [of nf "sy_nf s"] assms
  by (simp add: handled_event_def packet_event_def split: option.split)

lemma step_events_none:
  "sy_out s' = sy_out s \<Longrightarrow> sy_taken s' = sy_taken s \<Longrightarrow> step_events s s' pid = []"
  by (simp add: step_events_def)


lemma follows_rescan:
  assumes "rescanResouce env nf = Ret (err, nf')" "range_order (env_ord env)" "nf_pc_ok nf"
  shows "follows now [] (procs_of nf pid) (procs_of nf' pid)"
  using rescanResouce_frame [OF assms] by (intro follows_change) blast

lemma Ring_analyseStats: "Ring (analyseStats now sec p) = Ring p"
  by (simp add: analyseStats_def Let_def split: prod.split)

lemma follows_rank:
  assumes "GetProcessRank ord clk limit sec (processHash nf, heap nf) = Ret (r, pm, h)"
    and "range_order ord" "nf_pc_ok nf"
  shows "follows now [] (procs_of nf pid) (procs_of (nf\<lparr>processHash := pm, heap := h\<rparr>) pid)"
proof (rule follows_same)
  have "pc_ok (processHash nf) (heap nf)" using assms(3) by (simp add: nf_pc_ok_def)
  with assms(1,2) show "map_option Ring (procs_of (nf\<lparr>processHash := pm, heap := h\<rparr>) pid) = map_option Ring (procs_of nf pid)"
    by (cases rule: GetProcessRank_frame) (simp_all add: procs_of_def option.map_comp comp_def Ring_analyseStats)
qed

lemma packet_event_now: "\<forall>ev\<in>set (packet_event nf pid (now, pkt)). fst ev = now"
  using packet_event_times [of _ nf pid "(now, pkt)"] by auto

lemma follows_handlePacket:
  "nf_pc_ok nf \<Longrightarrow> follows now (packet_event nf pid (now, pkt)) (procs_of nf pid) (procs_of (handlePacket now pkt nf) pid)"
  by (rule follows_account) (simp_all add: procs_of_handle_one packet_event_now)

lemma follows_handleDelayEntry:
  assumes "nf_pc_ok nf"
  shows "follows now (delay_events nf (\<lambda>_. now) [e] pid) (procs_of nf pid)
    (procs_of (snd (handleDelayEntry now e nf)) pid)"
proof (rule follows_account)
  have "(\<lambda>p. increaseProcessTraffic now p (de_length e) (de_side e)) = account [(now, de_side e, de_length e)]"
    by (simp add: account_def account1_def fun_eq_iff)
  then show "procs_of (snd (handleDelayEntry now e nf)) pid =
      map_option (account (delay_events nf (\<lambda>_. now) [e] pid)) (procs_of nf pid)"
    by (simp add: procs_of_handleDelayEntry [OF assms])
qed simp

lemma step_follows:
  "sys_step s s' \<Longrightarrow> sys_inv s \<Longrightarrow>
     follows (sy_now s) (step_events s s' pid) (procs_of (sy_nf s) pid) (procs_of (sy_nf s') pid)"
proof (induction rule: sys_step.induct)
  case (handle s sel pkt nf1 nf)
  obtain q where nf1: "nf1 = (sy_nf s)\<lparr>packetQueue := q\<rparr>"
    using handle(2) by (auto elim: dequeue_cases)
  have "nf_pc_ok nf1" using handle.prems by (simp add: nf1 sys_inv_def tables_ok_def nf_pc_ok_def)
  from follows_handlePacket [OF this, of "sy_now s" pid pkt] show ?case
    using handled_event_frame [of nf1 s pid pkt]
    by (simp add: step_events_def handle(3)) (simp add: nf1 procs_of_def)
next
  case (return s sel nf)
  have "processHash nf = processHash (sy_nf s) \<and> heap nf = heap (sy_nf s)"
    using return(2) by (auto elim: dequeue_cases)
  then show ?case
    by (auto intro!: follows_same simp: step_events_def handled_event_def procs_of_def)
next
  case (drain s lastTime sel again entry nf)
  have ok: "nf_pc_ok (sy_nf s)" using drain.prems by (simp add: sys_inv_def tables_ok_def)
  from drain(2) show ?case
  proof (cases rule: drain_iter_cases)
    case (own e)
    then show ?thesis
      using follows_handleDelayEntry [OF ok, of "sy_now s" e pid]
      by (simp add: step_events_def pending_def)
  next
    case (recv e q)
    have front: "chan_buf (delayQueue (sy_nf s)) = e # chan_buf q"
      using queue_ok_recv [OF _ recv(3)] drain.prems by (simp add: sys_inv_def queues_ok_def)
    have "nf_pc_ok ((sy_nf s)\<lparr>delayQueue := q\<rparr>)" using ok by (simp add: nf_pc_ok_def)
    from follows_handleDelayEntry [OF this, of "sy_now s" e pid] show ?thesis
      using recv front
      by (simp add: step_events_def pending_def procs_of_def [of "(sy_nf s)\<lparr>delayQueue := q\<rparr>"])
        (simp add: procs_of_def owned_by_cong [of "(sy_nf s)\<lparr>delayQueue := q\<rparr>" "sy_nf s"] split: if_splits)
  qed (auto intro!: follows_same simp: step_events_none procs_of_def)
next
  case (first_scan s env err nf)
  then show ?case
    using follows_rescan [OF first_scan(4,3)] by (simp add: step_events_none sys_inv_def tables_ok_def)
next
  case (rescan s env err nf)
  then show ?case
    using follows_rescan [OF rescan(4,3)] by (simp add: step_events_none sys_inv_def tables_ok_def)
next
  case (rank ord clk limit sec s prank pm h)
  then show ?case
    using follows_rank [OF rank(2,1)] by (simp add: step_events_none sys_inv_def tables_ok_def)
qed (auto intro!: follows_same simp: step_events_def procs_of_def enqueue_def incrCounter_def Stop_def finalize_def)


section \<open>Every run\<close>

lemma sys_step_clock: "sys_step s s' \<Longrightarrow> sy_now s \<le> sy_now s'"
  by (induction rule: sys_step.induct) simp_all

lemma remembers_step:
  assumes "follows now evs old new" "new = Some q" "now \<le> now'"
    and "\<And>p. old = Some p \<Longrightarrow> remembers now L p"
  shows "remembers now' (if old = None then [] else L @ evs) q"
proof (cases old)
  case None
  then show ?thesis using assms(1,2) by (simp add: follows_def remembers_fresh)
next
  case (Some p)
  have "remembers now (L @ evs) (account evs p)"
    using assms(1,4) Some by (intro remembers_account) (simp_all add: follows_def)
  moreover have "Ring q = Ring (account evs p)" using assms(1,2) Some by (simp add: follows_def)
  ultimately have "remembers now (L @ evs) q" using remembers_Ring by blast
  then show ?thesis using remembers_mono [OF _ assms(3)] Some by simp
qed

lemma pristine_procs_of: "pristine nf \<Longrightarrow> procs_of nf pid = None"
  by (simp add: pristine_def procs_of_def procs_def)

text \<open>In every run the ring of each process is the recent part of its log.\<close>

lemma logged_remembers:
  "logged s L \<Longrightarrow> procs_of (sy_nf s) pid = Some p \<Longrightarrow> remembers (sy_now s) (L pid) p"
proof (induction arbitrary: p rule: logged.induct)
  case (start devices opts nf0 create_err cgroup_err nf now)
  have "pristine nf" using start(1-3) by (blast intro: Start_pristine New_pristine)
  then show ?case using start.prems pristine_procs_of [of nf pid] by (simp add: sys_start_def)
next
  case (step s L s')
  have "sys_inv s" using logged_reachable [OF step(1)] by (rule reachable_inv)
  from step_follows [OF step(2) this] show ?case
    unfolding log_step_def
    by (rule remembers_step [OF _ step.prems sys_step_clock [OF step(2)]]) (rule step.IH)
qed

text \<open>So every report over up to 59 seconds is exact, whatever has happened before.\<close>

lemma logged_report:
  assumes "logged s L" "range_order ord" "0 \<le> limit" "0 < sec" "sec \<le> 59" "\<forall>pid. sy_now s \<le> clk pid"
  shows "\<exists>prank pm h.
    GetProcessRank ord clk limit sec (processHash (sy_nf s), heap (sy_nf s)) = Ret (Inr prank, pm, h) \<and>
    top_ranked h (dict_addrs (processHash (sy_nf s))) limit prank \<and>
    (\<forall>pid. map_option TrafficStats (procs pm h pid) =
       map_option (\<lambda>_. Some (window_stats (clk pid) sec (L pid))) (procs_of (sy_nf s) pid))"
proof -
  have inv: "tables_ok (unix (sy_now s)) (sy_nf s)"
    using reachable_inv [OF logged_reachable [OF assms(1)]] by (simp add: sys_inv_def)
  then have "all_stats (processHash (sy_nf s)) (heap (sy_nf s))"
    unfolding all_stats_procs tables_ok_def by (auto intro: all_procs_mono simp: proc_fine_def)
  then obtain prank pm h where
    rank: "GetProcessRank ord clk limit sec (processHash (sy_nf s), heap (sy_nf s)) = Ret (Inr prank, pm, h)"
      "top_ranked h (dict_addrs (processHash (sy_nf s))) limit prank"
    and procs: "\<And>pid. procs pm h pid = map_option (analyseStats (clk pid) sec) (procs_of (sy_nf s) pid)"
    using GetProcessRank_result [of "processHash (sy_nf s)" "heap (sy_nf s)" ord limit sec clk] inv assms(2-5)
    by (auto simp: tables_ok_def nf_pc_ok_def maxRingSize_def procs_of_def)
  have "TrafficStats (analyseStats (clk pid) sec p) = Some (window_stats (clk pid) sec (L pid))"
    if "procs_of (sy_nf s) pid = Some p" for pid p
    using logged_remembers [OF assms(1) that] assms(4-6) by (intro remembers_stats) auto
  then have "map_option TrafficStats (procs pm h pid) =
      map_option (\<lambda>_. Some (window_stats (clk pid) sec (L pid))) (procs_of (sy_nf s) pid)" for pid
    by (cases "procs_of (sy_nf s) pid") (simp_all add: procs)
  then show ?thesis using rank by blast
qed


section \<open>No packet is counted twice\<close>

text \<open>The number of events in the logs of all processes of the table.\<close>

definition in_table :: "sys \<Rightarrow> string set" where
  "in_table s = {pid. procs_of (sy_nf s) pid \<noteq> None}"

definition logged_total :: "sys \<Rightarrow> (string \<Rightarrow> event list) \<Rightarrow> nat" where
  "logged_total s L = (\<Sum>pid\<in>in_table s. length (L pid))"

abbreviation waiting :: "sys \<Rightarrow> delayEntry list" where
  "waiting s \<equiv> pending (sy_entry s, sy_nf s)"

lemma finite_in_table: "finite (in_table s)"
proof (rule finite_subset)
  show "in_table s \<subseteq> fst ` set (pc_dict (processHash (sy_nf s)))"
    by (auto simp: in_table_def procs_of_def procs_def gm_get_def dest: map_of_SomeD split: option.splits
        intro!: image_eqI)
qed simp

lemma sum_owned:
  assumes "nf_pc_ok nf" "finite T"
  shows "(\<Sum>pid\<in>T. length (if owned_by nf key pid then [ev] else [])) \<le> (if owner_of nf key = None then 0 else 1)"
proof -
  have "card {pid \<in> T. owned_by nf key pid} \<le> (if owner_of nf key = None then 0 else 1)"
  proof (cases "{pid \<in> T. owned_by nf key pid} = {}")
    case False
    then obtain p where p: "owned_by nf key p" by auto
    then have "{pid \<in> T. owned_by nf key pid} \<subseteq> {p}" using owned_by_unique [OF assms(1)] by auto
    then have "card {pid \<in> T. owned_by nf key pid} \<le> card {p}" by (rule card_mono [rotated]) simp
    moreover have "owner_of nf key \<noteq> None" using p by (simp add: owned_by_def)
    ultimately show ?thesis by auto
  next
    case True
    then show ?thesis by (simp only: card.empty le0)
  qed
  moreover have "(\<Sum>pid\<in>T. length (if owned_by nf key pid then [ev] else [])) = card {pid \<in> T. owned_by nf key pid}"
    using assms(2) by (simp add: if_distrib sum.If_cases Int_def cong: if_cong)
  ultimately show ?thesis by simp
qed

lemma pushDelayQueue_pending:
  "length (pending (entry, pushDelayQueue de nf)) \<le> Suc (length (pending (entry, nf)))"
  by (simp add: pending_def pushDelayQueue_def chan_send_def)

text \<open>A handled packet becomes an event of one process or an entry that waits, never both.\<close>

lemma packet_once:
  assumes "nf_pc_ok nf" "finite T"
  shows "(\<Sum>pid\<in>T. length (packet_event nf pid (now, pkt))) + length (pending (entry, handlePacket now pkt nf))
    \<le> Suc (length (pending (entry, nf)))"
proof (cases "pkt_ipv4 pkt = None \<or> pkt_tcp pkt = None")
  case True
  then have "packet_event nf pid (now, pkt) = []" for pid
    by (auto simp: packet_event_def split: option.split)
  then show ?thesis using True by (simp add: handlePacket_other)
next
  case False
  then obtain ip tcp where layers: "pkt_ipv4 pkt = Some ip" "pkt_tcp pkt = Some tcp" by auto
  let ?key = "packet_key ip tcp"
  let ?ev = "(now, determineSide nf (ip_string (ip_SrcIP ip)), wrap64 (packet_size ip tcp))"
  have "(\<Sum>pid\<in>T. length (packet_event nf pid (now, pkt))) =
      (\<Sum>pid\<in>T. length (if owned_by nf ?key pid then [?ev] else []))"
    by (simp add: packet_event_def layers fst_conv if_distrib cong: if_cong)
  also have "\<dots> \<le> (if owner_of nf ?key = None then 0 else 1)" by (rule sum_owned [OF assms])
  finally show ?thesis
    using pushDelayQueue_pending [of entry _ nf]
    by (cases "owner_of nf ?key") (simp_all add: handlePacket_cases [OF layers] pending_def frame_simps)
qed

lemma entry_once:
  assumes "nf_pc_ok nf" "finite T"
  shows "(\<Sum>pid\<in>T. length (delay_events nf clk [e] pid)) \<le> 1"
  using sum_owned [OF assms, of "de_addr e" "(clk 0, de_side e, de_length e)"] by (simp split: if_splits)

lemma step_once:
  "sys_step s s' \<Longrightarrow> sys_inv s \<Longrightarrow> finite T \<Longrightarrow>
     (\<Sum>pid\<in>T. length (step_events s s' pid)) + length (waiting s') + length (sy_out s)
       \<le> length (waiting s) + length (sy_out s')"
proof (induction rule: sys_step.induct)
  case (handle s sel pkt nf1 nf)
  obtain q where nf1: "nf1 = (sy_nf s)\<lparr>packetQueue := q\<rparr>"
    using handle(2) by (auto elim: dequeue_cases)
  have "nf_pc_ok nf1" using handle.prems(1) by (simp add: nf1 sys_inv_def tables_ok_def nf_pc_ok_def)
  from packet_once [OF this handle.prems(2), of "sy_now s" pkt "sy_entry s"] show ?case
    using handled_event_frame [of nf1 s _ pkt]
    by (simp add: step_events_def handle(3)) (simp add: nf1 pending_def)
next
  case (drain s lastTime sel again entry nf)
  have ok: "nf_pc_ok (sy_nf s)" using drain.prems(1) by (simp add: sys_inv_def tables_ok_def)
  note once = entry_once [OF ok drain.prems(2), of "\<lambda>_. sy_now s"]
  from drain(2) show ?case
  proof (cases rule: drain_iter_cases)
    case (wait e q)
    then show ?thesis
      using queue_ok_recv [OF _ wait(3)] drain.prems(1)
      by (simp add: step_events_def pending_def sys_inv_def queues_ok_def)
  next
    case (own e)
    then show ?thesis using once [of e] by (simp add: step_events_def pending_def frame_simps)
  next
    case (recv e q)
    then show ?thesis
      using once [of e] queue_ok_recv [OF _ recv(3)] drain.prems(1)
      by (simp add: step_events_def pending_def sys_inv_def queues_ok_def frame_simps)
  qed (simp add: step_events_none)
next
  case (return s sel nf)
  have "delayQueue nf = delayQueue (sy_nf s)" using return(2) by (auto elim: dequeue_cases)
  then show ?case by (simp add: step_events_def handled_event_def pending_def)
next
  case (first_scan s env err nf)
  then have "tables_ok (unix (sy_now s)) (sy_nf s)" by (simp add: sys_inv_def)
  from tables_ok_rescan(3) [OF first_scan(4,3) this] show ?case by (simp add: step_events_none pending_def)
next
  case (rescan s env err nf)
  then have "tables_ok (unix (sy_now s)) (sy_nf s)" by (simp add: sys_inv_def)
  from tables_ok_rescan(3) [OF rescan(4,3) this] show ?case by (simp add: step_events_none pending_def)
qed (simp_all add: step_events_none pending_def enqueue_def incrCounter_def Stop_def finalize_def)

text \<open>So what the processes of the table have received, and what waits, was taken from the queue.\<close>

lemma logged_once: "logged s L \<Longrightarrow> logged_total s L + length (waiting s) \<le> length (sy_out s)"
proof (induction rule: logged.induct)
  case (start devices opts nf0 create_err cgroup_err nf now)
  have "pristine nf" using start by (blast intro: Start_pristine New_pristine)
  then show ?case
    by (simp add: logged_total_def sys_start_def pending_def pristine_def make_chan_def)
next
  case (step s L s')
  have inv: "sys_inv s" using logged_reachable [OF step(1)] by (rule reachable_inv)
  have "logged_total s' (log_step s s' L) \<le> (\<Sum>pid\<in>in_table s \<union> in_table s'. length (log_step s s' L pid))"
    unfolding logged_total_def using finite_in_table by (intro sum_mono2) auto
  also have "\<dots> = (\<Sum>pid\<in>in_table s. length (log_step s s' L pid))"
    using finite_in_table by (intro sum.mono_neutral_right) (auto simp: log_step_def in_table_def)
  also have "\<dots> = logged_total s L + (\<Sum>pid\<in>in_table s. length (step_events s s' pid))"
    unfolding logged_total_def sum.distrib [symmetric]
    by (rule sum.cong) (auto simp: log_step_def in_table_def)
  finally show ?case
    using step.IH step_once [OF step(2) inv finite_in_table [of s]] by linarith
qed

end
