(* ===== verification/Samples.thy ===== *)
theory Samples
  imports History
begin

text \<open>
  A small concrete machine on which the properties are instantiated: one established connection
  from 10.0.0.1:8080 to 10.0.0.2:40000, held by process 42 through socket inode 7777.
\<close>

definition sample_row :: tcp_row where
  "sample_row = \<lparr>row_sl = ''0:'', row_local = IPv4 10 0 0 1, row_lport = 8080,
     row_remote = IPv4 10 0 0 2, row_rport = 40000, row_st = ''01'', row_tx = 5, row_rx = 0,
     row_tr = ''00:00000000'', row_retrnsmt = ''00000000'', row_uid = 1000, row_timeout = ''0'',
     row_inode = ''7777'', row_rest = [''1'']\<rparr>"

definition sample_pads :: "nat list" where "sample_pads = [3, 0, 0, 0, 0, 0, 0, 4, 6, 0, 0]"

definition sample_rows :: "(nat list \<times> tcp_row) list" where
  "sample_rows = [(sample_pads, sample_row)]"

definition sample_header :: string where "sample_header = ''  sl  local_address rem_address''"

definition sample_file :: string where
  "sample_file = file_of [sample_header, row_text sample_pads sample_row]"

definition sample_fs :: procfs where
  "sample_fs =
     \<lparr>Glob = (\<lambda>p. if p = ''/proc/[0-9]*'' then Some [''/proc/42'']
                  else if p = ''/proc/42/fd/[0-9]*'' then Some [''/proc/42/fd/0'', ''/proc/42/fd/3'']
                  else None),
      Readlink = (\<lambda>p. if p = ''/proc/42/exe'' then Some ''/usr/bin/nginx''
                  else if p = ''/proc/42/fd/0'' then Some ''/dev/null''
                  else if p = ''/proc/42/fd/3'' then Some ''socket:[7777]''
                  else None)\<rparr>"

definition sample_env :: scan_env where
  "sample_env = \<lparr>env_open = (\<lambda>p. if p = procTCPFile then Some sample_file else None),
     env_users = None, env_fs = sample_fs, env_ord = (\<lambda>m. m), env_clk = (\<lambda>n. 7 * second),
     env_conns_first = True\<rparr>"

definition sample_nf :: netflow where
  "sample_nf = (new_base None)\<lparr>bindIPs := [(''10.0.0.1'', ())]\<rparr>"

definition sample_ip :: ipv4_layer where
  "sample_ip = \<lparr>ip_SrcIP = IPv4 10 0 0 1, ip_DstIP = IPv4 10 0 0 2, ip_IHL = 5\<rparr>"

definition sample_tcp :: tcp_layer where
  "sample_tcp = \<lparr>tcp_SrcPort = 8080, tcp_DstPort = 40000, tcp_DataOffset = 5,
     tcp_Payload = replicate 60 0\<rparr>"

definition sample_pkt :: packet where
  "sample_pkt = \<lparr>pkt_ipv4 = Some sample_ip, pkt_tcp = Some sample_tcp\<rparr>"

text \<open>An entry of the delay queue, a run of traffic, and a controller with one process.\<close>

definition sample_entry :: delayEntry where
  "sample_entry = \<lparr>de_timestamp = 5, de_times = 0, de_addr = ''a'', de_length = 1, de_side = inputSide\<rparr>"

definition minute_of_events :: "event list" where
  "minute_of_events = map (\<lambda>n. (int n * second, inputSide, 1)) [0..<61] @ [(60 * second, inputSide, 1)]"

definition sample_pc :: processController where
  "sample_pc = NewProcessController\<lparr>pc_dict := [(''42'', 0)], sortedProcesses := [0]\<rparr>"

definition sample_heap :: store where
  "sample_heap = \<lparr>cells = (\<lambda>_. None)(0 := Some (new_process ''42'' ''7777'' '''' '''')), next_addr = 1\<rparr>"

lemma sample_row_ok: "row_ok sample_row" "length sample_pads = length (row_fields sample_row)"
  by (simp_all add: row_ok_def sample_row_def plain_field_def is_space_def sample_pads_def row_fields_def)

lemma sample_rows_ok: "rows_ok sample_rows"
  by (simp add: rows_ok_def sample_rows_def sample_row_ok)

lemma sample_file_ok: "tcp_file (env_open sample_env) sample_header sample_rows"
proof -
  have "length (format_nat 1000) = 4" by code_simp
  then have len: "length (row_text sample_pads sample_row) < 65536"
    by (simp add: row_text_def row_line_def row_fields_def sample_pads_def sample_row_def proc_addr_def)
  have "scan_line sample_header" by (simp add: scan_line_def sample_header_def)
  then have "scan_file sample_file = ([sample_header, row_text sample_pads sample_row], None)"
    unfolding sample_file_def
    by (intro scan_file_of) (simp add: row_text_scan_line [OF sample_row_ok(1) len])
  then show ?thesis by (simp add: tcp_file_def sample_env_def sample_rows_def)
qed

lemma sample_links: "pid_links (env_fs sample_env) ''42'' = [''socket:[7777]'']"
  by (simp add: pid_links_def sample_env_def sample_fs_def socket_links_def HasPrefix_def socket_label_def)

lemma sample_proc_scan: "proc_scan (env_fs sample_env) '''' [''42'']"
proof -
  have "filepath_Base ''/proc/42'' = ''42''" by (simp add: filepath_Base_def)
  then have "getMatchingPIDs (env_fs sample_env) '''' = Inr [''42'']"
    by (simp add: getMatchingPIDs_def sample_env_def sample_fs_def)
  then show ?thesis
    by (simp add: proc_scan_def links_fine_def sample_links socket_label_def)
qed

lemma range_order_id [simp]: "range_order (\<lambda>m. m)"
  by (simp add: range_order_def)

lemma sample_fine: "scan_fine sample_env (filterPName (processHash sample_nf)) sample_header sample_rows [''42'']"
proof -
  have "filterPName (processHash sample_nf) = ''''"
    by (simp add: sample_nf_def new_base_def NewProcessController_def split: prod.split)
  then show ?thesis
    using sample_file_ok sample_rows_ok sample_proc_scan
    by (simp add: scan_fine_def) (simp add: sample_env_def)
qed

lemma sample_puts: "rows_puts sample_rows =
    [(spliceAddr (IPv4 10 0 0 1) 8080 (IPv4 10 0 0 2) 40000, ''7777''),
     (spliceAddr (IPv4 10 0 0 2) 40000 (IPv4 10 0 0 1) 8080, ''7777'')]"
  by (simp add: rows_puts_def sample_rows_def sample_row_def row_puts_def row_kept_def EstablishedSymbol_def)

lemma sample_key: "packet_key sample_ip sample_tcp = spliceAddr (IPv4 10 0 0 1) 8080 (IPv4 10 0 0 2) 40000"
  by (simp add: packet_key_def sample_ip_def sample_tcp_def)

lemma sample_owns: "scan_owns (env_fs sample_env) [''42''] q ''7777'' \<longleftrightarrow> q = ''42''"
proof -
  have "inode_of ''socket:[7777]'' = ''7777''" by (simp add: inode_of_def socket_label_def)
  then show ?thesis using sample_links by (auto simp: scan_owns_def)
qed

lemma sample_key_of: "key_of_process sample_env sample_rows [''42''] (packet_key sample_ip sample_tcp) ''42''"
  unfolding key_of_process_def sample_key sample_puts
  by (rule exI [of _ "''7777''"]) (simp add: sample_owns)

lemma sample_nf_ok: "nf_pc_ok sample_nf" "\<not> nf_done sample_nf"
  "pristine sample_nf"
  using pristine_base [of None]
  by (simp_all add: sample_nf_def nf_pc_ok_def pristine_def pc_ok_def store_ok_def empty_store_def
      new_base_def split: prod.splits)

section \<open>A reachable state\<close>

text \<open>Started with one device, after one packet has been captured and forwarded.\<close>

definition sample_devices :: "device list option" where
  "sample_devices = Some [\<lparr>dev_Name = ''eth0'', dev_Addresses = [(''10.0.0.1'', False), (''224.0.0.1'', True)]\<rparr>]"

definition sample_started :: netflow where
  "sample_started = (new_base sample_devices)
     \<lparr>nf_syncer := True, nf_sniffing := [''eth0''], nf_workers := 1, nf_timer := True\<rparr>"

definition sample_captured :: sys where
  "sample_captured = (sys_start 0 sample_started)\<lparr>sy_capture :=
     (\<lambda>_. make_chan captureQueueSize)(''eth0'' := \<lparr>chan_buf = [Some sample_pkt], chan_cap = captureQueueSize\<rparr>)\<rparr>"

definition sample_queued :: sys where
  "sample_queued = sample_captured\<lparr>sy_capture := (sy_capture sample_captured)(''eth0'' := make_chan captureQueueSize),
     sy_nf := enqueue (Some sample_pkt) sample_started, sy_in := [Some sample_pkt]\<rparr>"

lemma sample_devs: "parseIpaddrsAndDevices sample_devices = ([(''10.0.0.1'', ())], [(''eth0'', ())])"
  by (simp add: parseIpaddrsAndDevices_def sample_devices_def HasPrefix_def Let_def gm_set_def)

lemma sample_Start:
  "Start None None (new_base sample_devices) = (None, sample_started)"
  by (simp add: Start_def configurePersist_def configureCgroups_def startNetworkSniffer_def sample_devs
      new_base_def sample_started_def gm_keys_def defaultWorkerNum_def)

lemma sample_reachable: "reachable sample_queued"
proof -
  have "reachable (sys_start 0 sample_started)"
    by (rule reachable.start [OF _ _ sample_Start, of sample_devices "[]"]) (simp_all add: New_def)
  moreover have "sys_step (sys_start 0 sample_started) sample_captured"
  proof -
    have "chan_room (make_chan captureQueueSize :: packet option chan)"
      by (simp add: chan_room_def make_chan_def captureQueueSize_def)
    then have "capture (Some sample_pkt) (make_chan captureQueueSize)
        = \<lparr>chan_buf = [Some sample_pkt], chan_cap = captureQueueSize\<rparr>"
      by (simp add: Engine.capture_def chan_send_def) (simp add: make_chan_def)
    moreover have "''eth0'' \<in> set (nf_sniffing (sy_nf (sys_start 0 sample_started)))"
      by (simp add: sys_start_def sample_started_def)
    ultimately show ?thesis
      using sys_step.capture [of "''eth0''" "sys_start 0 sample_started" "Some sample_pkt"]
      by (simp add: sample_captured_def sys_start_def)
  qed
  moreover have "sys_step sample_captured sample_queued"
  proof -
    have recv: "chan_recv (sy_capture sample_captured ''eth0'') = Some (Some sample_pkt, make_chan captureQueueSize)"
      by (simp add: sample_captured_def chan_recv_def make_chan_def)
    have nf: "sy_nf sample_captured = sample_started" "sy_in sample_captured = []"
      by (simp_all add: sample_captured_def sys_start_def)
    have "packetQueue sample_started = make_chan (nat defaultQueueSize)"
      by (simp add: sample_started_def new_base_def split: prod.split)
    then have "appended (packetQueue sample_started) (packetQueue (enqueue (Some sample_pkt) sample_started))
        = [Some sample_pkt]"
      by (simp add: enqueue_def incrCounter_def chan_room_def) (simp add: make_chan_def defaultQueueSize_def)
    then show ?thesis
      using sys_step.forward [OF recv refl] by (simp add: sample_queued_def nf)
  qed
  ultimately show ?thesis by (blast intro: reachable.step)
qed


section \<open>A run with traffic\<close>

text \<open>Started, scanned, then one packet captured, forwarded and handled, all in the seventh second.\<close>

lemma sample_started_ok: "nf_pc_ok sample_started" "pristine sample_started"
proof -
  show "pristine sample_started"
    by (rule Start_pristine [OF _ sample_Start]) (rule pristine_base)
  then show "nf_pc_ok sample_started"
    by (simp add: pristine_def nf_pc_ok_def pc_ok_def store_ok_def empty_store_def)
qed

lemma sample_started_fields:
  "filterPName (processHash sample_started) = ''''" "nf_syncer sample_started" "\<not> nf_done sample_started"
  "nf_workers sample_started = 1" "nf_sniffing sample_started = [''eth0'']"
  "bindIPs sample_started = [(''10.0.0.1'', ())]"
  "packetQueue sample_started = make_chan (nat defaultQueueSize)"
  by (simp_all add: sample_started_def new_base_def NewProcessController_def sample_devs split: prod.split)

lemma sample_event:
  assumes "owned_by nf (packet_key sample_ip sample_tcp) pid" "bindIPs nf = [(''10.0.0.1'', ())]"
  shows "packet_event nf pid (t, sample_pkt) = [(t, outputSide, 100)]"
proof -
  have "ip_string (ip_SrcIP sample_ip) = ''10.0.0.1''" by (simp add: sample_ip_def) code_simp
  then have "determineSide nf (ip_string (ip_SrcIP sample_ip)) = outputSide"
    using assms(2) by (simp add: determineSide_def isBindIPs_def gm_get_Cons)
  moreover have "wrap64 (packet_size sample_ip sample_tcp) = 100"
    by (simp add: packet_size_def sample_ip_def sample_tcp_def wrap64_def)
  ultimately show ?thesis using assms(1) by (simp add: packet_event_def sample_pkt_def)
qed

lemma sample_scanned:
  obtains nf where "rescanResouce sample_env sample_started = Ret (None, nf)" "nf_pc_ok nf"
    "nf_workers nf = 1" "nf_sniffing nf = [''eth0'']" "packetQueue nf = make_chan 2000000" "\<not> nf_done nf"
    "\<forall>q. procs_of nf q \<noteq> None \<longleftrightarrow> q = ''42''"
    "packet_event nf ''42'' (7 * second, sample_pkt) = [(7 * second, outputSide, 100)]"
proof -
  have fine: "scan_fine sample_env (filterPName (processHash sample_started)) sample_header sample_rows [''42'']"
    using sample_fine by (simp add: sample_started_fields sample_nf_def new_base_def NewProcessController_def
        split: prod.splits)
  obtain nf where scan: "rescanResouce sample_env sample_started = Ret (None, nf)"
    and nf: "rescanned sample_env sample_rows [''42''] sample_started nf"
    using rescanResouce_result [OF fine sample_started_ok(1)] by blast
  note frame = rescanned_frame [OF nf]
  have eq: "nf = sample_started\<lparr>connInodeHash := connInodeHash nf, processHash := processHash nf, heap := heap nf\<rparr>"
    using nf unfolding rescanned_def by blast
  have rest: "nf_workers nf = 1" "nf_sniffing nf = [''eth0'']"
    by (subst eq, simp add: sample_started_fields)+
  have q: "packetQueue nf = make_chan 2000000" "\<not> nf_done nf"
    by (simp_all add: frame sample_started_fields defaultQueueSize_def)
  have known: "\<forall>q. procs_of nf q \<noteq> None \<longleftrightarrow> q = ''42''"
    by (simp add: frame(6) scan_result_def sample_links)
  have "owned_by nf (packet_key sample_ip sample_tcp) ''42''" by (rule owned_by_rescanned [OF nf sample_key_of])
  then have "packet_event nf ''42'' (7 * second, sample_pkt) = [(7 * second, outputSide, 100)]"
    by (rule sample_event) (simp add: frame(3) sample_started_fields)
  then show thesis using that scan frame(1) rest q known by blast
qed

lemma sample_logged:
  obtains s L where "logged s L" "sy_now s = 7 * second" "L ''42'' = [(7 * second, outputSide, 100)]"
    "\<forall>q. procs_of (sy_nf s) q \<noteq> None \<longleftrightarrow> q = ''42''"
proof -
  let ?s0 = "sys_start (7 * second) sample_started"
  have l0: "logged ?s0 (\<lambda>_. [])"
    by (rule logged.start [OF _ _ sample_Start, of sample_devices "[]"]) (simp_all add: New_def)
  obtain nf1 where nf1: "rescanResouce sample_env sample_started = Ret (None, nf1)" "nf_pc_ok nf1"
    "nf_workers nf1 = 1" "nf_sniffing nf1 = [''eth0'']" "packetQueue nf1 = make_chan 2000000" "\<not> nf_done nf1"
    "\<forall>q. procs_of nf1 q \<noteq> None \<longleftrightarrow> q = ''42''"
    "packet_event nf1 ''42'' (7 * second, sample_pkt) = [(7 * second, outputSide, 100)]"
    by (rule sample_scanned)
  let ?s1 = "?s0\<lparr>sy_nf := nf1, sy_scanned := True\<rparr>"
  let ?s2 = "?s1\<lparr>sy_capture := (sy_capture ?s1)(''eth0'' := capture (Some sample_pkt) (sy_capture ?s1 ''eth0''))\<rparr>"
  let ?nf3 = "enqueue (Some sample_pkt) nf1"
  let ?s3 = "?s2\<lparr>sy_capture := (sy_capture ?s2)(''eth0'' := make_chan captureQueueSize), sy_nf := ?nf3,
    sy_in := sy_in ?s2 @ appended (packetQueue (sy_nf ?s2)) (packetQueue ?nf3)\<rparr>"
  let ?nfd = "?nf3\<lparr>packetQueue := packetQueue nf1\<rparr>"
  let ?nf4 = "handlePacket (7 * second) sample_pkt ?nfd"
  let ?s4 = "?s3\<lparr>sy_nf := ?nf4, sy_out := sy_out ?s3 @ [Some sample_pkt],
    sy_pushed := sy_pushed ?s3 @ appended (delayQueue ?nfd) (delayQueue ?nf4)\<rparr>"
  have step1: "sys_step ?s0 ?s1"
    using sys_step.first_scan [of ?s0 sample_env None nf1] nf1(1)
    by (simp add: sys_start_def sample_started_fields) (simp add: sample_env_def)
  have step2: "sys_step ?s1 ?s2"
    by (rule sys_step.capture) (simp add: nf1(4))
  have room: "chan_room (make_chan captureQueueSize :: packet option chan)"
    by (simp add: chan_room_def make_chan_def captureQueueSize_def)
  then have "chan_recv (sy_capture ?s2 ''eth0'') = Some (Some sample_pkt, make_chan captureQueueSize)"
    by (simp add: sys_start_def Engine.capture_def chan_send_def) (simp add: make_chan_def chan_recv_def)
  then have step3: "sys_step ?s2 ?s3"
    using sys_step.forward [of ?s2 "''eth0''" "Some sample_pkt" _ ?nf3] by simp
  have "dequeue False (sy_nf ?s3) = Some (Some sample_pkt, ?nfd)"
    using nf1(5,6) by (simp add: dequeue_def enqueue_def incrCounter_def make_chan_def chan_room_def chan_send_def chan_recv_def)
  then have step4: "sys_step ?s3 ?s4"
    using sys_step.handle [of ?s3 False sample_pkt ?nfd ?nf4] nf1(3)
    by (simp add: enqueue_def incrCounter_def sys_start_def)
  let ?L = "log_step ?s3 ?s4 (log_step ?s2 ?s3 (log_step ?s1 ?s2 (log_step ?s0 ?s1 (\<lambda>_. []))))"
  have run: "logged ?s4 ?L" by (intro logged.step [OF _ step4] logged.step [OF _ step3] logged.step [OF _ step2] logged.step [OF l0 step1])
  have same: "procs_of nf q = procs_of nf1 q" if "nf = ?nf3 \<or> nf = ?nfd" for nf q
    using that by (auto simp: procs_of_def enqueue_def incrCounter_def)
  have "handled_event ?s3 ''42'' (Some sample_pkt) = [(7 * second, outputSide, 100)]"
    using handled_event_frame [of nf1 ?s3 "''42''" sample_pkt] nf1(8)
    by (simp add: enqueue_def incrCounter_def sys_start_def)
  then have "step_events ?s3 ?s4 ''42'' = [(7 * second, outputSide, 100)]"
    by (simp add: step_events_def)
  moreover have "step_events ?s0 ?s1 q = []" "step_events ?s1 ?s2 q = []" "step_events ?s2 ?s3 q = []" for q
    by (simp_all add: step_events_none)
  ultimately have "?L ''42'' = [(7 * second, outputSide, 100)]"
    using nf1(7) same [of ?nf3] by (simp add: log_step_def)
  moreover have "nf_pc_ok ?nfd" using nf1(2) by (auto simp: nf_pc_ok_def enqueue_def incrCounter_def)
  then have "\<forall>q. procs_of ?nf4 q \<noteq> None \<longleftrightarrow> q = ''42''"
    using nf1(7) same [of ?nfd] by (simp add: procs_of_handle_one)
  ultimately show thesis
    using run that [of ?s4 ?L] by (simp add: sys_start_def)
qed

end
