(* ===== verification/JsonText.thy ===== *)
theory JsonText
  imports GoStrings
begin

text \<open>
  String and number literals of \<open>encoding/json\<close>: UTF-8 as \<open>unicode/utf8\<close> decodes it, the escaping
  of \<open>json.Marshal\<close> (HTML characters and the line separators included), the unquoting of
  \<open>json.Unmarshal\<close> (surrogate pairs, the replacement rune for what is not a rune), and the scanning
  of numbers. A string is its bytes.
\<close>

section \<open>Texts that read back\<close>

text \<open>
  What a format promises to those who exchange texts in it: the values it can write are read back from
  what it writes. So it writes no two of them alike, and reading is onto them.
\<close>

locale codec =
  fixes ok :: "'a \<Rightarrow> bool" and enc :: "'a \<Rightarrow> string" and dec :: "string \<Rightarrow> 'a option"
  assumes dec_enc: "ok x \<Longrightarrow> dec (enc x) = Some x"
begin

lemma enc_inject: "ok x \<Longrightarrow> ok y \<Longrightarrow> enc x = enc y \<longleftrightarrow> x = y"
  by (metis dec_enc option.inject)

lemma dec_enc_list: "list_all ok xs \<Longrightarrow> those (map (dec \<circ> enc) xs) = Some xs"
  by (induction xs) (simp_all add: dec_enc)

end

section \<open>UTF-8\<close>

abbreviation code :: "char \<Rightarrow> nat" where
  "code c \<equiv> of_char c"

text \<open>The length of a rune and the range of its second byte, from its first byte.\<close>

definition lead :: "nat \<Rightarrow> (nat \<times> nat \<times> nat) option" where
  "lead b =
     (if b < 194 then None
      else if b \<le> 223 then Some (2, 128, 191)
      else if b = 224 then Some (3, 160, 191)
      else if b = 237 then Some (3, 128, 159)
      else if b \<le> 239 then Some (3, 128, 191)
      else if b = 240 then Some (4, 144, 191)
      else if b \<le> 243 then Some (4, 128, 191)
      else if b = 244 then Some (4, 128, 143)
      else None)"

definition in_range :: "nat \<Rightarrow> nat \<Rightarrow> char \<Rightarrow> bool" where
  "in_range lo hi c \<longleftrightarrow> lo \<le> code c \<and> code c \<le> hi"

text \<open>The number of bytes of the rune a string starts with; 0 if it does not start with one.\<close>

definition rune_len :: "string \<Rightarrow> nat" where
  "rune_len s =
     (case s of
        [] \<Rightarrow> 0
      | c # _ \<Rightarrow>
          if code c < 128 then 1
          else (case lead (code c) of
                  None \<Rightarrow> 0
                | Some (n, lo, hi) \<Rightarrow>
                    if n \<le> length s \<and> in_range lo hi (s ! 1) \<and> list_all (in_range 128 191) (drop 2 (take n s))
                    then n else 0))"

lemma lead_size: "lead b = Some (n, lo, hi) \<Longrightarrow> 2 \<le> n \<and> n \<le> 4"
  by (auto simp: lead_def split: if_splits)

lemma rune_len_le: "rune_len s \<le> length s"
  by (auto simp: rune_len_def split: list.splits option.splits)

lemma rune_len_ascii [simp]: "code c < 128 \<Longrightarrow> rune_len (c # cs) = 1"
  by (simp add: rune_len_def)

lemma rune_len_multi: "128 \<le> code c \<Longrightarrow> rune_len (c # cs) = 0 \<or> 2 \<le> rune_len (c # cs)"
  by (auto simp: rune_len_def split: option.splits dest: lead_size)

lemma rune_len_prefix:
  assumes "rune_len s = n" "0 < n"
  shows "rune_len (take n s @ r) = n"
proof -
  obtain c cs where s: "s = c # cs" using assms by (cases s) (auto simp: rune_len_def)
  obtain m where m: "n = Suc m" using assms(2) by (cases n) auto
  show ?thesis
  proof (cases "code c < 128")
    case True
    with assms show ?thesis by (simp add: s m)
  next
    case False
    with assms obtain lo hi where l: "lead (code c) = Some (n, lo, hi)" "n \<le> length s"
      "in_range lo hi (s ! 1)" "list_all (in_range 128 191) (drop 2 (take n s))"
      by (auto simp: rune_len_def s split: option.splits if_splits)
    have "2 \<le> n" using lead_size [OF l(1)] by simp
    then have nth: "(take n s @ r) ! 1 = s ! 1" using l(2) by (simp add: nth_append)
    have tk: "take n (take n s @ r) = take n s" using l(2) by simp
    define t where "t = take n s @ r"
    have "n \<le> length t" using l(2) by (simp add: t_def)
    moreover obtain d where d: "t = c # d" by (simp add: s m t_def)
    ultimately have "rune_len t = n"
      using False l(1,3,4) nth tk by (simp add: rune_len_def flip: t_def)
    then show ?thesis by (simp add: t_def)
  qed
qed

fun valid_utf8 :: "string \<Rightarrow> bool" where
  "valid_utf8 [] = True"
| "valid_utf8 (c # cs) = (0 < rune_len (c # cs) \<and> valid_utf8 (drop (rune_len (c # cs) - 1) cs))"

lemma ascii_utf8: "list_all (\<lambda>c. code c < 128) s \<Longrightarrow> valid_utf8 s"
  by (induction s) auto

text \<open>\<open>utf8.EncodeRune\<close> of a code point that is no surrogate.\<close>

definition utf8 :: "nat \<Rightarrow> string" where
  "utf8 r =
     map char_of
       (if r < 128 then [r]
        else if r < 2048 then [192 + r div 64, 128 + r mod 64]
        else if r < 65536 then [224 + r div 4096, 128 + r div 64 mod 64, 128 + r mod 64]
        else [240 + r div 262144, 128 + r div 4096 mod 64, 128 + r div 64 mod 64, 128 + r mod 64])"

definition replacement :: string where
  "replacement = utf8 65533"

section \<open>Writing strings\<close>

definition quote :: char where "quote = char_of (34 :: nat)"
definition backslash :: char where "backslash = char_of (92 :: nat)"

definition lower_hex :: "nat \<Rightarrow> char" where
  "lower_hex d = char_of (if d < 10 then 48 + d else 87 + d)"

text \<open>The escape of four hexadecimal digits.\<close>

definition u_escape :: "nat \<Rightarrow> string" where
  "u_escape r =
     [backslash, CHR ''u'', lower_hex (r div 4096 mod 16), lower_hex (r div 256 mod 16),
      lower_hex (r div 16 mod 16), lower_hex (r mod 16)]"

definition escape_char :: "char \<Rightarrow> string" where
  "escape_char c =
     (let b = code c in
      if b = 34 \<or> b = 92 then [backslash, c]
      else if b = 10 then [backslash, CHR ''n'']
      else if b = 13 then [backslash, CHR ''r'']
      else if b = 9 then [backslash, CHR ''t'']
      else if b < 32 \<or> b = 60 \<or> b = 62 \<or> b = 38 then u_escape b
      else [c])"

fun json_escape :: "string \<Rightarrow> string" where
  "json_escape [] = []"
| "json_escape (c # cs) =
     (if code c < 128 then escape_char c @ json_escape cs
      else (let n = rune_len (c # cs) in
            if n = 0 then u_escape 65533 @ json_escape cs
            else if take n (c # cs) = utf8 8232 then u_escape 8232 @ json_escape (drop (n - 1) cs)
            else if take n (c # cs) = utf8 8233 then u_escape 8233 @ json_escape (drop (n - 1) cs)
            else take n (c # cs) @ json_escape (drop (n - 1) cs)))"

definition json_quote :: "string \<Rightarrow> string" where
  "json_quote s = quote # json_escape s @ [quote]"

section \<open>Reading strings\<close>

definition hex_val :: "char \<Rightarrow> nat option" where
  "hex_val c = (case digit_val c of Some d \<Rightarrow> if d < 16 then Some d else None | None \<Rightarrow> None)"

fun hex4 :: "string \<Rightarrow> nat option" where
  "hex4 (a # b # c # d # _) =
     (case (hex_val a, hex_val b, hex_val c, hex_val d) of
        (Some a, Some b, Some c, Some d) \<Rightarrow> Some (a * 4096 + b * 256 + c * 16 + d)
      | _ \<Rightarrow> None)"
| "hex4 _ = None"

definition is_surrogate :: "nat \<Rightarrow> bool" where
  "is_surrogate r \<longleftrightarrow> 55296 \<le> r \<and> r < 57344"

text \<open>The low half of a surrogate pair, if the text goes on with an escape of one.\<close>

definition low_half :: "string \<Rightarrow> nat option" where
  "low_half s =
     (case s of
        b # u # r \<Rightarrow>
          if b = backslash \<and> u = CHR ''u''
          then (case hex4 r of Some l \<Rightarrow> if 56320 \<le> l \<and> l < 57344 then Some l else None | None \<Rightarrow> None)
          else None
      | _ \<Rightarrow> None)"

definition simple_escape :: "char \<Rightarrow> char option" where
  "simple_escape c =
     (let b = code c in
      if b = 34 \<or> b = 92 \<or> b = 47 then Some c
      else if c = CHR ''b'' then Some (char_of (8 :: nat))
      else if c = CHR ''f'' then Some (char_of (12 :: nat))
      else if c = CHR ''n'' then Some (char_of (10 :: nat))
      else if c = CHR ''r'' then Some (char_of (13 :: nat))
      else if c = CHR ''t'' then Some (char_of (9 :: nat))
      else None)"

definition put :: "string \<Rightarrow> (string \<times> string) option \<Rightarrow> (string \<times> string) option" where
  "put p r = map_option (\<lambda>(s, rest). (p @ s, rest)) r"

lemma put_Some [simp]: "put p (Some (s, r)) = Some (p @ s, r)"
  by (simp add: put_def)

lemma put_Some_iff: "put p m = Some (s, r) \<longleftrightarrow> (\<exists>t. m = Some (t, r) \<and> s = p @ t)"
  by (auto simp: put_def)

text \<open>
  One element of a string literal that starts with \<open>c\<close>: how many bytes after \<open>c\<close> belong to it, and
  the bytes it stands for.
\<close>

definition unescape :: "string \<Rightarrow> (nat \<times> string) option" where
  "unescape cs =
     (case cs of
        [] \<Rightarrow> None
      | e # es \<Rightarrow>
          if e = CHR ''u''
          then (case hex4 es of
                  None \<Rightarrow> None
                | Some r \<Rightarrow>
                    if is_surrogate r
                    then (case (if r < 56320 then low_half (drop 4 es) else None) of
                            Some l \<Rightarrow> Some (11, utf8 ((r - 55296) * 1024 + (l - 56320) + 65536))
                          | None \<Rightarrow> Some (5, replacement))
                    else Some (5, utf8 r))
          else map_option (\<lambda>d. (1, [d])) (simple_escape e))"

definition str_step :: "char \<Rightarrow> string \<Rightarrow> (nat \<times> string) option" where
  "str_step c cs =
     (if c = backslash then unescape cs
      else if code c < 32 then None
      else if code c < 128 then Some (0, [c])
      else (let n = rune_len (c # cs) in
            if n = 0 then Some (0, replacement) else Some (n - 1, take n (c # cs))))"

text \<open>The rest of a string literal after the opening quote: the bytes it stands for, and what follows it.\<close>

fun parse_str :: "string \<Rightarrow> (string \<times> string) option" where
  "parse_str [] = None"
| "parse_str (c # cs) =
     (if c = quote then Some ([], cs)
      else (case str_step c cs of
              None \<Rightarrow> None
            | Some (k, p) \<Rightarrow> put p (parse_str (drop k cs))))"

declare json_escape.simps(2) [simp del]

lemma parse_str_shorter: "parse_str s = Some (t, r) \<Longrightarrow> length r < length s"
proof (induction s arbitrary: t r rule: parse_str.induct)
  case (2 c cs)
  show ?case
  proof (cases "c = quote")
    case False
    with "2.prems" obtain k p t' where k: "str_step c cs = Some (k, p)" "parse_str (drop k cs) = Some (t', r)"
      by (auto simp: put_Some_iff split: option.splits)
    from "2.IH" [OF False k(1) refl k(2)] show ?thesis by simp
  qed (use "2.prems" in simp)
qed simp

section \<open>Round trip of strings\<close>

lemma quote_backslash [simp]:
  "quote \<noteq> backslash" "backslash \<noteq> quote" "code quote = (34 :: nat)" "code backslash = (92 :: nat)"
  by (simp_all add: quote_def backslash_def char_of_eq_iff)

lemma code_eq_iff: "code c = (code d :: nat) \<longleftrightarrow> c = d"
  by simp

lemma hex_val_lower_hex: "d < 16 \<Longrightarrow> hex_val (lower_hex d) = Some d"
  by (simp add: hex_val_def lower_hex_def digit_val_def Let_def)

lemma unescape_u:
  assumes "r < 65536" "\<not> is_surrogate r"
  shows "str_step backslash (tl (u_escape r) @ s) = Some (5, utf8 r)"
proof -
  have "r div 4096 mod 16 * 4096 + r div 256 mod 16 * 256 + r div 16 mod 16 * 16 + r mod 16 = r"
  proof -
    have "r div 256 = r div 4096 * 16 + r div 256 mod 16" "r div 16 = r div 256 * 16 + r div 16 mod 16"
      using div_mult_mod_eq [of "r div 256" 16] div_mult_mod_eq [of "r div 16" 16]
      by (simp_all flip: div_mult2_eq)
    moreover have "r div 4096 mod 16 = r div 4096" using assms(1) by (simp add: div_less_iff_less_mult)
    moreover have "r = r div 16 * 16 + r mod 16" by simp
    ultimately show ?thesis by linarith
  qed
  then show ?thesis
    using assms by (simp add: str_step_def unescape_def u_escape_def hex_val_lower_hex)
qed

lemma parse_str_u_escape:
  "r < 65536 \<Longrightarrow> \<not> is_surrogate r \<Longrightarrow> parse_str (u_escape r @ s) = put (utf8 r) (parse_str s)"
  using unescape_u [of r s] by (simp add: u_escape_def)

lemma parse_str_escape_char:
  assumes "code c < 128"
  shows "parse_str (escape_char c @ s) = put [c] (parse_str s)"
proof -
  have hex: "parse_str (u_escape (code c) @ s) = put [c] (parse_str s)"
    using assms parse_str_u_escape [of "code c" s] by (simp add: is_surrogate_def utf8_def)
  have one: "parse_str (c # s) = put [c] (parse_str s)" if "code c \<noteq> 34" "code c \<noteq> 92" "\<not> code c < 32"
  proof -
    have "c \<noteq> quote" "c \<noteq> backslash" using that(1,2) by (metis quote_backslash(3), metis quote_backslash(4))
    then show ?thesis using assms that(3) by (simp add: str_step_def)
  qed
  have named: "parse_str (backslash # e # s) = put [c] (parse_str s)"
    if "e \<noteq> CHR ''u''" "simple_escape e = Some c" for e
    using that by (simp add: str_step_def unescape_def)
  have byte: "char_of b = c" if "code c = b" for b :: nat using that by auto
  consider (esc) "code c = 34 \<or> code c = 92" | (n) "code c = 10" | (r) "code c = 13" | (t) "code c = 9"
    | (u) "code c \<noteq> 34" "code c \<noteq> 92" "code c \<noteq> 10" "code c \<noteq> 13" "code c \<noteq> 9"
        "code c < 32 \<or> code c = 60 \<or> code c = 62 \<or> code c = 38"
    | (plain) "code c \<noteq> 34" "code c \<noteq> 92" "\<not> code c < 32" "code c \<noteq> 60" "code c \<noteq> 62" "code c \<noteq> 38"
    by fastforce
  then show ?thesis
  proof cases
    case esc
    then have "simple_escape c = Some c" "c \<noteq> CHR ''u''" by (auto simp: simple_escape_def Let_def)
    from named [OF this(2,1)] esc show ?thesis by (simp add: escape_char_def Let_def)
  next
    case n
    then have "simple_escape (CHR ''n'') = Some c" using byte by (simp add: simple_escape_def Let_def)
    from named [OF _ this] n show ?thesis by (simp add: escape_char_def Let_def)
  next
    case r
    then have "simple_escape (CHR ''r'') = Some c" using byte by (simp add: simple_escape_def Let_def)
    from named [OF _ this] r show ?thesis by (simp add: escape_char_def Let_def)
  next
    case t
    then have "simple_escape (CHR ''t'') = Some c" using byte by (simp add: simple_escape_def Let_def)
    from named [OF _ this] t show ?thesis by (simp add: escape_char_def Let_def)
  next
    case u
    then have "escape_char c = u_escape (code c)" by (auto simp: escape_char_def Let_def)
    then show ?thesis using hex by simp
  next
    case plain
    then have "escape_char c = [c]" by (simp add: escape_char_def Let_def)
    then show ?thesis using one [OF plain(1-3)] by simp
  qed
qed

lemma parse_str_rune:
  assumes "rune_len (c # cs) = n" "128 \<le> code c" "0 < n"
  shows "parse_str (take n (c # cs) @ s) = put (take n (c # cs)) (parse_str s)"
proof -
  obtain m where m: "n = Suc m" using assms(3) by (cases n) auto
  have "c \<noteq> quote" "c \<noteq> backslash" using assms(2) by auto
  moreover have "rune_len (c # (take m cs @ s)) = n" using rune_len_prefix [OF assms(1,3), of s] by (simp add: m)
  moreover have "m \<le> length cs" using rune_len_le [of "c # cs"] assms(1) by (simp add: m)
  ultimately show ?thesis using assms(2) by (simp add: str_step_def m)
qed

lemma parse_str_json_escape:
  "valid_utf8 t \<Longrightarrow> parse_str (json_escape t @ quote # s) = Some (t, s)"
proof (induction t rule: json_escape.induct)
  case (2 c cs)
  show ?case
  proof (cases "code c < 128")
    case True
    with "2.prems" have "parse_str (json_escape cs @ quote # s) = Some (cs, s)" by (intro "2.IH"(1)) auto
    then show ?thesis using True by (simp add: json_escape.simps(2) parse_str_escape_char)
  next
    case False
    define n where "n = rune_len (c # cs)"
    have n: "0 < n" and v: "valid_utf8 (drop (n - 1) cs)" using "2.prems" by (simp_all add: n_def)
    obtain m where m: "n = Suc m" using n by (cases n) auto
    have IH: "parse_str (json_escape (drop m cs) @ quote # s) = Some (drop m cs, s)"
      using "2.IH"(3,4,5) [OF False n_def] n v
      by (cases "take n (c # cs) = utf8 8232"; cases "take n (c # cs) = utf8 8233") (simp_all only: m, simp_all)
    have "parse_str (take n (c # cs) @ json_escape (drop m cs) @ quote # s)
        = Some (take n (c # cs) @ drop m cs, s)"
      using parse_str_rune [of c cs n] False n IH by (simp add: n_def)
    moreover have "take n (c # cs) @ drop m cs = c # cs" by (simp add: m)
    ultimately have plain: "parse_str (take n (c # cs) @ json_escape (drop m cs) @ quote # s) = Some (c # cs, s)"
      by simp
    have sep: "parse_str (u_escape r @ json_escape (drop m cs) @ quote # s) = Some (c # cs, s)"
      if "take n (c # cs) = utf8 r" "r < 65536" "\<not> is_surrogate r" for r
      using parse_str_u_escape [OF that(2,3)] IH \<open>take n (c # cs) @ drop m cs = c # cs\<close> by (simp add: that(1))
    show ?thesis
    proof (cases "take n (c # cs) = utf8 8232 \<or> take n (c # cs) = utf8 8233")
      case True
      then show ?thesis
        using False n sep [of 8232] sep [of 8233]
        by (auto simp: json_escape.simps(2) Let_def m is_surrogate_def simp flip: n_def)
    next
      case other: False
      then show ?thesis using False n plain by (simp add: json_escape.simps(2) Let_def m flip: n_def)
    qed
  qed
qed simp

end
