(* ===== verification/Float64.thy ===== *)
theory Float64
  imports Complex_Main "HOL-Library.Log_Nat" GoStrings
begin

text \<open>
  Go's \<open>float64\<close> as far as the reports use it: the finite values are rationals, \<open>rnd\<close> rounds an exact
  result to the nearest representable one (ties to even), and numbers are printed in positional
  notation, with a fixed number of decimals or with the fewest digits that read back. The two zeros are
  one value here; infinities and NaN do not occur in the values modelled.
\<close>

section \<open>Rounding to integers\<close>

definition round_even :: "rat \<Rightarrow> int" where
  "round_even x =
     (let f = \<lfloor>x\<rfloor>; d = x - of_int f in
      if d < 1 / 2 then f else if 1 / 2 < d then f + 1 else if even f then f else f + 1)"

lemma round_even_near: "\<bar>of_int (round_even x) - x\<bar> \<le> 1 / 2"
proof -
  have "0 \<le> x - of_int \<lfloor>x\<rfloor>" "x - of_int \<lfloor>x\<rfloor> < 1"
    by (simp_all add: floor_less_iff) linarith
  then show ?thesis by (simp add: round_even_def Let_def abs_le_iff)
qed

lemma round_even_of_int [simp]: "round_even (of_int n) = n"
  by (simp add: round_even_def)

lemma round_even_mono: "x \<le> y \<Longrightarrow> round_even x \<le> round_even y"
proof (rule ccontr)
  assume le: "x \<le> y" and "\<not> round_even x \<le> round_even y"
  then have "of_int (round_even y) + 1 \<le> (of_int (round_even x) :: rat)" by linarith
  with le round_even_near [of x] round_even_near [of y]
  have eq: "x = y" and half: "of_int (round_even x) - x = 1 / 2" by linarith+
  then show False using \<open>\<not> round_even x \<le> round_even y\<close> by simp
qed

lemma round_even_nonneg: "0 \<le> x \<Longrightarrow> 0 \<le> round_even x"
  using round_even_mono [of 0 x] round_even_of_int [of 0] by simp

section \<open>Rounding to binary64\<close>

text \<open>The binary exponent: \<open>2 powi exp2 x \<le> \<bar>x\<bar> < 2 powi (exp2 x + 1)\<close> for \<open>x \<noteq> 0\<close>.\<close>

definition exp2 :: "rat \<Rightarrow> int" where
  "exp2 x =
     (case quotient_of \<bar>x\<bar> of (p, q) \<Rightarrow>
        let e = int (floorlog 2 (nat p)) - int (floorlog 2 (nat q))
        in if 2 powi e \<le> \<bar>x\<bar> then e else e - 1)"

definition ulp :: "rat \<Rightarrow> rat" where
  "ulp x = 2 powi (max (exp2 x - 52) (- 1074))"

definition rnd :: "rat \<Rightarrow> rat" where
  "rnd x = (if x = 0 then 0 else of_int (round_even (x / ulp x)) * ulp x)"

lemma floorlog_bounds_rat:
  assumes "0 < n"
  shows "2 powi (int (floorlog 2 n) - 1) \<le> (of_nat n :: rat)" "(of_nat n :: rat) < 2 powi int (floorlog 2 n)"
proof -
  have b: "2 ^ (floorlog 2 n - 1) \<le> n \<and> n < 2 ^ floorlog 2 n"
    using floorlog_bounds [of n 2] assms by simp
  have "0 < floorlog 2 n" using assms by (simp add: floorlog_def)
  then have "2 powi (int (floorlog 2 n) - 1) = (of_nat (2 ^ (floorlog 2 n - 1)) :: rat)"
    by (simp add: power_int_def nat_diff_distrib')
  also have "\<dots> \<le> of_nat n" using b by (simp only: of_nat_le_iff)
  finally show "2 powi (int (floorlog 2 n) - 1) \<le> (of_nat n :: rat)" .
  have "(of_nat n :: rat) < of_nat (2 ^ floorlog 2 n)" using b by (simp only: of_nat_less_iff)
  then show "(of_nat n :: rat) < 2 powi int (floorlog 2 n)" by (simp add: power_int_def)
qed

lemma exp2_bounds:
  assumes "x \<noteq> 0"
  shows "2 powi exp2 x \<le> \<bar>x\<bar>" "\<bar>x\<bar> < 2 powi (exp2 x + 1)"
proof -
  obtain p q where pq: "quotient_of \<bar>x\<bar> = (p, q)" by force
  have q: "0 < q" and x: "\<bar>x\<bar> = of_int p / of_int q"
    using quotient_of_denom_pos [OF pq] quotient_of_div [OF pq] by auto
  have "0 < \<bar>x\<bar>" using assms by simp
  then have p: "0 < p" using q x by (simp add: zero_less_divide_iff)
  define a where "a = int (floorlog 2 (nat p))"
  define b where "b = int (floorlog 2 (nat q))"
  have P: "2 powi (a - 1) \<le> (of_int p :: rat)" "(of_int p :: rat) < 2 powi a"
    using floorlog_bounds_rat [of "nat p"] p by (simp_all add: a_def)
  have Q: "2 powi (b - 1) \<le> (of_int q :: rat)" "(of_int q :: rat) < 2 powi b"
    using floorlog_bounds_rat [of "nat q"] q by (simp_all add: b_def)
  have "2 powi (a - 1 - b) = (2 powi (a - 1) / 2 powi b :: rat)" by (simp add: power_int_diff)
  also have "\<dots> \<le> \<bar>x\<bar>"
    unfolding x using P(1) Q(2) p q by (intro frac_le) (auto intro: less_imp_le)
  finally have lo: "2 powi (a - b - 1) \<le> \<bar>x\<bar>" by (simp add: algebra_simps)
  have "\<bar>x\<bar> < 2 powi a / 2 powi (b - 1)"
    unfolding x using P(2) Q(1) p q by (intro frac_less) auto
  also have "\<dots> = (2 powi (a - b + 1) :: rat)" by (simp add: power_int_diff power_int_add)
  finally have hi: "\<bar>x\<bar> < 2 powi (a - b + 1)" .
  have e: "exp2 x = (if 2 powi (a - b) \<le> \<bar>x\<bar> then a - b else a - b - 1)"
    by (simp add: exp2_def pq a_def b_def Let_def)
  show "2 powi exp2 x \<le> \<bar>x\<bar>" using lo by (simp add: e)
  show "\<bar>x\<bar> < 2 powi (exp2 x + 1)" using hi by (simp add: e)
qed

lemma ulp_pos [simp]: "0 < ulp x"
  by (simp add: ulp_def)

lemma rnd_abs_error: "\<bar>rnd x - x\<bar> \<le> ulp x / 2"
proof (cases "x = 0")
  case False
  have "\<bar>of_int (round_even (x / ulp x)) - x / ulp x\<bar> * ulp x \<le> 1 / 2 * ulp x"
    by (rule mult_right_mono [OF round_even_near]) (simp add: less_imp_le)
  moreover have "\<bar>of_int (round_even (x / ulp x)) - x / ulp x\<bar> * ulp x = \<bar>rnd x - x\<bar>"
  proof -
    have "\<bar>of_int (round_even (x / ulp x)) - x / ulp x\<bar> * ulp x
        = \<bar>(of_int (round_even (x / ulp x)) - x / ulp x) * ulp x\<bar>"
      by (simp add: abs_mult abs_of_pos [OF ulp_pos])
    also have "(of_int (round_even (x / ulp x)) - x / ulp x) * ulp x = rnd x - x"
      using False less_imp_neq [OF ulp_pos [of x]] by (simp add: rnd_def left_diff_distrib)
    finally show ?thesis .
  qed
  ultimately show ?thesis by simp
qed (simp add: rnd_def less_imp_le)

text \<open>Relative error: half a unit in the 53rd binary place, outside the subnormal range.\<close>

lemma rnd_rel_error:
  assumes "2 powi (- 1022) \<le> \<bar>x\<bar> \<or> x = 0"
  shows "\<bar>rnd x - x\<bar> \<le> \<bar>x\<bar> / 2 ^ 53"
proof (cases "x = 0")
  case False
  have "- 1022 \<le> exp2 x"
  proof (rule ccontr)
    assume "\<not> - 1022 \<le> exp2 x"
    then have "exp2 x + 1 \<le> - 1022" by simp
    then have "2 powi (exp2 x + 1) \<le> (2 powi (- 1022) :: rat)" by (intro power_int_increasing) auto
    then show False using exp2_bounds(2) [OF False] assms False by linarith
  qed
  then have "ulp x = 2 powi (exp2 x - 52)" by (simp add: ulp_def)
  also have "\<dots> = 2 powi exp2 x / 2 ^ 52" by (simp add: power_int_diff)
  also have "\<dots> \<le> \<bar>x\<bar> / 2 ^ 52" using exp2_bounds(1) [OF False] by (intro divide_right_mono) auto
  finally have "ulp x / 2 \<le> \<bar>x\<bar> / 2 ^ 53" by simp
  then show ?thesis using rnd_abs_error [of x] by linarith
qed (simp add: rnd_def)

text \<open>A number of at most 53 binary digits is its own rounding.\<close>

lemma rnd_exact:
  assumes "\<bar>m\<bar> < 2 ^ 53" "- 1074 \<le> k"
  shows "rnd (of_int m * 2 powi k) = of_int m * 2 powi k"
proof (cases "m = 0")
  case False
  define x where "x = of_int m * (2 powi k :: rat)"
  have nz: "x \<noteq> 0" using False by (simp add: x_def)
  have "\<bar>x\<bar> = of_int \<bar>m\<bar> * 2 powi k" by (simp add: x_def abs_mult)
  also have "\<dots> < 2 ^ 53 * 2 powi k"
  proof (rule mult_strict_right_mono)
    show "(of_int \<bar>m\<bar> :: rat) < 2 ^ 53" using assms(1) by (metis of_int_less_iff of_int_numeral of_int_power)
  qed simp
  also have "\<dots> = 2 powi (k + 53)" by (simp add: power_int_add)
  finally have "\<bar>x\<bar> < 2 powi (k + 53)" .
  then have "2 powi exp2 x < (2 powi (k + 53) :: rat)" using exp2_bounds(1) [OF nz] by linarith
  then have "\<not> 2 powi (k + 53) \<le> (2 powi exp2 x :: rat)" by simp
  then have "exp2 x < k + 53"
    using power_int_increasing [of "k + 53" "exp2 x" "2 :: rat"] by fastforce
  define e where "e = max (exp2 x - 52) (- 1074)"
  have "e \<le> k" using \<open>exp2 x < k + 53\<close> assms(2) by (simp add: e_def)
  have "ulp x = 2 powi e" by (simp add: ulp_def e_def)
  then have "x / ulp x = of_int m * (2 powi k / 2 powi e)" by (simp only: x_def times_divide_eq_right)
  also have "2 powi k / 2 powi e = (2 powi (k - e) :: rat)" by (simp add: power_int_diff)
  also have "\<dots> = of_int (2 ^ nat (k - e))" using \<open>e \<le> k\<close> by (simp add: power_int_def)
  finally have "x / ulp x = of_int (m * 2 ^ nat (k - e))" by simp
  then have "of_int (round_even (x / ulp x)) = x / ulp x" by (metis round_even_of_int)
  then have "rnd x = x" using nz less_imp_neq [OF ulp_pos [of x]] by (simp add: rnd_def)
  then show ?thesis by (simp add: x_def)
qed (simp add: rnd_def)

lemma rnd_int: "\<bar>n\<bar> < 2 ^ 53 \<Longrightarrow> rnd (of_int n) = of_int n"
  using rnd_exact [of n 0] by simp

lemma rnd_nonneg: "0 \<le> x \<Longrightarrow> 0 \<le> rnd x"
  using round_even_nonneg [of "x / ulp x"] by (simp add: rnd_def less_imp_le)

section \<open>Positional notation\<close>

text \<open>The digits of \<open>n\<close> with at least \<open>k\<close> places, and the sign.\<close>

definition pad_nat :: "nat \<Rightarrow> nat \<Rightarrow> string" where
  "pad_nat k n = replicate (k - length (format_nat n)) (CHR ''0'') @ format_nat n"

definition sign_text :: "rat \<Rightarrow> string" where
  "sign_text x = (if x < 0 then ''-'' else '''')"

text \<open>\<open>n / 10 ^ k\<close> in decimal, with exactly \<open>k\<close> decimals (no point when \<open>k = 0\<close>).\<close>

definition decimal_text :: "nat \<Rightarrow> nat \<Rightarrow> string" where
  "decimal_text k n =
     format_nat (n div 10 ^ k) @ (if k = 0 then '''' else ''.'' @ pad_nat k (n mod 10 ^ k))"

text \<open>\<open>strconv.FormatFloat(x, 'f', k, 64)\<close>: the exact value rounded to \<open>k\<close> decimals, ties to even.\<close>

definition format_fixed :: "nat \<Rightarrow> rat \<Rightarrow> string" where
  "format_fixed k x = sign_text x @ decimal_text k (nat (round_even (\<bar>x\<bar> * 10 ^ k)))"

text \<open>The value \<open>strconv.ParseFloat\<close> reads back from that text.\<close>

definition reparse_fixed :: "nat \<Rightarrow> rat \<Rightarrow> rat" where
  "reparse_fixed k x = (if x < 0 then - 1 else 1) * rnd (of_int (round_even (\<bar>x\<bar> * 10 ^ k)) / 10 ^ k)"

text \<open>
  \<open>strconv.FormatFloat(x, 'f', -1, 64)\<close>: the fewest significant digits that read back as \<open>x\<close>, and of
  those candidates the one nearest to \<open>x\<close>; 17 digits are always enough. \<open>exp10\<close> is the number of
  digits before the point (not positive for \<open>\<bar>x\<bar> < 0.1\<close>); a value is \<open>d * 10 powi u\<close>.
\<close>

fun exp10_up :: "nat \<Rightarrow> int \<Rightarrow> rat \<Rightarrow> int" where
  "exp10_up 0 e x = e"
| "exp10_up (Suc n) e x = (if 10 powi e \<le> x then exp10_up n (e + 1) x else e)"

fun exp10_down :: "nat \<Rightarrow> int \<Rightarrow> rat \<Rightarrow> int" where
  "exp10_down 0 e x = e"
| "exp10_down (Suc n) e x = (if x < 10 powi (e - 1) then exp10_down n (e - 1) x else e)"

definition exp10 :: "rat \<Rightarrow> int" where
  "exp10 x = (if 1 \<le> x then exp10_up 400 0 x else exp10_down 400 0 x)"

definition candidates :: "rat \<Rightarrow> int \<Rightarrow> nat list" where
  "candidates x u =
     (let d = nat \<lfloor>x / 10 powi u\<rfloor>; lo = x / 10 powi u - of_nat d in
      filter (\<lambda>c. rnd (of_nat c * 10 powi u) = x) (if 1 / 2 < lo then [d + 1, d] else [d, d + 1]))"

fun shortest_digits :: "nat list \<Rightarrow> int \<Rightarrow> rat \<Rightarrow> nat \<times> int" where
  "shortest_digits [] e x = (nat \<lfloor>x / 10 powi (e - 17)\<rfloor>, e - 17)"
| "shortest_digits (n # ns) e x =
     (case candidates x (e - int n) of
        [] \<Rightarrow> shortest_digits ns e x
      | c # _ \<Rightarrow> (c, e - int n))"

text \<open>Trailing zeros of the digits do not matter for the value; they are cut before printing.\<close>

fun trim_zeros :: "nat \<Rightarrow> int \<Rightarrow> nat \<times> int" where
  "trim_zeros d u = (if 0 < d \<and> d mod 10 = 0 then trim_zeros (d div 10) (u + 1) else (d, u))"

declare trim_zeros.simps [simp del]

definition shortest :: "rat \<Rightarrow> nat \<times> int" where
  "shortest x = (case shortest_digits [1..<18] (exp10 x) x of (d, u) \<Rightarrow> trim_zeros d u)"

definition format_short :: "rat \<Rightarrow> string" where
  "format_short x =
     (if x = 0 then ''0''
      else (case shortest \<bar>x\<bar> of (d, u) \<Rightarrow>
            sign_text x @ (if 0 \<le> u then format_nat (d * 10 ^ nat u) else decimal_text (nat (- u)) d)))"

text \<open>
  The scientific notation of \<open>encoding/json\<close>, for numbers below \<open>1e-6\<close> or from \<open>1e21\<close>: the exponent of a
  small number has no leading zero, the one of a large number has two digits or more by itself.
\<close>

definition format_exp :: "rat \<Rightarrow> string" where
  "format_exp x =
     (case shortest \<bar>x\<bar> of (d, u) \<Rightarrow>
        (let ds = format_nat d; e = u + int (length ds) - 1 in
         sign_text x @ hd ds # (if tl ds = [] then '''' else CHR ''.'' # tl ds) @
         CHR ''e'' # (if e < 0 then CHR ''-'' else CHR ''+'') # format_nat (nat \<bar>e\<bar>)))"

definition json_float :: "rat \<Rightarrow> string" where
  "json_float x =
     (if x \<noteq> 0 \<and> (\<bar>x\<bar> < 1 / 10 ^ 6 \<or> 10 ^ 21 \<le> \<bar>x\<bar>) then format_exp x else format_short x)"

text \<open>What a text of digits and a point stands for: the digits, and the number of decimals.\<close>

lemma rnd_candidates: "c \<in> set (candidates x u) \<Longrightarrow> rnd (of_nat c * 10 powi u) = x"
  by (auto simp: candidates_def Let_def split: if_splits)

lemma trim_zeros_value: "trim_zeros d u = (d', u') \<Longrightarrow> (of_nat d :: rat) * 10 powi u = of_nat d' * 10 powi u'"
proof (induction d u rule: trim_zeros.induct)
  case (1 d u)
  show ?case
  proof (cases "0 < d \<and> d mod 10 = 0")
    case True
    then have "trim_zeros (d div 10) (u + 1) = (d', u')" using "1.prems" by (simp add: trim_zeros.simps [of d])
    from "1.IH" [OF True this] have "(of_nat (d div 10) :: rat) * 10 powi (u + 1) = of_nat d' * 10 powi u'" .
    moreover have "d = 10 * (d div 10)" using True by auto
    then have "(of_nat d :: rat) = 10 * of_nat (d div 10)" by (metis of_nat_mult of_nat_numeral)
    ultimately show ?thesis by (simp add: power_int_add)
  next
    case False
    with "1.prems" show ?thesis by (simp add: trim_zeros.simps [of d])
  qed
qed


section \<open>The shortest digits read back\<close>

lemma round_even_unique: "\<bar>of_int m - x\<bar> < 1 / 2 \<Longrightarrow> round_even x = m"
  using round_even_near [of x] by linarith

lemma exp2_unique:
  assumes "2 powi k \<le> \<bar>x\<bar>" "\<bar>x\<bar> < 2 powi (k + 1)"
  shows "exp2 x = k"
proof -
  have "0 < \<bar>x\<bar>" using assms(1) by (rule less_le_trans [rotated]) simp
  then have "x \<noteq> 0" by simp
  note b = exp2_bounds [OF this]
  have "exp2 x < k + 1"
    by (rule ccontr) (use power_int_increasing [of "k + 1" "exp2 x" "2 :: rat"] assms b in linarith)
  moreover have "k < exp2 x + 1"
    by (rule ccontr) (use power_int_increasing [of "exp2 x + 1" k "2 :: rat"] assms b in linarith)
  ultimately show ?thesis by simp
qed

text \<open>A float is the rounding of every number within a quarter of its last binary place.\<close>

lemma rnd_near:
  assumes x: "rnd x = x" "2 powi (- 1021) \<le> x" and y: "\<bar>y - x\<bar> < x / 2 ^ 54"
  shows "rnd y = x"
proof -
  define e where "e = exp2 x"
  define u :: rat where "u = 2 powi (e - 52)"
  have pos: "0 < x" using x(2) by (rule less_le_trans [rotated]) simp
  have b: "2 powi e \<le> x" "x < 2 powi (e + 1)" using exp2_bounds [of x] pos by (simp_all add: e_def)
  have u: "0 < u" "2 powi e = 2 ^ 52 * u" "2 powi (e + 1) = 2 ^ 53 * u"
    by (simp_all add: u_def power_int_diff power_int_add)
  have "- 1021 \<le> e"
  proof (rule ccontr)
    assume "\<not> - 1021 \<le> e"
    then have "2 powi (e + 1) \<le> (2 powi (- 1021) :: rat)" by (intro power_int_increasing) auto
    then show False using b x(2) by linarith
  qed
  then have ulp: "ulp x = u" by (simp add: ulp_def u_def e_def)
  define m where "m = round_even (x / u)"
  have xm: "x = of_int m * u" using x(1) pos by (simp add: rnd_def ulp m_def)
  have "of_int m * u < of_int (2 ^ 53) * u" using b u xm by simp
  then have m2: "m \<le> 2 ^ 53 - 1" using u(1) by (simp only: mult_less_cancel_right_pos of_int_less_iff)
  have "of_int (2 ^ 52) * u \<le> of_int m * u" using b u xm by simp
  then have m1: "2 ^ 52 \<le> m" using u(1) by (simp only: mult_le_cancel_right_pos of_int_le_iff)
  have near: "\<bar>y - x\<bar> < u / 2" using y b(2) u by simp
  then have close: "y < x + u / 2" "x < y + u / 2" by (simp_all only: abs_less_iff) linarith+
  show ?thesis
  proof (cases "2 powi e \<le> y")
    case True
    have "x \<le> of_int (2 ^ 53 - 1) * u" unfolding xm using m2 u(1) by (intro mult_right_mono) (simp_all only: of_int_le_iff less_imp_le)
    then have "x \<le> 2 powi (e + 1) - u" using u by (simp add: left_diff_distrib)
    then have "y < 2 powi (e + 1)" using close u(1) by linarith
    moreover have "0 < y" using True by (rule less_le_trans [rotated]) simp
    ultimately have "exp2 y = e" using True by (intro exp2_unique) auto
    then have "ulp y = u" using \<open>- 1021 \<le> e\<close> by (simp add: ulp_def u_def)
    moreover have "round_even (y / u) = m"
    proof (rule round_even_unique)
      have "of_int m - y / u = (x - y) / u" using u(1) by (simp add: xm diff_divide_distrib)
      then have "\<bar>of_int m - y / u\<bar> = \<bar>y - x\<bar> / u" using u(1) by (simp add: abs_divide abs_minus_commute)
      then show "\<bar>of_int m - y / u\<bar> < 1 / 2" using near u(1) by (simp add: field_simps)
    qed
    ultimately show ?thesis using \<open>0 < y\<close> by (simp add: rnd_def xm)
  next
    case False
    have "m = 2 ^ 52"
    proof (rule ccontr)
      assume "m \<noteq> 2 ^ 52"
      then have "of_int (2 ^ 52 + 1) * u \<le> x" unfolding xm using m1 u(1) by (intro mult_right_mono) (simp_all only: of_int_le_iff less_imp_le)
      then have "2 powi e + u \<le> x" using u by (simp add: distrib_right)
      then show False using close False u(1) by linarith
    qed
    then have xe: "x = 2 ^ 53 * (u / 2)" by (simp add: xm)
    have "2 powi (e - 1) = 2251799813685248 * u" "x = 4503599627370496 * u"
      using u(2) xe by (simp_all add: power_int_diff)
    then have lo: "2 powi (e - 1) \<le> y" using close u(1) by linarith
    then have "0 < y" by (rule less_le_trans [rotated]) simp
    then have "exp2 y = e - 1" using lo False by (intro exp2_unique) auto
    then have "ulp y = u / 2" using \<open>- 1021 \<le> e\<close> by (simp add: ulp_def u_def power_int_diff)
    moreover have "round_even (y / (u / 2)) = 2 ^ 53"
    proof (rule round_even_unique)
      have "of_int (2 ^ 53) - y / (u / 2) = (x - y) / (u / 2)"
        using u(1) unfolding xe diff_divide_distrib by simp
      then have "\<bar>of_int (2 ^ 53) - y / (u / 2)\<bar> = \<bar>y - x\<bar> / (u / 2)"
        using u(1) by (simp only: abs_divide abs_minus_commute [of x y])
      also have "\<dots> < x / 2 ^ 54 / (u / 2)" using y u(1) by (intro divide_strict_right_mono) auto
      also have "\<dots> = 1 / 2" using u(1) by (simp add: xe)
      finally show "\<bar>of_int (2 ^ 53) - y / (u / 2)\<bar> < 1 / 2" .
    qed
    ultimately have "rnd y = of_int (2 ^ 53) * (u / 2)" using \<open>0 < y\<close> by (simp only: rnd_def) simp
    then show ?thesis by (simp add: xe)
  qed
qed

lemma exp10_up_bounds:
  "10 powi (e - 1) \<le> x \<Longrightarrow> x < 10 powi (e + int n) \<Longrightarrow>
     10 powi (exp10_up n e x - 1) \<le> x \<and> x < 10 powi (exp10_up n e x)"
  by (induction n e x rule: exp10_up.induct) (auto simp: algebra_simps)

lemma exp10_down_bounds:
  "x < 10 powi e \<Longrightarrow> 10 powi (e - int n) \<le> x \<Longrightarrow>
     10 powi (exp10_down n e x - 1) \<le> x \<and> x < 10 powi (exp10_down n e x)"
  by (induction n e x rule: exp10_down.induct) (auto simp: algebra_simps)

lemma exp10_bounds:
  assumes "10 powi (- 400) \<le> x" "x < 10 powi 400"
  shows "10 powi (exp10 x - 1) \<le> x" "x < 10 powi (exp10 x)"
  using exp10_up_bounds [of 0 x 400] exp10_down_bounds [of x 0 400] assms
  by (auto simp: exp10_def power_int_minus)

lemma seventeen_digits:
  assumes "rnd x = x" "2 powi (- 1021) \<le> x" "10 powi (e - 1) \<le> x"
  shows "candidates x (e - 17) \<noteq> []"
proof -
  define t :: rat where "t = 10 powi (e - 17)"
  define d where "d = nat \<lfloor>x / t\<rfloor>"
  have t: "0 < t" "10 powi (e - 1) = 10 ^ 16 * t" by (simp_all add: t_def power_int_diff)
  have pos: "0 < x" using assms(2) by (rule less_le_trans [rotated]) simp
  have d: "of_nat d \<le> x / t" "x / t < of_nat d + 1" using pos t(1) by (simp_all add: d_def floor_less_iff) linarith
  define c where "c = (if 1 / 2 < x / t - of_nat d then d + 1 else d)"
  have "\<bar>of_nat c - x / t\<bar> \<le> 1 / 2" using d by (simp add: c_def)
  then have "\<bar>of_nat c - x / t\<bar> * t \<le> 1 / 2 * t" using t(1) by (intro mult_right_mono) auto
  also have "\<bar>of_nat c - x / t\<bar> * t = \<bar>of_nat c * t - x\<bar>"
  proof -
    have "\<bar>of_nat c - x / t\<bar> * t = \<bar>(of_nat c - x / t) * t\<bar>" using t(1) by (simp add: abs_mult)
    then show ?thesis using t(1) by (simp add: left_diff_distrib)
  qed
  also have "1 / 2 * t \<le> x / (2 * 10 ^ 16)" using assms(3) t by simp
  also have "x / (2 * 10 ^ 16) < x / 2 ^ 54" using pos by (simp add: field_simps)
  finally have "rnd (of_nat c * t) = x" by (intro rnd_near [OF assms(1,2)])
  then show ?thesis by (auto simp: candidates_def Let_def c_def simp flip: t_def d_def split: if_splits)
qed

lemma shortest_digits_exact:
  assumes "rnd x = x" "2 powi (- 1021) \<le> x" "10 powi (e - 1) \<le> x" "17 \<in> set ns"
    and "shortest_digits ns e x = (d, u)"
  shows "rnd (of_nat d * 10 powi u) = x"
  using assms(4,5)
proof (induction ns)
  case (Cons n ns)
  show ?case
  proof (cases "candidates x (e - int n)")
    case Nil
    then have "n \<noteq> 17" using seventeen_digits [OF assms(1-3)] by auto
    then show ?thesis using Cons Nil by simp
  next
    case (Cons c cs)
    then show ?thesis using Cons.prems rnd_candidates [of c x u] by auto
  qed
qed simp


lemma shortest_exact:
  assumes "rnd x = x" "2 powi (- 1021) \<le> x" "x < 10 powi 400" "shortest x = (d, u)"
  shows "rnd (of_nat d * 10 powi u) = x"
proof -
  obtain d' u' where s: "shortest_digits [1..<18] (exp10 x) x = (d', u')" by force
  have "10 powi (- 400) \<le> (2 powi (- 1021) :: rat)" by (simp add: power_int_minus)
  then have "10 powi (exp10 x - 1) \<le> x" using exp10_bounds(1) [of x] assms(2,3) by linarith
  from shortest_digits_exact [OF assms(1,2) this _ s] have "rnd (of_nat d' * 10 powi u') = x" by simp
  moreover have "trim_zeros d' u' = (d, u)" using assms(4) unfolding shortest_def s by simp
  ultimately show ?thesis using trim_zeros_value by simp
qed

lemma round_even_minus: "round_even (- x) = - round_even x"
proof (cases "x - of_int \<lfloor>x\<rfloor> = 1 / 2")
  case True
  then have x: "x = of_int \<lfloor>x\<rfloor> + 1 / 2" by simp
  have "\<lfloor>- x\<rfloor> = - \<lfloor>x\<rfloor> - 1" by (subst x) linarith
  then show ?thesis using True by (simp add: round_even_def Let_def)
next
  case False
  have "\<bar>of_int (round_even x) - x\<bar> < 1 / 2"
  proof -
    have "0 \<le> x - of_int \<lfloor>x\<rfloor>" "x - of_int \<lfloor>x\<rfloor> < 1"
      by (simp_all add: floor_less_iff) linarith
    then show ?thesis using False by (simp add: round_even_def Let_def abs_less_iff)
  qed
  then show ?thesis by (intro round_even_unique) (simp add: abs_minus_commute)
qed

lemma rnd_minus: "rnd (- x) = - rnd x"
proof -
  have "ulp (- x) = ulp x" by (simp add: ulp_def exp2_def)
  then show ?thesis by (simp add: rnd_def round_even_minus)
qed

lemma rnd_abs: "rnd \<bar>x\<bar> = \<bar>rnd x\<bar>"
  using rnd_nonneg [of x] rnd_nonneg [of "- x"] by (cases "x < 0") (simp_all add: rnd_minus)


text \<open>A rounded number is representable.\<close>

lemma rnd_idem [simp]: "rnd (rnd x) = rnd x"
proof (cases "x = 0")
  case False
  define k where "k = max (exp2 x - 52) (- 1074)"
  have u: "ulp x = 2 powi k" "- 1074 \<le> k" by (simp_all add: ulp_def k_def)
  define m where "m = round_even (x / ulp x)"
  have r: "rnd x = of_int m * 2 powi k" using False by (simp add: rnd_def m_def u)
  have "\<bar>x\<bar> < 2 powi (exp2 x + 1)" by (rule exp2_bounds [OF False])
  also have "\<dots> \<le> 2 powi (53 + k)" by (intro power_int_increasing) (auto simp: k_def)
  also have "\<dots> = 2 ^ 53 * ulp x" by (simp add: power_int_add u)
  finally have "\<bar>x / ulp x\<bar> < of_int (2 ^ 53)"
    by (simp add: abs_divide abs_of_pos [OF ulp_pos] pos_divide_less_eq)
  then have b: "x / ulp x \<le> of_int (2 ^ 53)" "of_int (- (2 ^ 53)) \<le> x / ulp x" by (simp_all only: of_int_minus)
  from b [THEN round_even_mono] have "\<bar>m\<bar> \<le> 2 ^ 53"
    by (simp only: round_even_of_int m_def abs_le_iff) simp
  then consider "\<bar>m\<bar> < 2 ^ 53" | "m = 2 ^ 53" | "m = - (2 ^ 53)" by linarith
  then show ?thesis
  proof cases
    case 1
    then show ?thesis unfolding r by (rule rnd_exact) (use u in simp)
  next
    case 2
    have "rnd x = of_int (2 ^ 52) * 2 powi (k + 1)" by (simp add: r 2 power_int_add)
    then show ?thesis using rnd_exact [of "2 ^ 52" "k + 1"] u by simp
  next
    case 3
    have "rnd x = of_int (- (2 ^ 52)) * 2 powi (k + 1)" by (simp add: r 3 power_int_add)
    then show ?thesis using rnd_exact [of "- (2 ^ 52)" "k + 1"] u by simp
  qed
qed (simp add: rnd_def)


section \<open>Arithmetic\<close>

definition fmul :: "rat \<Rightarrow> rat \<Rightarrow> rat" where "fmul x y = rnd (x * y)"
definition fdiv :: "rat \<Rightarrow> rat \<Rightarrow> rat" where "fdiv x y = rnd (x / y)"

text \<open>A coarse bound, for magnitudes that are not tiny.\<close>

lemma rnd_factor_two:
  assumes "1 / 10 ^ 30 \<le> \<bar>x\<bar>"
  shows "\<bar>x\<bar> / 2 \<le> \<bar>rnd x\<bar>" "\<bar>rnd x\<bar> \<le> 2 * \<bar>x\<bar>"
proof -
  have "2 powi (- 1022) \<le> (1 / 10 ^ 30 :: rat)" by (simp add: power_int_minus)
  then have "\<bar>rnd x - x\<bar> \<le> \<bar>x\<bar> / 2 ^ 53" using assms by (intro rnd_rel_error) linarith
  moreover have "\<bar>x\<bar> / 2 ^ 53 \<le> \<bar>x\<bar> / 2" by (intro divide_left_mono) auto
  ultimately have "\<bar>rnd x - x\<bar> \<le> \<bar>x\<bar> / 2" by linarith
  then show "\<bar>x\<bar> / 2 \<le> \<bar>rnd x\<bar>" "\<bar>rnd x\<bar> \<le> 2 * \<bar>x\<bar>" by (simp_all add: abs_if split: if_splits)
qed

lemma rnd_eq_0_iff: "\<bar>x\<bar> = 0 \<or> 1 / 10 ^ 30 \<le> \<bar>x\<bar> \<Longrightarrow> rnd x = 0 \<longleftrightarrow> x = 0"
  using rnd_factor_two [of x] by (auto simp: rnd_def)

lemma rnd_reparse_fixed [simp]: "rnd (reparse_fixed k x) = reparse_fixed k x"
  by (simp add: reparse_fixed_def rnd_minus)

lemma reparse_fixed_error: "\<bar>reparse_fixed 4 x - x\<bar> \<le> 5 / 10 ^ 5 + (\<bar>x\<bar> + 1) / 2 ^ 53"
proof -
  define n where "n = round_even (\<bar>x\<bar> * 10 ^ 4)"
  define y :: rat where "y = of_int n / 10 ^ 4"
  have "\<bar>of_int n - \<bar>x\<bar> * 10 ^ 4\<bar> \<le> 1 / 2" unfolding n_def by (rule round_even_near)
  then have y: "\<bar>y - \<bar>x\<bar>\<bar> \<le> 5 / 10 ^ 5" by (simp add: y_def abs_le_iff field_simps)
  have n0: "0 \<le> n" unfolding n_def by (rule round_even_nonneg) simp
  have "2 powi (- 1022) \<le> (1 / 10 ^ 4 :: rat)" by (simp add: power_int_minus)
  moreover have "1 / 10 ^ 4 \<le> \<bar>y\<bar>" if "n \<noteq> 0"
  proof -
    have "1 \<le> n" using n0 that by simp
    then have "(1 :: rat) \<le> of_int n" by simp
    then show ?thesis by (simp add: y_def)
  qed
  ultimately have "\<bar>rnd y - y\<bar> \<le> \<bar>y\<bar> / 2 ^ 53"
    by (intro rnd_rel_error) (auto simp: y_def)
  moreover have "(5 :: rat) / 10 ^ 5 \<le> 1" by simp
  then have "\<bar>y\<bar> \<le> \<bar>x\<bar> + 1" using y by linarith
  then have "\<bar>y\<bar> / 2 ^ 53 \<le> (\<bar>x\<bar> + 1) / 2 ^ 53" by (intro divide_right_mono) auto
  ultimately have "\<bar>rnd y - \<bar>x\<bar>\<bar> \<le> 5 / 10 ^ 5 + (\<bar>x\<bar> + 1) / 2 ^ 53" using y by linarith
  then show ?thesis
    by (cases "x < 0") (simp_all add: reparse_fixed_def y_def n_def abs_minus_commute)
qed

end
