(* ===== verification/Json.thy ===== *)
theory Json
  imports JsonText Float64
begin

text \<open>
  The JSON syntax of \<open>encoding/json\<close>: values as a tree (a number keeps its literal, an object its
  members in the order of the text), the compact text \<open>json.Marshal\<close> writes and the grammar
  \<open>json.Unmarshal\<close> accepts. The parser takes fuel; \<open>json_parse\<close> gives it enough for every text
  (\<open>parse_value_fuel\<close>), and reading undoes writing (\<open>json_parse_print\<close>).
\<close>

datatype json =
    JNull
  | JBool bool
  | JNum string
  | JStr string
  | JArr "json list"
  | JObj "(string \<times> json) list"

section \<open>Numbers\<close>

definition is_digit :: "char \<Rightarrow> bool" where
  "is_digit c \<longleftrightarrow> 48 \<le> code c \<and> code c \<le> 57"

definition scan_int :: "string \<Rightarrow> (string \<times> string) option" where
  "scan_int s =
     (case s of
        [] \<Rightarrow> None
      | c # r \<Rightarrow>
          if c = CHR ''0'' then Some ([c], r)
          else if is_digit c then Some (takeWhile is_digit s, dropWhile is_digit s)
          else None)"

text \<open>One or more digits after a prefix \<open>p\<close>.\<close>

definition scan_digits :: "string \<Rightarrow> string \<Rightarrow> (string \<times> string) option" where
  "scan_digits p s =
     (if takeWhile is_digit s = [] then None else Some (p @ takeWhile is_digit s, dropWhile is_digit s))"

definition scan_frac :: "string \<Rightarrow> (string \<times> string) option" where
  "scan_frac s =
     (case s of
        c # r \<Rightarrow> if c = CHR ''.'' then scan_digits [c] r else Some ([], s)
      | [] \<Rightarrow> Some ([], s))"

definition scan_exp :: "string \<Rightarrow> (string \<times> string) option" where
  "scan_exp s =
     (case s of
        c # r \<Rightarrow>
          if c = CHR ''e'' \<or> c = CHR ''E''
          then (case r of
                  g # r' \<Rightarrow> if g = CHR ''+'' \<or> g = CHR ''-'' then scan_digits [c, g] r' else scan_digits [c] r
                | [] \<Rightarrow> None)
          else Some ([], s)
      | [] \<Rightarrow> Some ([], s))"

definition scan_sign :: "string \<Rightarrow> string \<times> string" where
  "scan_sign s = (case s of c # r \<Rightarrow> if c = CHR ''-'' then ([c], r) else ([], s) | [] \<Rightarrow> ([], s))"

definition parse_num :: "string \<Rightarrow> (string \<times> string) option" where
  "parse_num s =
     (case scan_sign s of (g, s1) \<Rightarrow>
        (case scan_int s1 of
           None \<Rightarrow> None
         | Some (i, s2) \<Rightarrow>
             (case scan_frac s2 of
                None \<Rightarrow> None
              | Some (f, s3) \<Rightarrow>
                  (case scan_exp s3 of
                     None \<Rightarrow> None
                   | Some (e, s4) \<Rightarrow> Some (g @ i @ f @ e, s4)))))"

definition number_ok :: "string \<Rightarrow> bool" where
  "number_ok t \<longleftrightarrow> parse_num t = Some (t, [])"

text \<open>The exact value of a literal.\<close>

definition num_value :: "string \<Rightarrow> rat" where
  "num_value t =
     (case scan_sign t of (g, s1) \<Rightarrow>
        (let i = takeWhile is_digit s1; s2 = dropWhile is_digit s1;
             f = (case s2 of c # r \<Rightarrow> if c = CHR ''.'' then takeWhile is_digit r else '''' | [] \<Rightarrow> '''');
             s3 = (if f = '''' then s2 else drop (Suc (length f)) s2);
             e = (case s3 of _ # r \<Rightarrow> fst (ParseInt r 10 64) | [] \<Rightarrow> 0)
         in (if g = [] then 1 else - 1) * of_nat (digits_value 10 0 (i @ f)) * 10 powi (e - int (length f))))"

text \<open>What may follow a number.\<close>

definition num_end :: "string \<Rightarrow> bool" where
  "num_end r = (case r of [] \<Rightarrow> True | c # _ \<Rightarrow> \<not> is_digit c \<and> c \<noteq> CHR ''.'' \<and> c \<noteq> CHR ''e'' \<and> c \<noteq> CHR ''E'')"

lemma num_end_take:
  assumes "num_end r"
  shows "takeWhile is_digit (t @ r) = takeWhile is_digit t"
    and "dropWhile is_digit (t @ r) = dropWhile is_digit t @ r"
  using assms by (induction t) (auto simp: num_end_def split: list.splits)

lemma scan_digits_append:
  "scan_digits p t = Some (a, b) \<Longrightarrow> num_end r \<Longrightarrow> scan_digits p (t @ r) = Some (a, b @ r)"
  by (auto simp: scan_digits_def num_end_take split: if_splits)

lemma scan_int_append:
  "scan_int t = Some (a, b) \<Longrightarrow> num_end r \<Longrightarrow> scan_int (t @ r) = Some (a, b @ r)"
  using num_end_take [of r t] by (cases t) (auto simp: scan_int_def split: if_splits)

lemma scan_frac_append:
  "scan_frac t = Some (a, b) \<Longrightarrow> num_end r \<Longrightarrow> scan_frac (t @ r) = Some (a, b @ r)"
  by (cases t; cases r) (auto simp: scan_frac_def num_end_def intro: scan_digits_append [OF _ num_end_def [THEN iffD2]]
      split: if_splits)

lemma scan_exp_append:
  assumes "scan_exp t = Some (a, b)" "num_end r"
  shows "scan_exp (t @ r) = Some (a, b @ r)"
proof (cases t)
  case Nil
  then show ?thesis using assms by (cases r) (auto simp: scan_exp_def num_end_def)
next
  case (Cons c u)
  then show ?thesis
    using assms scan_digits_append [of _ u a b r] scan_digits_append [of _ "tl u" a b r]
    by (cases u) (auto simp: scan_exp_def split: if_splits)
qed

lemma parse_num_iff:
  "parse_num s = Some (t, r) \<longleftrightarrow>
     (\<exists>g s1 i s2 f s3 e. scan_sign s = (g, s1) \<and> scan_int s1 = Some (i, s2) \<and> scan_frac s2 = Some (f, s3) \<and>
        scan_exp s3 = Some (e, r) \<and> t = g @ i @ f @ e)"
  unfolding parse_num_def by (cases "scan_sign s") (simp split: option.split prod.split, blast)

lemma scan_digits_split: "scan_digits p s = Some (a, b) \<Longrightarrow> a @ b = p @ s"
  by (auto simp: scan_digits_def split: if_splits)

lemma scan_int_split: "scan_int s = Some (a, b) \<Longrightarrow> a @ b = s \<and> a \<noteq> []"
  by (auto simp: scan_int_def split: if_splits list.splits)

lemma scan_frac_split: "scan_frac s = Some (a, b) \<Longrightarrow> a @ b = s"
  by (auto simp: scan_frac_def split: if_splits list.splits dest: scan_digits_split)

lemma scan_exp_split: "scan_exp s = Some (a, b) \<Longrightarrow> a @ b = s"
  by (auto simp: scan_exp_def split: if_splits list.splits dest: scan_digits_split)

lemma scan_sign_split: "scan_sign s = (a, b) \<Longrightarrow> a @ b = s"
  by (auto simp: scan_sign_def split: if_splits list.splits)

lemma parse_num_split: "parse_num s = Some (t, r) \<Longrightarrow> t @ r = s \<and> t \<noteq> []"
  unfolding parse_num_iff
  by (auto dest!: scan_sign_split scan_int_split scan_frac_split scan_exp_split)

lemma parse_num_append:
  assumes "number_ok t" "num_end r"
  shows "parse_num (t @ r) = Some (t, r)"
proof -
  from assms(1) obtain g s1 i s2 f s3 e where p: "scan_sign t = (g, s1)" "scan_int s1 = Some (i, s2)"
    "scan_frac s2 = Some (f, s3)" "scan_exp s3 = Some (e, [])" "t = g @ i @ f @ e"
    by (auto simp: number_ok_def parse_num_iff)
  have "s1 \<noteq> []" using p(2) by (auto simp: scan_int_def)
  then have "scan_sign (t @ r) = (g, s1 @ r)"
    using p(1) by (cases t) (auto simp: scan_sign_def split: if_splits)
  then show ?thesis
    using scan_int_append [OF p(2) assms(2)] scan_frac_append [OF p(3) assms(2)]
      scan_exp_append [OF p(4) assms(2)] p(5)
    by (simp add: parse_num_def)
qed

lemma parse_num_shorter: "parse_num s = Some (t, r) \<Longrightarrow> length r < length s"
  by (drule parse_num_split) auto


section \<open>Parsing\<close>

definition is_ws :: "char \<Rightarrow> bool" where
  "is_ws c \<longleftrightarrow> code c = (32 :: nat) \<or> code c = (9 :: nat) \<or> code c = (10 :: nat) \<or> code c = (13 :: nat)"

definition skip_ws :: "string \<Rightarrow> string" where
  "skip_ws = dropWhile is_ws"

text \<open>The character \<open>c\<close> after white space.\<close>

definition expect :: "char \<Rightarrow> string \<Rightarrow> string option" where
  "expect c s = (case skip_ws s of d # r \<Rightarrow> if d = c then Some r else None | [] \<Rightarrow> None)"

definition parse_word :: "string \<Rightarrow> 'a \<Rightarrow> string \<Rightarrow> ('a \<times> string) option" where
  "parse_word w x s = (if take (length w) s = w then Some (x, drop (length w) s) else None)"

text \<open>The key of a member and its colon.\<close>

definition parse_key :: "string \<Rightarrow> (string \<times> string) option" where
  "parse_key s =
     (case expect quote s of
        None \<Rightarrow> None
      | Some r \<Rightarrow>
          (case parse_str r of
             None \<Rightarrow> None
           | Some (k, r') \<Rightarrow> map_option (Pair k) (expect (CHR '':'') r')))"

text \<open>
  \<open>parse_value\<close> reads a value after white space; \<open>parse_elems\<close> and \<open>parse_members\<close> read the rest of a
  non-empty array or object, its closing bracket included.
\<close>

fun parse_value :: "nat \<Rightarrow> string \<Rightarrow> (json \<times> string) option"
  and parse_elems :: "nat \<Rightarrow> string \<Rightarrow> (json list \<times> string) option"
  and parse_members :: "nat \<Rightarrow> string \<Rightarrow> ((string \<times> json) list \<times> string) option"
where
  "parse_value 0 s = None"
| "parse_value (Suc n) s =
     (case skip_ws s of
        [] \<Rightarrow> None
      | c # r \<Rightarrow>
          if c = CHR ''{'' then
            (case expect (CHR ''}'') r of
               Some r' \<Rightarrow> Some (JObj [], r')
             | None \<Rightarrow> map_option (\<lambda>(kvs, r'). (JObj kvs, r')) (parse_members n r))
          else if c = CHR ''['' then
            (case expect (CHR '']'') r of
               Some r' \<Rightarrow> Some (JArr [], r')
             | None \<Rightarrow> map_option (\<lambda>(xs, r'). (JArr xs, r')) (parse_elems n r))
          else if c = quote then map_option (\<lambda>(s, r'). (JStr s, r')) (parse_str r)
          else if c = CHR ''t'' then parse_word ''true'' (JBool True) (c # r)
          else if c = CHR ''f'' then parse_word ''false'' (JBool False) (c # r)
          else if c = CHR ''n'' then parse_word ''null'' JNull (c # r)
          else map_option (\<lambda>(t, r'). (JNum t, r')) (parse_num (c # r)))"
| "parse_elems 0 s = None"
| "parse_elems (Suc n) s =
     (case parse_value n s of
        None \<Rightarrow> None
      | Some (x, r) \<Rightarrow>
          (case expect (CHR '','') r of
             Some r' \<Rightarrow> map_option (\<lambda>(xs, r''). (x # xs, r'')) (parse_elems n r')
           | None \<Rightarrow> map_option (Pair [x]) (expect (CHR '']'') r)))"
| "parse_members 0 s = None"
| "parse_members (Suc n) s =
     (case parse_key s of
        None \<Rightarrow> None
      | Some (k, r) \<Rightarrow>
          (case parse_value n r of
             None \<Rightarrow> None
           | Some (x, r') \<Rightarrow>
               (case expect (CHR '','') r' of
                  Some r'' \<Rightarrow> map_option (\<lambda>(kvs, r3). ((k, x) # kvs, r3)) (parse_members n r'')
                | None \<Rightarrow> map_option (Pair [(k, x)]) (expect (CHR ''}'') r'))))"

text \<open>The nesting \<open>json.Unmarshal\<close> accepts is bounded.\<close>

fun json_depth :: "json \<Rightarrow> nat" where
  "json_depth (JArr xs) = Suc (foldr max (map json_depth xs) 0)"
| "json_depth (JObj kvs) = Suc (foldr max (map (\<lambda>(k, v). json_depth v) kvs) 0)"
| "json_depth _ = 0"

definition maxNestingDepth :: nat where "maxNestingDepth = 10000"

definition json_parse :: "string \<Rightarrow> json option" where
  "json_parse s =
     (case parse_value (2 * length s + 2) s of
        Some (j, r) \<Rightarrow> if skip_ws r = [] \<and> json_depth j \<le> maxNestingDepth then Some j else None
      | None \<Rightarrow> None)"

declare parse_value.simps [simp del] parse_elems.simps [simp del] parse_members.simps [simp del]


section \<open>Enough fuel\<close>

lemma length_skip_ws: "length (skip_ws s) \<le> length s"
  by (simp add: skip_ws_def length_dropWhile_le)

lemma expect_shorter: "expect c s = Some r \<Longrightarrow> length r < length s"
  using length_skip_ws [of s] by (auto simp: expect_def split: list.splits if_splits)

lemma parse_word_shorter: "parse_word w x s = Some (y, r) \<Longrightarrow> w \<noteq> [] \<Longrightarrow> length r < length s"
  by (cases s; cases w) (auto simp: parse_word_def split: if_splits)

lemma parse_key_shorter: "parse_key s = Some (k, r) \<Longrightarrow> length r < length s"
  by (auto simp: parse_key_def split: option.splits dest!: expect_shorter parse_str_shorter)

lemma parse_shorter:
  "parse_value n s = Some (x, r) \<Longrightarrow> length r < length s"
  "parse_elems n s = Some (xs, r) \<Longrightarrow> length r < length s"
  "parse_members n s = Some (kvs, r) \<Longrightarrow> length r < length s"
proof (induction n s and n s and n s arbitrary: x r and xs r and kvs r
    rule: parse_value_parse_elems_parse_members.induct)
  case (2 n s)
  show ?case
  proof (cases "skip_ws s")
    case Nil
    with "2.prems" show ?thesis by (simp add: parse_value.simps)
  next
    case (Cons c u)
    have "length u < length s" using length_skip_ws [of s] by (simp add: Cons)
    moreover have "length r \<le> length u"
      using "2.prems" "2.IH" Cons
      by (auto simp: parse_value.simps less_Suc_eq_le split: option.splits if_splits
          dest!: expect_shorter parse_str_shorter parse_num_shorter
            parse_word_shorter [where w = "''true''"] parse_word_shorter [where w = "''false''"]
            parse_word_shorter [where w = "''null''"] intro: less_imp_le)
    ultimately show ?thesis by simp
  qed
next
  case (4 n s)
  from "4.prems" obtain y u where y: "parse_value n s = Some (y, u)"
    by (auto simp: parse_elems.simps split: option.splits)
  have "length r < length u"
    using "4.prems" "4.IH"(2) [OF y refl] y
    by (auto simp: parse_elems.simps split: option.splits dest!: expect_shorter intro: less_trans)
  then show ?case using "4.IH"(1) [OF y] by simp
next
  case (6 n s)
  from "6.prems" obtain k u y v where k: "parse_key s = Some (k, u)" and y: "parse_value n u = Some (y, v)"
    by (auto simp: parse_members.simps split: option.splits)
  have "length r < length v"
    using "6.prems" "6.IH"(2) [OF k refl y refl] k y
    by (auto simp: parse_members.simps split: option.splits dest!: expect_shorter intro: less_trans)
  then show ?case using "6.IH"(1) [OF k refl y] parse_key_shorter [OF k] by simp
qed (simp_all add: parse_value.simps parse_elems.simps parse_members.simps)

lemma parse_fuel:
  "(2 * length s < n \<longrightarrow> 2 * length s < m \<longrightarrow> parse_value n s = parse_value m s) \<and>
   (2 * length s + 1 < n \<longrightarrow> 2 * length s + 1 < m \<longrightarrow>
      parse_elems n s = parse_elems m s \<and> parse_members n s = parse_members m s)"
proof (induction "length s" arbitrary: s n m rule: less_induct)
  case less
  have val: "parse_value n s = parse_value m s" if big: "2 * length s < n" "2 * length s < m" for n m
  proof -
    obtain n' m' where nm: "n = Suc n'" "m = Suc m'" using big by (cases n; cases m) auto
    show ?thesis
    proof (cases "skip_ws s")
      case (Cons c u)
      have "length u < length s" using length_skip_ws [of s] by (simp add: Cons)
      then have "parse_elems n' u = parse_elems m' u \<and> parse_members n' u = parse_members m' u"
        using less [of u n' m'] big nm by auto
      then show ?thesis by (simp add: nm parse_value.simps Cons split: option.split)
    qed (simp add: nm parse_value.simps)
  qed
  have "parse_elems n s = parse_elems m s \<and> parse_members n s = parse_members m s"
    if big: "2 * length s + 1 < n" "2 * length s + 1 < m" for n m
  proof -
    obtain n' m' where nm: "n = Suc n'" "m = Suc m'" using big by (cases n; cases m) auto
    have v: "parse_value n' s = parse_value m' s" by (rule val) (use big nm in auto)
    have v': "parse_value n' u = parse_value m' u" if "length u < length s" for u
      using less [OF that, of n' m'] that nm big by auto
    have e: "parse_elems n' u = parse_elems m' u" "parse_members n' u = parse_members m' u"
      if "length u < length s" for u
      using less [OF that, of n' m'] that nm big by auto
    have "parse_elems n s = parse_elems m s"
    proof (cases "parse_value m' s")
      case (Some xr)
      then obtain x r where x: "parse_value m' s = Some (x, r)" by (cases xr) simp
      have "parse_elems n' r' = parse_elems m' r'" if "expect (CHR '','') r = Some r'" for r'
        using expect_shorter [OF that] parse_shorter(1) [OF x] e by simp
      then show ?thesis by (simp add: nm parse_elems.simps v x split: option.split)
    qed (simp add: nm parse_elems.simps v)
    moreover have "parse_members n s = parse_members m s"
    proof (cases "parse_key s")
      case (Some ku)
      then obtain k u where k: "parse_key s = Some (k, u)" by (cases ku) simp
      note ku = parse_key_shorter [OF k]
      show ?thesis
      proof (cases "parse_value m' u")
        case (Some xr)
        then obtain x r where x: "parse_value m' u = Some (x, r)" by (cases xr) simp
        have "parse_members n' r' = parse_members m' r'" if "expect (CHR '','') r = Some r'" for r'
          using expect_shorter [OF that] parse_shorter(1) [OF x] ku e by simp
        then show ?thesis by (simp add: nm parse_members.simps k v' [OF ku] x split: option.split)
      qed (simp add: nm parse_members.simps k v' [OF ku])
    qed (simp add: nm parse_members.simps)
    ultimately show ?thesis ..
  qed
  with val show ?case by blast
qed

text \<open>More fuel than \<open>json_parse\<close> gives changes nothing.\<close>

lemma parse_value_fuel: "2 * length s < n \<Longrightarrow> parse_value n s = parse_value (2 * length s + 2) s"
  using parse_fuel [of s n "2 * length s + 2"] by simp


section \<open>Printing\<close>

definition comma_sep :: "string list \<Rightarrow> string" where
  "comma_sep xs = (case xs of [] \<Rightarrow> '''' | x # ys \<Rightarrow> x @ concat (map (\<lambda>y. '','' @ y) ys))"

fun json_print :: "json \<Rightarrow> string" where
  "json_print JNull = ''null''"
| "json_print (JBool b) = (if b then ''true'' else ''false'')"
| "json_print (JNum t) = t"
| "json_print (JStr s) = json_quote s"
| "json_print (JArr xs) = ''['' @ comma_sep (map json_print xs) @ '']''"
| "json_print (JObj kvs) = ''{'' @ comma_sep (map (\<lambda>(k, v). json_quote k @ '':'' @ json_print v) kvs) @ ''}''"

text \<open>
  Printing with white space: \<open>nl d\<close> before every element at depth \<open>d\<close> and before the bracket that closes
  depth \<open>d\<close>, \<open>sp\<close> after a colon; an empty array or object stays together. With no white space this is
  \<open>json_print\<close>, with new lines and indents it is what \<open>json.MarshalIndent\<close> writes.
\<close>

fun json_layout :: "(nat \<Rightarrow> string) \<Rightarrow> string \<Rightarrow> nat \<Rightarrow> json \<Rightarrow> string" where
  "json_layout nl sp d (JArr xs) =
     (if xs = [] then ''[]''
      else ''['' @ comma_sep (map (\<lambda>x. nl (Suc d) @ json_layout nl sp (Suc d) x) xs) @ nl d @ '']'')"
| "json_layout nl sp d (JObj kvs) =
     (if kvs = [] then ''{}''
      else ''{'' @ comma_sep (map (\<lambda>(k, v). nl (Suc d) @ json_quote k @ '':'' @ sp @ json_layout nl sp (Suc d) v) kvs)
        @ nl d @ ''}'')"
| "json_layout nl sp d j = json_print j"

definition json_indent :: "string \<Rightarrow> json \<Rightarrow> string" where
  "json_indent ind = json_layout (\<lambda>d. CHR 0x0A # concat (replicate d ind)) '' '' 0"

text \<open>The trees Go values are written as: number literals that are numbers, strings that are UTF-8.\<close>

fun json_ok :: "json \<Rightarrow> bool" where
  "json_ok (JNum t) = number_ok t"
| "json_ok (JStr s) = valid_utf8 s"
| "json_ok (JArr xs) = (\<forall>x\<in>set xs. json_ok x)"
| "json_ok (JObj kvs) = (\<forall>(k, v)\<in>set kvs. valid_utf8 k \<and> json_ok v)"
| "json_ok _ = True"

lemma comma_sep_simps [simp]:
  "comma_sep [] = ''''" "comma_sep [x] = x" "comma_sep (x # y # ys) = x @ CHR '','' # comma_sep (y # ys)"
  by (simp_all add: comma_sep_def)

lemma json_print_layout: "json_layout (\<lambda>_. '''') '''' d j = json_print j"
proof (induction "\<lambda>_ :: nat. '''' :: string" "'''' :: string" d j rule: json_layout.induct)
  case (1 d xs)
  then have "map (json_layout (\<lambda>_. '''') '''' (Suc d)) xs = map json_print xs" by (cases "xs = []") simp_all
  then show ?case by (simp del: map_eq_conv)
next
  case (2 d kvs)
  then have "map (\<lambda>(k, v). json_quote k @ CHR '':'' # json_layout (\<lambda>_. '''') '''' (Suc d) v) kvs =
      map (\<lambda>(k, v). json_quote k @ CHR '':'' # json_print v) kvs"
    by (cases "kvs = []") auto
  then show ?case by (simp del: map_eq_conv)
qed simp_all

lemma ws_chars [simp]:
  "\<not> is_ws (CHR '','')" "\<not> is_ws (CHR '']'')" "\<not> is_ws (CHR ''}'')" "\<not> is_ws (CHR '':'')" "\<not> is_ws quote"
  "\<not> is_ws (CHR ''['')" "\<not> is_ws (CHR ''{'')" "\<not> is_ws (CHR ''t'')" "\<not> is_ws (CHR ''f'')" "\<not> is_ws (CHR ''n'')"
  by (simp_all add: is_ws_def)

lemma skip_ws_Cons [simp]: "\<not> is_ws c \<Longrightarrow> skip_ws (c # r) = c # r"
  by (simp add: skip_ws_def)

lemma expect_Cons [simp]: "\<not> is_ws d \<Longrightarrow> expect c (d # r) = (if d = c then Some r else None)"
  by (simp add: expect_def)

lemma quote_braces [simp]:
  "quote \<noteq> CHR ''{''" "quote \<noteq> CHR ''[''" "quote \<noteq> CHR ''}''" "quote \<noteq> CHR '']''"
  "quote \<noteq> CHR ''t''" "quote \<noteq> CHR ''f''" "quote \<noteq> CHR ''n''" "quote \<noteq> CHR ''-''"
  by (simp_all add: quote_def char_of_eq_iff)

lemmas quote_braces' [simp] = quote_braces [symmetric]

lemma num_end_punct [simp]: "num_end []" "num_end (CHR '','' # r)" "num_end (CHR '']'' # r)" "num_end (CHR ''}'' # r)"
  by (simp_all add: num_end_def is_digit_def)


section \<open>White space\<close>

definition blank :: "string \<Rightarrow> bool" where
  "blank w \<longleftrightarrow> (\<forall>c\<in>set w. is_ws c)"

lemma blank_simps [simp]: "blank []" "blank (c # w) \<longleftrightarrow> is_ws c \<and> blank w"
  by (simp_all add: blank_def)

lemma skip_ws_blank [simp]: "blank w \<Longrightarrow> skip_ws (w @ s) = skip_ws s"
  by (induction w) (simp_all add: skip_ws_def)

lemma expect_blank [simp]: "blank w \<Longrightarrow> expect c (w @ s) = expect c s"
  by (simp add: expect_def)

lemma parse_key_blank [simp]: "blank w \<Longrightarrow> parse_key (w @ s) = parse_key s"
  by (simp add: parse_key_def)

lemma parse_value_blank [simp]: "blank w \<Longrightarrow> parse_value n (w @ s) = parse_value n s"
  by (cases n) (simp_all add: parse_value.simps)

lemma num_end_blank: "blank w \<Longrightarrow> num_end r \<Longrightarrow> num_end (w @ r)"
  by (cases w) (auto simp: num_end_def is_ws_def is_digit_def)


section \<open>Reading what was written\<close>

text \<open>A text spells a value if it is read as that value wherever a number may end after it.\<close>

definition spells :: "string \<Rightarrow> json \<Rightarrow> bool" where
  "spells s j \<longleftrightarrow> (\<forall>n r. num_end r \<longrightarrow> 2 * length s < n \<longrightarrow> parse_value n (s @ r) = Some (j, r))"

lemma spellsD: "spells s j \<Longrightarrow> num_end r \<Longrightarrow> 2 * length s < n \<Longrightarrow> parse_value n (s @ r) = Some (j, r)"
  by (simp add: spells_def)

lemma spells_blank: "spells s j \<Longrightarrow> blank w \<Longrightarrow> spells (w @ s) j"
  by (simp add: spells_def)

text \<open>How a value or a member starts: not with a closing bracket.\<close>

lemma parse_value_start:
  assumes "parse_value n s = Some x"
  shows "expect (CHR '']'') s = None \<and> expect (CHR ''}'') s = None"
proof (rule ccontr)
  assume bad: "\<not> ?thesis"
  then obtain r where r: "skip_ws s = CHR '']'' # r \<or> skip_ws s = CHR ''}'' # r"
    by (auto simp: expect_def split: list.splits if_splits)
  have num: "parse_num (CHR '']'' # r) = None" "parse_num (CHR ''}'' # r) = None"
    by (simp_all add: parse_num_def scan_sign_def scan_int_def is_digit_def)
  obtain m where "n = Suc m" using assms by (cases n) (simp_all add: parse_value.simps)
  then have "parse_value n s = None" using r num by (auto simp: parse_value.simps)
  with assms show False by simp
qed

lemma parse_key_start: "parse_key s = Some x \<Longrightarrow> expect (CHR ''}'') s = None"
  by (auto simp: parse_key_def expect_def split: option.splits list.splits if_splits)

lemma parse_key_print:
  "valid_utf8 k \<Longrightarrow> parse_key (json_quote k @ CHR '':'' # r) = Some (k, r)"
  by (simp add: parse_key_def json_quote_def parse_str_json_escape)

lemma parse_elems_spelled:
  assumes "xs \<noteq> []" "\<And>x. x \<in> set xs \<Longrightarrow> spells (f x) x" "blank w"
    and "2 * length (comma_sep (map f xs)) + 2 \<le> n"
  shows "parse_elems n (comma_sep (map f xs) @ w @ CHR '']'' # r) = Some (xs, r)"
  using assms
proof (induction xs arbitrary: n)
  case (Cons x xs)
  obtain m where m: "n = Suc m" using Cons.prems(4) by (cases n) auto
  show ?case
  proof (cases xs)
    case Nil
    have "parse_value m (f x @ w @ CHR '']'' # r) = Some (x, w @ CHR '']'' # r)"
      by (rule spellsD) (use Nil Cons.prems m in \<open>auto intro: num_end_blank\<close>)
    then show ?thesis using Cons.prems(3) by (simp add: Nil m parse_elems.simps)
  next
    case (Cons y ys)
    let ?t = "comma_sep (map f xs)"
    have len: "2 * length (f x) + 2 * length ?t + 4 \<le> n" using Cons.prems(4) by (simp add: Cons)
    have "parse_elems m (?t @ w @ CHR '']'' # r) = Some (xs, r)"
      by (rule Cons.IH) (use Cons Cons.prems len m in auto)
    moreover have "parse_value m (f x @ CHR '','' # ?t @ w @ CHR '']'' # r) = Some (x, CHR '','' # ?t @ w @ CHR '']'' # r)"
      by (rule spellsD) (use Cons.prems len m in auto)
    ultimately show ?thesis by (simp add: m parse_elems.simps Cons)
  qed
qed simp

text \<open>A text of a member: a key, its colon and a value, with white space before both.\<close>

definition member_text :: "string \<Rightarrow> string \<Rightarrow> (json \<Rightarrow> string) \<Rightarrow> string \<times> json \<Rightarrow> string" where
  "member_text u sp f = (\<lambda>(k, v). u @ json_quote k @ '':'' @ sp @ f v)"

lemma parse_members_spelled:
  assumes "kvs \<noteq> []" "\<And>k v. (k, v) \<in> set kvs \<Longrightarrow> valid_utf8 k \<and> spells (f v) v" "blank u" "blank sp" "blank w"
    and "2 * length (comma_sep (map (member_text u sp f) kvs)) + 2 \<le> n"
  shows "parse_members n (comma_sep (map (member_text u sp f) kvs) @ w @ CHR ''}'' # r) = Some (kvs, r)"
  using assms
proof (induction kvs arbitrary: n)
  case (Cons kv kvs)
  obtain k v where kv: "kv = (k, v)" by (cases kv)
  obtain m where m: "n = Suc m" using Cons.prems(6) by (cases n) auto
  have ok: "valid_utf8 k" "spells (f v) v" using Cons.prems(2) [of k v] by (simp_all add: kv)
  show ?case
  proof (cases kvs)
    case Nil
    have "parse_value m (f v @ w @ CHR ''}'' # r) = Some (v, w @ CHR ''}'' # r)"
      by (rule spellsD) (use Nil Cons.prems ok m in \<open>auto intro: num_end_blank simp: kv member_text_def\<close>)
    then show ?thesis
      using Cons.prems parse_key_print [OF ok(1)] by (simp add: Nil m kv member_text_def parse_members.simps)
  next
    case (Cons y ys)
    let ?t = "comma_sep (map (member_text u sp f) kvs)"
    have len: "2 * length (f v) + 2 * length ?t + 4 \<le> n"
      using Cons.prems(6) by (simp add: Cons kv member_text_def [of u sp f])
    have "parse_members m (?t @ w @ CHR ''}'' # r) = Some (kvs, r)"
      by (rule Cons.IH) (use Cons Cons.prems len m in auto)
    moreover have "parse_value m (f v @ CHR '','' # ?t @ w @ CHR ''}'' # r) = Some (v, CHR '','' # ?t @ w @ CHR ''}'' # r)"
      by (rule spellsD) (use ok len m in auto)
    ultimately show ?thesis
      using parse_key_print [OF ok(1)] Cons.prems
      by (simp add: m kv parse_members.simps Cons) (simp add: member_text_def)
  qed
qed simp

lemma spells_num: "number_ok t \<Longrightarrow> spells t (JNum t)"
proof (unfold spells_def, intro allI impI)
  fix n r
  assume ok: "number_ok t" and r: "num_end r" and n: "2 * length t < n"
  obtain m where m: "n = Suc m" using n by (cases n) auto
  obtain c u where t: "t = c # u"
    using ok by (cases t) (auto simp: number_ok_def parse_num_iff scan_sign_def scan_int_def)
  have "c = CHR ''-'' \<or> is_digit c"
    using ok by (auto simp: t number_ok_def parse_num_iff scan_sign_def scan_int_def is_digit_def split: if_splits)
  then have "\<not> is_ws c" "c \<noteq> CHR ''{''" "c \<noteq> CHR ''[''" "c \<noteq> quote" "c \<noteq> CHR ''t''" "c \<noteq> CHR ''f''" "c \<noteq> CHR ''n''"
    by (auto simp: is_digit_def is_ws_def)
  then show "parse_value n (t @ r) = Some (JNum t, r)"
    using parse_num_append [OF ok r] by (simp add: m t parse_value.simps)
qed

lemma spells_simple:
  "spells ''null'' JNull" "spells ''true'' (JBool True)" "spells ''false'' (JBool False)" "spells ''[]'' (JArr [])"
  "spells ''{}'' (JObj [])" "valid_utf8 s \<Longrightarrow> spells (json_quote s) (JStr s)"
  unfolding spells_def
  by (intro allI impI; case_tac n; simp add: parse_value.simps parse_word_def json_quote_def parse_str_json_escape)+

lemma spells_array:
  assumes "xs \<noteq> []" "\<And>x. x \<in> set xs \<Longrightarrow> spells (f x) x" "blank w"
  shows "spells (''['' @ comma_sep (map f xs) @ w @ '']'') (JArr xs)"
proof (unfold spells_def, intro allI impI)
  fix n r
  assume n: "2 * length (''['' @ comma_sep (map f xs) @ w @ '']'') < n"
  obtain m where m: "n = Suc m" using n by (cases n) auto
  have elems: "parse_elems m (comma_sep (map f xs) @ w @ CHR '']'' # r) = Some (xs, r)"
    by (rule parse_elems_spelled [OF assms]) (use n m in auto)
  obtain m' where "m = Suc m'" using n m by (cases m) auto
  with elems have "parse_value m' (comma_sep (map f xs) @ w @ CHR '']'' # r) \<noteq> None"
    by (auto simp: parse_elems.simps split: option.splits)
  then have "expect (CHR '']'') (comma_sep (map f xs) @ w @ CHR '']'' # r) = None"
    using parse_value_start by blast
  then show "parse_value n ((''['' @ comma_sep (map f xs) @ w @ '']'') @ r) = Some (JArr xs, r)"
    using elems by (simp add: m parse_value.simps)
qed

lemma spells_object:
  assumes "kvs \<noteq> []" "\<And>k v. (k, v) \<in> set kvs \<Longrightarrow> valid_utf8 k \<and> spells (f v) v" "blank u" "blank sp" "blank w"
  shows "spells (''{'' @ comma_sep (map (member_text u sp f) kvs) @ w @ ''}'') (JObj kvs)"
proof (unfold spells_def, intro allI impI)
  fix n r
  let ?s = "comma_sep (map (member_text u sp f) kvs)"
  assume n: "2 * length (''{'' @ ?s @ w @ ''}'') < n"
  obtain m where m: "n = Suc m" using n by (cases n) auto
  have members: "parse_members m (?s @ w @ CHR ''}'' # r) = Some (kvs, r)"
    by (rule parse_members_spelled [OF assms]) (use n m in auto)
  obtain m' where "m = Suc m'" using n m by (cases m) auto
  with members have "parse_key (?s @ w @ CHR ''}'' # r) \<noteq> None"
    by (auto simp: parse_members.simps split: option.splits)
  then have "expect (CHR ''}'') (?s @ w @ CHR ''}'' # r) = None"
    using parse_key_start by blast
  then show "parse_value n ((''{'' @ ?s @ w @ ''}'') @ r) = Some (JObj kvs, r)"
    using members by (simp add: m parse_value.simps)
qed

text \<open>Whatever the white space, the layout of a tree spells it.\<close>

lemma spells_layout:
  assumes "\<And>d. blank (nl d)" "blank sp" "json_ok j"
  shows "spells (json_layout nl sp d j) j"
  using assms
proof (induction nl sp d j rule: json_layout.induct)
  case (1 nl sp d xs)
  show ?case
  proof (cases "xs = []")
    case False
    have "spells (nl (Suc d) @ json_layout nl sp (Suc d) x) x" if "x \<in> set xs" for x
      using 1 False that by (simp add: spells_blank)
    from spells_array [OF False this 1(2)] False show ?thesis by simp
  qed (simp add: spells_simple)
next
  case (2 nl sp d kvs)
  show ?case
  proof (cases "kvs = []")
    case False
    have "valid_utf8 k \<and> spells (json_layout nl sp (Suc d) v) v" if "(k, v) \<in> set kvs" for k v
      using 2 False that by fastforce
    from spells_object [OF False this 2(2,3,2)] False show ?thesis by (simp add: member_text_def)
  qed (simp add: spells_simple)
qed (auto simp: spells_simple spells_num)

definition json_fits :: "json \<Rightarrow> bool" where
  "json_fits j \<longleftrightarrow> json_ok j \<and> json_depth j \<le> maxNestingDepth"

lemma json_parse_spelled:
  assumes "spells s j" "json_fits j"
  shows "json_parse s = Some j"
  using spellsD [OF assms(1), of "[]" "2 * length s + 2"] assms(2) by (simp add: json_fits_def json_parse_def skip_ws_def)

interpretation json_codec: codec json_fits json_print json_parse
proof
  fix j
  assume j: "json_fits j"
  then have "spells (json_print j) j"
    using spells_layout [of "\<lambda>_. ''''" "''''" j 0] by (simp add: json_fits_def json_print_layout)
  then show "json_parse (json_print j) = Some j" using j by (rule json_parse_spelled)
qed

lemma json_parse_print: "json_ok j \<Longrightarrow> json_depth j \<le> maxNestingDepth \<Longrightarrow> json_parse (json_print j) = Some j"
  by (rule json_codec.dec_enc) (simp add: json_fits_def)

text \<open>Indented with white space it reads the same.\<close>

lemma blank_indent: "blank ind \<Longrightarrow> blank (CHR 0x0A # concat (replicate d ind))"
  by (auto simp: blank_def is_ws_def)

lemma json_parse_indent:
  assumes "blank ind" "json_fits j"
  shows "json_parse (json_indent ind j) = Some j"
proof (rule json_parse_spelled)
  show "spells (json_indent ind j) j"
    unfolding json_indent_def using assms
    by (intro spells_layout blank_indent) (simp_all add: json_fits_def is_ws_def)
qed (rule assms)

end
