(* ===== verification/JsonNumber.thy ===== *)
theory JsonNumber
  imports Json
begin

text \<open>
  How \<open>encoding/json\<close> writes Go numbers: integers in decimal, a \<open>float64\<close> with the fewest digits that
  read back, in positional notation between \<open>1e-6\<close> and \<open>1e21\<close> and with an exponent outside. Every such
  text is a JSON number, and it stands for the number it was written from.
\<close>

section \<open>The shape of a literal\<close>

lemma is_digit_iff: "is_digit c \<longleftrightarrow> (\<exists>d<10. digit_val c = Some d)"
  by (auto simp: is_digit_def digit_val_def Let_def)

lemma is_digits_10: "is_digits 10 s \<longleftrightarrow> (\<forall>c\<in>set s. is_digit c)"
  by (auto simp: is_digits_def is_digit_iff)

lemma take_digits:
  assumes "is_digits 10 s" "r = [] \<or> \<not> is_digit (hd r)"
  shows "takeWhile is_digit (s @ r) = s" "dropWhile is_digit (s @ r) = r"
  using assms by (cases r; auto simp: is_digits_10 takeWhile_append dropWhile_append)+

text \<open>The decimals and the exponent of a literal, either of them possibly missing.\<close>

definition frac_text :: "string \<Rightarrow> string" where
  "frac_text fd = (if fd = [] then '''' else CHR ''.'' # fd)"

definition exp_text :: "(bool \<times> string) option \<Rightarrow> string" where
  "exp_text e = (case e of None \<Rightarrow> '''' | Some (neg, ed) \<Rightarrow> CHR ''e'' # (if neg then CHR ''-'' else CHR ''+'') # ed)"

definition exp_value :: "(bool \<times> string) option \<Rightarrow> int" where
  "exp_value e =
     (case e of None \<Rightarrow> 0 | Some (neg, ed) \<Rightarrow> (if neg then - 1 else 1) * int (digits_value 10 0 ed))"

definition literal :: "bool \<Rightarrow> string \<Rightarrow> string \<Rightarrow> (bool \<times> string) option \<Rightarrow> string" where
  "literal neg i fd e = (if neg then ''-'' else '''') @ i @ frac_text fd @ exp_text e"

definition literal_ok :: "string \<Rightarrow> string \<Rightarrow> (bool \<times> string) option \<Rightarrow> bool" where
  "literal_ok i fd e \<longleftrightarrow>
     i \<noteq> [] \<and> is_digits 10 i \<and> (hd i = CHR ''0'' \<longrightarrow> i = ''0'') \<and> is_digits 10 fd \<and>
     (case e of None \<Rightarrow> True | Some (_, ed) \<Rightarrow> ed \<noteq> [] \<and> is_digits 10 ed \<and> digits_value 10 0 ed < 2 ^ 63)"

lemma digit_zero [simp]: "is_digit (CHR ''0'')" "\<not> is_digit (CHR ''.'')" "\<not> is_digit (CHR ''e'')" "\<not> is_digit (CHR ''-'')"
  by (simp_all add: is_digit_def)

lemma exp_text_start: "exp_text e = [] \<or> hd (exp_text e) = CHR ''e''"
  by (auto simp: exp_text_def split: option.splits)

lemma tail_start: "frac_text fd @ exp_text e = [] \<or> \<not> is_digit (hd (frac_text fd @ exp_text e))"
  using exp_text_start [of e] by (auto simp: frac_text_def)

lemma scan_digits_all: "s \<noteq> [] \<Longrightarrow> is_digits 10 s \<Longrightarrow> r = [] \<or> \<not> is_digit (hd r) \<Longrightarrow> scan_digits p (s @ r) = Some (p @ s, r)"
  by (simp add: scan_digits_def take_digits)

lemma scan_exp_text: "literal_ok i fd e \<Longrightarrow> scan_exp (exp_text e) = Some (exp_text e, [])"
  using scan_digits_all [of "snd (the e)" "[]"]
  by (auto simp: literal_ok_def exp_text_def scan_exp_def split: option.splits)

lemma scan_frac_text: "literal_ok i fd e \<Longrightarrow> scan_frac (frac_text fd @ exp_text e) = Some (frac_text fd, exp_text e)"
  using exp_text_start [of e] scan_digits_all [of fd "exp_text e" "''.''"]
  by (cases "exp_text e") (auto simp: literal_ok_def frac_text_def scan_frac_def)

lemma scan_int_text:
  assumes "literal_ok i fd e" shows "scan_int (i @ frac_text fd @ exp_text e) = Some (i, frac_text fd @ exp_text e)"
proof (cases "hd i = CHR ''0''")
  case True
  with assms show ?thesis by (auto simp: literal_ok_def scan_int_def)
next
  case False
  obtain c u where i: "i = c # u" using assms by (cases i) (auto simp: literal_ok_def)
  have "is_digit c" using assms by (simp add: literal_ok_def i is_digit_iff)
  then show ?thesis
    using False take_digits [OF _ tail_start, of i fd e] assms by (simp add: i literal_ok_def scan_int_def)
qed

lemma scan_sign_literal:
  "literal_ok i fd e \<Longrightarrow>
     scan_sign (literal neg i fd e) = (if neg then ''-'' else '''', i @ frac_text fd @ exp_text e)"
  by (cases i) (auto simp: literal_ok_def literal_def scan_sign_def is_digits_10)

lemma number_ok_literal: "literal_ok i fd e \<Longrightarrow> number_ok (literal neg i fd e)"
  by (simp add: number_ok_def parse_num_def scan_sign_literal scan_int_text scan_frac_text scan_exp_text)
     (simp add: literal_def)

lemma ParseInt_signed:
  assumes "ed \<noteq> []" "is_digits 10 ed" "digits_value 10 0 ed < 2 ^ 63"
  shows "fst (ParseInt ((if neg then CHR ''-'' else CHR ''+'') # ed) 10 64)
     = (if neg then - 1 else 1) * int (digits_value 10 0 ed)"
proof -
  have "ParseUint ed 10 64 = (digits_value 10 0 ed, None)"
    using parse_uint_loop_digits [of 10 "2 ^ 64 - 1" ed 0] assms by (simp add: ParseUint_def)
  then show ?thesis using assms(3) by (simp add: ParseInt_def Let_def)
qed

lemma num_value_literal:
  assumes "literal_ok i fd e"
  shows "num_value (literal neg i fd e) =
     (if neg then - 1 else 1) * of_nat (digits_value 10 0 (i @ fd)) * 10 powi (exp_value e - int (length fd))"
proof -
  have i: "is_digits 10 i" and fd: "is_digits 10 fd" using assms by (simp_all add: literal_ok_def)
  note tk = take_digits [OF i tail_start, of fd e]
  have f: "(case frac_text fd @ exp_text e of c # r \<Rightarrow> if c = CHR ''.'' then takeWhile is_digit r else '''' | [] \<Rightarrow> '''') = fd"
    using exp_text_start [of e] take_digits(1) [OF fd, of "exp_text e"]
    by (cases "exp_text e") (auto simp: frac_text_def)
  have s3: "(if fd = '''' then frac_text fd @ exp_text e else drop (Suc (length fd)) (frac_text fd @ exp_text e)) = exp_text e"
    by (simp add: frac_text_def)
  have ev: "(case exp_text e of _ # r \<Rightarrow> fst (ParseInt r 10 64) | [] \<Rightarrow> 0) = exp_value e"
  proof (cases e)
    case (Some ne)
    then obtain n ed where e: "e = Some (n, ed)" by (cases ne) simp
    show ?thesis
      using assms ParseInt_signed [of ed n] by (simp add: e literal_ok_def exp_text_def exp_value_def)
  qed (simp add: exp_text_def exp_value_def)
  show ?thesis
    unfolding num_value_def scan_sign_literal [OF assms] Let_def prod.case tk f s3 ev by simp
qed

section \<open>Integers\<close>

lemma format_nat_start: "hd (format_nat n) = CHR ''0'' \<longleftrightarrow> n = 0"
proof (induction n rule: format_nat.induct)
  case (1 n)
  show ?case
  proof (cases "n < 10")
    case True
    then show ?thesis by (subst format_nat.simps) (auto simp: digit_char_def char_of_eq_iff take_bit_eq_mod)
  next
    case False
    with 1 show ?thesis by (subst format_nat.simps) (auto simp: div_eq_0_iff)
  qed
qed

lemma format_nat_0: "format_nat 0 = ''0''"
  by (subst format_nat.simps) (simp add: digit_char_def char_of_eq_iff)

lemma literal_ok_nat: "literal_ok (format_nat n) [] None"
  using format_nat_start [of n] format_nat_digits by (auto simp: literal_ok_def format_nat_0)

lemma format_int_literal: "format_int k = literal (k < 0) (format_nat (nat \<bar>k\<bar>)) [] None"
  by (simp add: format_int_def literal_def frac_text_def exp_text_def)

lemma number_ok_int: "number_ok (format_int k)"
  by (simp add: format_int_literal number_ok_literal literal_ok_nat)

lemma num_value_int: "num_value (format_int k) = of_int k"
  using format_nat_digits
  by (simp add: format_int_literal num_value_literal [OF literal_ok_nat] exp_value_def)


section \<open>Floats\<close>

lemma digits_value_shift: "digits_value 10 a s = a * 10 ^ length s + digits_value 10 0 s"
proof (induction s arbitrary: a)
  case (Cons c s)
  show ?case
    using Cons [of "a * 10 + the (digit_val c)"] Cons [of "the (digit_val c)"] by (simp add: algebra_simps)
qed simp

lemma length_format_nat: "n < 10 ^ k \<Longrightarrow> 0 < k \<Longrightarrow> length (format_nat n) \<le> k"
proof (induction n arbitrary: k rule: format_nat.induct)
  case (1 n)
  show ?case
  proof (cases "n < 10")
    case True
    then show ?thesis using 1 by (subst format_nat.simps) simp
  next
    case False
    obtain j where k: "k = Suc j" using 1 by (cases k) auto
    with 1 False have "0 < j" by (cases j) auto
    moreover have "n div 10 < 10 ^ j" using 1 by (simp add: k div_less_iff_less_mult)
    ultimately show ?thesis using "1.IH" [OF False] False by (subst format_nat.simps) (simp add: k)
  qed
qed

lemma pad_nat_digits:
  assumes "n < 10 ^ k" "0 < k"
  shows "length (pad_nat k n) = k" "is_digits 10 (pad_nat k n)" "digits_value 10 a (pad_nat k n) = a * 10 ^ k + n"
proof -
  have zero: "digit_val (CHR ''0'') = Some 0" by (simp add: digit_val_def)
  have z: "digits_value 10 b (replicate m (CHR ''0'')) = b * 10 ^ m" for b m
    by (induction m arbitrary: b) (simp_all add: zero)
  show l: "length (pad_nat k n) = k" using length_format_nat [OF assms] by (simp add: pad_nat_def)
  show "is_digits 10 (pad_nat k n)"
    using format_nat_digits by (auto simp: pad_nat_def is_digits_10)
  have "digits_value 10 0 (pad_nat k n) = n" using format_nat_digits by (simp add: pad_nat_def z)
  then show "digits_value 10 a (pad_nat k n) = a * 10 ^ k + n" using digits_value_shift [of a] l by simp
qed

definition reads_as :: "string \<Rightarrow> rat \<Rightarrow> bool" where
  "reads_as t x \<longleftrightarrow> number_ok t \<and> num_value t = x"

lemma reads_as_literal:
  "literal_ok i fd e \<Longrightarrow>
     of_nat (digits_value 10 0 (i @ fd)) * 10 powi (exp_value e - int (length fd)) = y \<Longrightarrow>
     x = (if neg then - y else y) \<Longrightarrow> reads_as (literal neg i fd e) x"
  by (auto simp: reads_as_def number_ok_literal num_value_literal)

lemma format_decimal:
  "reads_as (sign_text x @ (if 0 \<le> u then format_nat (d * 10 ^ nat u) else decimal_text (nat (- u)) d))
     ((if x < 0 then - 1 else 1) * (of_nat d * 10 powi u))"
proof (cases "0 \<le> u")
  case True
  have "sign_text x @ format_nat (d * 10 ^ nat u) = literal (x < 0) (format_nat (d * 10 ^ nat u)) [] None"
    by (simp add: sign_text_def literal_def frac_text_def exp_text_def)
  moreover have "reads_as (literal (x < 0) (format_nat (d * 10 ^ nat u)) [] None)
      ((if x < 0 then - 1 else 1) * (of_nat d * 10 powi u))"
    using True format_nat_digits
    by (intro reads_as_literal [OF literal_ok_nat refl]) (simp add: exp_value_def power_int_def)
  ultimately show ?thesis using True by simp
next
  case False
  define k where "k = nat (- u)"
  have k: "0 < k" "u = - int k" using False by (simp_all add: k_def)
  define fd where "fd = pad_nat k (d mod 10 ^ k)"
  have fd: "length fd = k" "is_digits 10 fd" "digits_value 10 a fd = a * 10 ^ k + d mod 10 ^ k" for a
    using pad_nat_digits [of "d mod 10 ^ k" k] k by (simp_all add: fd_def)
  have "fd \<noteq> []" using fd(1) k by auto
  then have t: "sign_text x @ decimal_text k d = literal (x < 0) (format_nat (d div 10 ^ k)) fd None"
    using k by (simp add: sign_text_def literal_def frac_text_def exp_text_def decimal_text_def fd_def)
  have "literal_ok (format_nat (d div 10 ^ k)) fd None"
    using literal_ok_nat [of "d div 10 ^ k"] fd(2) by (simp add: literal_ok_def)
  then have "reads_as (literal (x < 0) (format_nat (d div 10 ^ k)) fd None)
      ((if x < 0 then - 1 else 1) * (of_nat d * 10 powi u))"
  proof (intro reads_as_literal [OF _ refl])
    have "digits_value 10 0 (format_nat (d div 10 ^ k) @ fd) = d"
      using format_nat_digits fd(3) div_mult_mod_eq [of d "10 ^ k"] by simp
    then show "(if x < 0 then - 1 else 1) * (of_nat d * 10 powi u) =
        (if x < 0
         then - (of_nat (digits_value 10 0 (format_nat (d div 10 ^ k) @ fd)) * 10 powi (exp_value None - int (length fd)))
         else of_nat (digits_value 10 0 (format_nat (d div 10 ^ k) @ fd)) * 10 powi (exp_value None - int (length fd)) :: rat)"
      unfolding fd(1) k(2) by (simp add: exp_value_def del: digits_value_simps)
  qed
  then show ?thesis using False t by (simp add: k_def)
qed

lemma format_scientific:
  assumes "shortest \<bar>x\<bar> = (d, u)" "\<bar>u\<bar> < 2 ^ 62" "length (format_nat d) < 2 ^ 62"
  shows "reads_as (format_exp x) ((if x < 0 then - 1 else 1) * (of_nat d * 10 powi u))"
proof -
  define ds where "ds = format_nat d"
  define e where "e = u + int (length ds) - 1"
  obtain c cs where ds: "ds = c # cs" unfolding ds_def by (cases "format_nat d") auto
  have dg: "is_digits 10 (c # cs)" "digits_value 10 0 (c # cs) = d"
    using format_nat_digits [of d] by (simp_all add: ds flip: ds_def)
  have t: "format_exp x = literal (x < 0) [c] cs (Some (e < 0, format_nat (nat \<bar>e\<bar>)))"
    by (simp add: format_exp_def assms(1) ds literal_def sign_text_def frac_text_def exp_text_def e_def flip: ds_def)
  have "\<bar>e\<bar> < 2 ^ 63" using assms(2,3) by (simp add: e_def flip: ds_def)
  then have "literal_ok [c] cs (Some (e < 0, format_nat (nat \<bar>e\<bar>)))"
    using dg format_nat_digits [of "nat \<bar>e\<bar>"] by (simp add: literal_ok_def nat_less_iff)
  moreover have "exp_value (Some (e < 0, format_nat (nat \<bar>e\<bar>))) - int (length cs) = u"
    using format_nat_digits [of "nat \<bar>e\<bar>"] by (simp add: exp_value_def e_def ds)
  ultimately show ?thesis
    unfolding t using dg(2) by (intro reads_as_literal [OF _ refl]) simp_all
qed

text \<open>A float in positional notation reads back exactly.\<close>

definition plain_float :: "rat \<Rightarrow> bool" where
  "plain_float x \<longleftrightarrow> rnd x = x \<and> (x = 0 \<or> 1 / 10 ^ 6 \<le> \<bar>x\<bar> \<and> \<bar>x\<bar> < 10 ^ 21)"

theorem json_float_exact:
  assumes "plain_float x"
  shows "number_ok (json_float x)" "rnd (num_value (json_float x)) = x"
proof -
  have "number_ok (json_float x) \<and> rnd (num_value (json_float x)) = x"
  proof (cases "x = 0")
    case True
    have "''0'' = format_int 0" by (simp add: format_int_def format_nat_0)
    then show ?thesis
      using number_ok_int [of 0] num_value_int [of 0] by (simp add: True json_float_def format_short_def rnd_def)
  next
    case False
    then have x: "rnd x = x" "1 / 10 ^ 6 \<le> \<bar>x\<bar>" "\<bar>x\<bar> < 10 ^ 21" using assms by (auto simp: plain_float_def)
    obtain d u where s: "shortest \<bar>x\<bar> = (d, u)" by force
    have "2 powi (- 1021) \<le> (1 / 10 ^ 6 :: rat)" by (simp add: power_int_minus)
    moreover have "(10 :: rat) ^ 21 \<le> 10 powi 400" by (simp add: power_int_def)
    ultimately have "rnd (of_nat d * 10 powi u) = \<bar>x\<bar>"
      using x by (intro shortest_exact [OF _ _ _ s]) (simp only: rnd_abs, linarith+)
    then have "rnd ((if x < 0 then - 1 else 1) * (of_nat d * 10 powi u)) = x"
      by (cases "x < 0") (simp_all add: rnd_minus)
    moreover have "json_float x = format_short x" using x by (simp add: json_float_def not_less not_le)
    ultimately show ?thesis
      using format_decimal [of x u d] False by (simp add: format_short_def s reads_as_def)
  qed
  then show "number_ok (json_float x)" "rnd (num_value (json_float x)) = x" by simp_all
qed

end
