(* ===== verification/GoJson.thy ===== *)
theory GoJson
  imports JsonNumber Prelude "HOL-Library.List_Lexorder" "HOL-Library.Char_ord"
begin

text \<open>
  Go values as \<open>encoding/json\<close> sees them by reflection: types with the JSON names of their fields,
  values of them, the tree \<open>json.Marshal\<close> writes for a value and what \<open>json.Unmarshal\<close> stores into
  one. Decoding keeps the type of what it is given (\<open>decode_typed\<close>), and gives back what was encoded
  (\<open>decode_encode\<close>). Byte slices, \<open>omitempty\<close>, embedded fields and user-defined marshallers do not
  occur in the program's types and have no part here.
\<close>

section \<open>Types and values\<close>

datatype gotype =
    TInt nat
  | TUint nat
  | TFloat
  | TString
  | TBool
  | TSlice gotype
  | TPtr gotype
  | TStruct "(string \<times> gotype) list"
  | TMap gotype
  | TAny

text \<open>\<open>VNil\<close> is the nil of slices, pointers, maps and interfaces; \<open>VAny t v\<close> an interface holding a \<open>t\<close>.\<close>

datatype goval =
    VInt int
  | VFloat rat
  | VStr string
  | VBool bool
  | VNil
  | VSlice "goval list"
  | VPtr goval
  | VStruct "goval list"
  | VMap "(string, goval) gomap"
  | VAny gotype goval

fun zero :: "gotype \<Rightarrow> goval" where
  "zero (TInt n) = VInt 0"
| "zero (TUint n) = VInt 0"
| "zero TFloat = VFloat 0"
| "zero TString = VStr ''''"
| "zero TBool = VBool False"
| "zero (TStruct fs) = VStruct (map (\<lambda>(k, t). zero t) fs)"
| "zero _ = VNil"

definition is_float64 :: "rat \<Rightarrow> bool" where
  "is_float64 x \<longleftrightarrow> rnd x = x \<and> \<bar>x\<bar> < 2 ^ 1024"

fun has_type :: "gotype \<Rightarrow> goval \<Rightarrow> bool"
  and have_types :: "(string \<times> gotype) list \<Rightarrow> goval list \<Rightarrow> bool"
where
  "has_type (TInt n) v = (case v of VInt i \<Rightarrow> - (2 ^ (n - 1)) \<le> i \<and> i < 2 ^ (n - 1) | _ \<Rightarrow> False)"
| "has_type (TUint n) v = (case v of VInt i \<Rightarrow> 0 \<le> i \<and> i < 2 ^ n | _ \<Rightarrow> False)"
| "has_type TFloat v = (case v of VFloat x \<Rightarrow> is_float64 x | _ \<Rightarrow> False)"
| "has_type TString v = (case v of VStr s \<Rightarrow> True | _ \<Rightarrow> False)"
| "has_type TBool v = (case v of VBool b \<Rightarrow> True | _ \<Rightarrow> False)"
| "has_type (TSlice t) v = (case v of VNil \<Rightarrow> True | VSlice vs \<Rightarrow> (\<forall>v\<in>set vs. has_type t v) | _ \<Rightarrow> False)"
| "has_type (TPtr t) v = (case v of VNil \<Rightarrow> True | VPtr w \<Rightarrow> has_type t w | _ \<Rightarrow> False)"
| "has_type (TStruct fs) v = (case v of VStruct vs \<Rightarrow> have_types fs vs | _ \<Rightarrow> False)"
| "has_type (TMap t) v =
     (case v of VNil \<Rightarrow> True | VMap m \<Rightarrow> gm_ok m \<and> (\<forall>v\<in>snd ` set m. has_type t v) | _ \<Rightarrow> False)"
| "has_type TAny v = (case v of VNil \<Rightarrow> True | VAny t w \<Rightarrow> t \<noteq> TAny \<and> has_type t w | _ \<Rightarrow> False)"
| "have_types [] vs = (vs = [])"
| "have_types ((k, t) # fs) vs = (case vs of [] \<Rightarrow> False | v # vs' \<Rightarrow> has_type t v \<and> have_types fs vs')"

lemma have_types_iff:
  "have_types fs vs \<longleftrightarrow> length fs = length vs \<and> (\<forall>i<length fs. has_type (snd (fs ! i)) (vs ! i))"
proof (induction fs arbitrary: vs)
  case (Cons f fs)
  show ?case
  proof (cases vs)
    case (Cons v vs')
    with Cons.IH show ?thesis by (cases f) (auto simp: less_Suc_eq_0_disj)
  qed (cases f; simp)
qed simp

lemma rnd_0 [simp]: "rnd 0 = 0" by (simp add: rnd_def)

lemma has_type_zero [simp]: "has_type t (zero t)"
  by (induction t rule: zero.induct) (auto simp: is_float64_def have_types_iff split: prod.split dest!: nth_mem)

section \<open>Decoding\<close>

datatype json_error =
    SyntaxError
  | UnmarshalTypeError string

text \<open>Decoding goes on after a type error; the first one is the result.\<close>

definition first_error :: "json_error option \<Rightarrow> json_error option \<Rightarrow> json_error option" where
  "first_error e e' = (case e of None \<Rightarrow> e' | Some _ \<Rightarrow> e)"

lemma first_error_None [simp]: "first_error None e = e" "first_error e e' = None \<longleftrightarrow> e = None \<and> e' = None"
  by (auto simp: first_error_def split: option.splits)

definition lower :: "char \<Rightarrow> char" where
  "lower c = (if 65 \<le> code c \<and> code c \<le> 90 then char_of (code c + 32) else c)"

text \<open>
  Field names are compared without case, the Kelvin sign standing for \<open>k\<close> and the long \<open>s\<close> for \<open>s\<close>.
\<close>

fun fold_key :: "string \<Rightarrow> string" where
  "fold_key [] = []"
| "fold_key (c # cs) =
     (if take 3 (c # cs) = utf8 8490 then CHR ''k'' # fold_key (drop 2 cs)
      else if take 2 (c # cs) = utf8 383 then CHR ''s'' # fold_key (drop 1 cs)
      else lower c # fold_key cs)"

fun index_of :: "('a \<Rightarrow> bool) \<Rightarrow> 'a list \<Rightarrow> nat option" where
  "index_of P [] = None"
| "index_of P (x # xs) = (if P x then Some 0 else map_option Suc (index_of P xs))"

lemma index_of_Some: "index_of P xs = Some i \<Longrightarrow> i < length xs \<and> P (xs ! i)"
  by (induction xs arbitrary: i) (auto split: if_splits)

text \<open>The field a key names: the one of that very name, or else the first that differs in case only.\<close>

definition field_index :: "(string \<times> gotype) list \<Rightarrow> string \<Rightarrow> nat option" where
  "field_index fs k =
     (case index_of (\<lambda>f. fst f = k) fs of
        Some i \<Rightarrow> Some i
      | None \<Rightarrow> index_of (\<lambda>f. fold_key (fst f) = fold_key k) fs)"

lemma field_index_bound: "field_index fs k = Some i \<Longrightarrow> i < length fs"
  by (auto simp: field_index_def split: option.splits dest: index_of_Some)

definition float_of_num :: "string \<Rightarrow> rat option" where
  "float_of_num s = (let x = rnd (num_value s) in if \<bar>x\<bar> < 2 ^ 1024 then Some x else None)"

text \<open>What an empty interface receives.\<close>

fun any_value :: "json \<Rightarrow> goval \<times> json_error option"
  and any_values :: "json list \<Rightarrow> goval list \<times> json_error option"
  and any_members :: "(string, goval) gomap \<Rightarrow> (string \<times> json) list \<Rightarrow> (string, goval) gomap \<times> json_error option"
where
  "any_value JNull = (VNil, None)"
| "any_value (JBool b) = (VAny TBool (VBool b), None)"
| "any_value (JNum s) =
     (case float_of_num s of
        Some x \<Rightarrow> (VAny TFloat (VFloat x), None)
      | None \<Rightarrow> (VNil, Some (UnmarshalTypeError (''number '' @ s))))"
| "any_value (JStr s) = (VAny TString (VStr s), None)"
| "any_value (JArr xs) = (case any_values xs of (vs, e) \<Rightarrow> (VAny (TSlice TAny) (VSlice vs), e))"
| "any_value (JObj kvs) = (case any_members [] kvs of (m, e) \<Rightarrow> (VAny (TMap TAny) (VMap m), e))"
| "any_values [] = ([], None)"
| "any_values (x # xs) =
     (case any_value x of (v, e) \<Rightarrow> (case any_values xs of (vs, e') \<Rightarrow> (v # vs, first_error e e')))"
| "any_members m [] = (m, None)"
| "any_members m ((k, x) # kvs) =
     (case any_value x of (v, e) \<Rightarrow> (case any_members (gm_set k v m) kvs of (m', e') \<Rightarrow> (m', first_error e e')))"

text \<open>What a value of another kind makes of \<open>j\<close>.\<close>

definition mismatch :: "json \<Rightarrow> json_error" where
  "mismatch j =
     UnmarshalTypeError
       (case j of JNull \<Rightarrow> ''null'' | JBool _ \<Rightarrow> ''bool'' | JNum _ \<Rightarrow> ''number'' | JStr _ \<Rightarrow> ''string''
        | JArr _ \<Rightarrow> ''array'' | JObj _ \<Rightarrow> ''object'')"

text \<open>Numbers, strings and booleans.\<close>

definition store_scalar :: "gotype \<Rightarrow> goval \<Rightarrow> json \<Rightarrow> goval \<times> json_error option" where
  "store_scalar t v j =
     (case (t, j) of
        (TInt n, JNum s) \<Rightarrow>
          (case ParseInt s 10 64 of
             (i, e) \<Rightarrow> if e = None \<and> - (2 ^ (n - 1)) \<le> i \<and> i < 2 ^ (n - 1) then (VInt i, None)
                      else (v, Some (UnmarshalTypeError (''number '' @ s))))
      | (TUint n, JNum s) \<Rightarrow>
          (case ParseUint s 10 64 of
             (i, e) \<Rightarrow> if e = None \<and> i < 2 ^ n then (VInt (int i), None)
                      else (v, Some (UnmarshalTypeError (''number '' @ s))))
      | (TFloat, JNum s) \<Rightarrow>
          (case float_of_num s of
             Some x \<Rightarrow> (VFloat x, None)
           | None \<Rightarrow> (v, Some (UnmarshalTypeError (''number '' @ s))))
      | (TString, JStr s) \<Rightarrow> (VStr s, None)
      | (TBool, JBool b) \<Rightarrow> (VBool b, None)
      | _ \<Rightarrow> (v, Some (mismatch j)))"

text \<open>Into an empty interface; a number out of range leaves it as it is.\<close>

definition store_any :: "goval \<Rightarrow> json \<Rightarrow> goval \<times> json_error option" where
  "store_any v j =
     (case j of
        JNum s \<Rightarrow> if float_of_num s = None then (v, snd (any_value j)) else any_value j
      | _ \<Rightarrow> any_value j)"

text \<open>
  A null: nil for what can be nil, no effect on anything else. An interface that holds a pointer to a
  pointer keeps it and has the inner one set.
\<close>

definition store_null :: "gotype \<Rightarrow> goval \<Rightarrow> goval" where
  "store_null t v =
     (case t of
        TSlice _ \<Rightarrow> VNil
      | TPtr _ \<Rightarrow> VNil
      | TMap _ \<Rightarrow> VNil
      | TAny \<Rightarrow> (case v of VAny (TPtr (TPtr s)) (VPtr w) \<Rightarrow> VAny (TPtr (TPtr s)) (VPtr VNil) | _ \<Rightarrow> VNil)
      | _ \<Rightarrow> v)"

text \<open>The pointer an interface holds, and what a pointer points to, allocated when it is nil.\<close>

definition held :: "goval \<Rightarrow> (gotype \<times> goval) option" where
  "held v = (case v of VAny (TPtr t) (VPtr w) \<Rightarrow> Some (t, w) | _ \<Rightarrow> None)"

definition pointee :: "gotype \<Rightarrow> goval \<Rightarrow> goval" where
  "pointee t v = (case v of VPtr w \<Rightarrow> w | _ \<Rightarrow> zero t)"

definition nil_slice :: "goval \<Rightarrow> goval list" where
  "nil_slice v = (case v of VSlice vs \<Rightarrow> vs | _ \<Rightarrow> [])"

definition nil_map :: "goval \<Rightarrow> (string, goval) gomap" where
  "nil_map v = (case v of VMap m \<Rightarrow> m | _ \<Rightarrow> [])"

definition struct_fields :: "goval \<Rightarrow> goval list" where
  "struct_fields v = (case v of VStruct vs \<Rightarrow> vs | _ \<Rightarrow> [])"

text \<open>Interfaces a decoded pointer may still have to go through.\<close>

fun boxes :: "goval \<Rightarrow> nat" where
  "boxes (VPtr v) = boxes v"
| "boxes (VAny t v) = Suc (boxes v)"
| "boxes _ = 0"

lemma boxes_zero [simp]: "boxes (zero t) = 0"
  by (cases t) auto

lemma boxes_held: "held v = Some (t, w) \<Longrightarrow> boxes w < boxes v"
  by (auto simp: held_def split: goval.splits gotype.splits)

lemma boxes_pointee: "boxes (pointee t v) \<le> boxes v"
  by (simp add: pointee_def split: goval.split)

text \<open>
  \<open>decode t v j\<close> is \<open>v\<close>, a value of type \<open>t\<close>, after \<open>j\<close> was stored into it, with the first error. A slice
  keeps its elements as the starting point of the new ones.
\<close>

function (sequential) decode :: "gotype \<Rightarrow> goval \<Rightarrow> json \<Rightarrow> goval \<times> json_error option"
  and decode_elems :: "gotype \<Rightarrow> goval list \<Rightarrow> json list \<Rightarrow> goval list \<times> json_error option"
  and decode_members ::
    "(string \<times> gotype) list \<Rightarrow> goval list \<Rightarrow> (string \<times> json) list \<Rightarrow> goval list \<times> json_error option"
  and decode_entries ::
    "gotype \<Rightarrow> (string, goval) gomap \<Rightarrow> (string \<times> json) list \<Rightarrow> (string, goval) gomap \<times> json_error option"
where
  "decode t v j =
     (if j = JNull then (store_null t v, None)
      else
        (case t of
           TPtr s \<Rightarrow> (case decode s (pointee s v) j of (w, e) \<Rightarrow> (VPtr w, e))
         | TAny \<Rightarrow>
             (case held v of
                Some (s, w) \<Rightarrow> (case decode s w j of (w', e) \<Rightarrow> (VAny (TPtr s) (VPtr w'), e))
              | None \<Rightarrow> store_any v j)
         | TSlice s \<Rightarrow>
             (case j of
                JArr xs \<Rightarrow> (case decode_elems s (nil_slice v) xs of (vs, e) \<Rightarrow> (VSlice vs, e))
              | _ \<Rightarrow> (v, Some (mismatch j)))
         | TStruct fs \<Rightarrow>
             (case j of
                JObj kvs \<Rightarrow> (case decode_members fs (struct_fields v) kvs of (vs, e) \<Rightarrow> (VStruct vs, e))
              | _ \<Rightarrow> (v, Some (mismatch j)))
         | TMap s \<Rightarrow>
             (case j of
                JObj kvs \<Rightarrow> (case decode_entries s (nil_map v) kvs of (m, e) \<Rightarrow> (VMap m, e))
              | _ \<Rightarrow> (v, Some (mismatch j)))
         | _ \<Rightarrow> store_scalar t v j))"
| "decode_elems t vs [] = ([], None)"
| "decode_elems t vs (x # xs) =
     (case decode t (case vs of [] \<Rightarrow> zero t | v # _ \<Rightarrow> v) x of (v, e) \<Rightarrow>
        (case decode_elems t (tl vs) xs of (vs', e') \<Rightarrow> (v # vs', first_error e e')))"
| "decode_members fs vs [] = (vs, None)"
| "decode_members fs vs ((k, x) # kvs) =
     (case field_index fs k of
        None \<Rightarrow> decode_members fs vs kvs
      | Some i \<Rightarrow>
          (case decode (snd (fs ! i)) (vs ! i) x of (v, e) \<Rightarrow>
             (case decode_members fs (vs[i := v]) kvs of (vs', e') \<Rightarrow> (vs', first_error e e'))))"
| "decode_entries t m [] = (m, None)"
| "decode_entries t m ((k, x) # kvs) =
     (case decode t (zero t) x of (v, e) \<Rightarrow>
        (case decode_entries t (gm_set k v m) kvs of (m', e') \<Rightarrow> (m', first_error e e')))"
  by pat_completeness auto

termination
  by (relation "inv_image (less_than <*lex*> less_than <*lex*> less_than)
       (\<lambda>x. case x of
          Inl (Inl (t, v, j)) \<Rightarrow> (size j, boxes v, size t)
        | Inl (Inr (t, vs, xs)) \<Rightarrow> (size_list size xs, 0, 0)
        | Inr (Inl (fs, vs, kvs)) \<Rightarrow> (size_list (size_prod (\<lambda>_. 0) size) kvs, 0, 0)
        | Inr (Inr (t, m, kvs)) \<Rightarrow> (size_list (size_prod (\<lambda>_. 0) size) kvs, 0, 0))")
     (auto dest: boxes_held simp: boxes_pointee [THEN le_imp_less_or_eq])

declare decode.simps [simp del]


text \<open>\<open>json.Unmarshal\<close>: nothing is stored when the text is no JSON.\<close>

definition Unmarshal :: "gotype \<Rightarrow> string \<Rightarrow> goval \<Rightarrow> goval \<times> json_error option" where
  "Unmarshal t s v = (case json_parse s of None \<Rightarrow> (v, Some SyntaxError) | Some j \<Rightarrow> decode t v j)"

section \<open>Encoding\<close>

fun encode :: "gotype \<Rightarrow> goval \<Rightarrow> json"
  and encode_fields :: "(string \<times> gotype) list \<Rightarrow> goval list \<Rightarrow> (string \<times> json) list"
where
  "encode t (VInt i) = JNum (format_int i)"
| "encode t (VFloat x) = JNum (json_float x)"
| "encode t (VStr s) = JStr s"
| "encode t (VBool b) = JBool b"
| "encode t VNil = JNull"
| "encode t (VSlice vs) = (case t of TSlice s \<Rightarrow> JArr (map (encode s) vs) | _ \<Rightarrow> JNull)"
| "encode t (VPtr w) = (case t of TPtr s \<Rightarrow> encode s w | _ \<Rightarrow> JNull)"
| "encode t (VStruct vs) = (case t of TStruct fs \<Rightarrow> JObj (encode_fields fs vs) | _ \<Rightarrow> JNull)"
| "encode t (VMap m) =
     (case t of TMap s \<Rightarrow> JObj (map (\<lambda>(k, v). (k, encode s v)) (sort_key fst m)) | _ \<Rightarrow> JNull)"
| "encode t (VAny s w) = encode s w"
| "encode_fields fs [] = []"
| "encode_fields fs (v # vs) =
     (case fs of (k, t) # fs' \<Rightarrow> (k, encode t v) # encode_fields fs' vs | [] \<Rightarrow> [])"

text \<open>\<open>json.Marshal\<close>, and \<open>json.MarshalIndent\<close> without a prefix.\<close>

definition Marshal :: "gotype \<Rightarrow> goval \<Rightarrow> string" where
  "Marshal t v = json_print (encode t v)"

definition json_MarshalIndent :: "string \<Rightarrow> gotype \<Rightarrow> goval \<Rightarrow> string" where
  "json_MarshalIndent ind t v = json_indent ind (encode t v)"

section \<open>Decoding keeps the type\<close>

lemma is_float64_of_num: "float_of_num s = Some x \<Longrightarrow> is_float64 x"
  by (auto simp: float_of_num_def is_float64_def Let_def split: if_splits)

lemma set_gm_set: "w \<in> snd ` set (gm_set k v m) \<Longrightarrow> w = v \<or> w \<in> snd ` set m"
  unfolding gm_set_def by (induction m) (auto split: if_splits)

lemma has_types_update:
  "have_types fs vs \<Longrightarrow> i < length fs \<Longrightarrow> has_type (snd (fs ! i)) v \<Longrightarrow> have_types fs (vs[i := v])"
  by (auto simp: have_types_iff nth_list_update)

lemma typed_any:
  "has_type TAny (fst (any_value j))"
  "\<forall>v\<in>set (fst (any_values js)). has_type TAny v"
  "gm_ok m \<Longrightarrow> \<forall>v\<in>snd ` set m. has_type TAny v \<Longrightarrow>
     gm_ok (fst (any_members m kvs)) \<and> (\<forall>v\<in>snd ` set (fst (any_members m kvs)). has_type TAny v)"
proof (induction j and js and m kvs rule: any_value_any_values_any_members.induct)
  case (3 s)
  then show ?case by (auto simp: is_float64_of_num split: option.split)
next
  case (6 kvs)
  then show ?case by (auto split: prod.split)
next
  case (10 m k x kvs)
  have "gm_ok (gm_set k v m)" for v using "10.prems"(1) by (rule gm_ok_set)
  moreover have "\<forall>w\<in>snd ` set (gm_set k (fst (any_value x)) m). has_type TAny w"
    using "10.IH"(1) "10.prems"(2) set_gm_set by fastforce
  ultimately show ?case using "10.IH"(2) by (auto split: prod.split simp del: has_type.simps)
qed (auto split: prod.split)

lemma typed_scalar: "has_type t v \<Longrightarrow> has_type t (fst (store_scalar t v j))"
  by (cases t; cases j) (auto simp: store_scalar_def is_float64_of_num split: option.split prod.split goval.splits)

lemma typed_store_any: "has_type TAny v \<Longrightarrow> has_type TAny (fst (store_any v j))"
  using typed_any(1) [of j] by (auto simp: store_any_def split: json.split simp del: has_type.simps)

lemma typed_null: "has_type t v \<Longrightarrow> has_type t (store_null t v)"
  by (cases t) (auto simp: store_null_def split: goval.splits gotype.splits)


lemma typed_pointee: "has_type (TPtr t) v \<Longrightarrow> has_type t (pointee t v)"
  by (auto simp: pointee_def split: goval.splits)

lemma typed_held: "held v = Some (s, w) \<Longrightarrow> has_type TAny v \<Longrightarrow> has_type s w"
  by (auto simp: held_def split: goval.splits gotype.splits)

theorem decode_typed:
  "has_type t v \<Longrightarrow> has_type t (fst (decode t v j))"
  "\<forall>v\<in>set vs. has_type t v \<Longrightarrow> \<forall>v\<in>set (fst (decode_elems t vs js)). has_type t v"
  "have_types fs ws \<Longrightarrow> have_types fs (fst (decode_members fs ws kvs))"
  "gm_ok m \<Longrightarrow> \<forall>v\<in>snd ` set m. has_type t v \<Longrightarrow>
     gm_ok (fst (decode_entries t m kvs)) \<and> (\<forall>v\<in>snd ` set (fst (decode_entries t m kvs)). has_type t v)"
proof (induction t v j and t vs js and fs ws kvs and t m kvs rule: decode_decode_elems_decode_members_decode_entries.induct)
  case (1 t v j)
  show ?case
  proof (cases "j = JNull")
    case False
    show ?thesis
    proof (cases t)
      case (TPtr s)
      then show ?thesis
        using "1.IH"(2) [OF False TPtr] typed_pointee "1.prems" False by (auto simp: decode.simps [of _ v j] split: prod.split)
    next
      case TAny
      show ?thesis
      proof (cases "held v")
        case None
        then show ?thesis using "1.prems" False TAny typed_store_any by (simp add: decode.simps [of _ v j])
      next
        case (Some sw)
        then obtain s w where h: "held v = Some (s, w)" by (cases sw) simp
        from "1.IH"(5) [OF False TAny h refl] typed_held [OF h] "1.prems" TAny
        show ?thesis using False by (auto simp: decode.simps [of _ v j] h split: prod.split)
      qed
    next
      case (TSlice s)
      have "\<forall>w\<in>set (nil_slice v). has_type s w"
        using "1.prems" by (auto simp: TSlice nil_slice_def split: goval.splits)
      then show ?thesis
        using "1.IH"(1) [OF False TSlice] "1.prems" False TSlice by (auto simp: decode.simps [of _ v j] split: prod.split json.split)
    next
      case (TStruct fs)
      have "have_types fs (struct_fields v)"
        using "1.prems" by (auto simp: TStruct struct_fields_def split: goval.splits)
      then show ?thesis
        using "1.IH"(3) [OF False TStruct] "1.prems" False TStruct by (auto simp: decode.simps [of _ v j] split: prod.split json.split)
    next
      case (TMap s)
      have "gm_ok (nil_map v)" "\<forall>w\<in>snd ` set (nil_map v). has_type s w"
        using "1.prems" by (auto simp: TMap nil_map_def split: goval.splits)
      then show ?thesis
        using "1.IH"(4) [OF False TMap] "1.prems" False TMap by (auto simp: decode.simps [of _ v j] split: prod.split json.split)
    qed (use False "1.prems" typed_scalar [of t v j] in \<open>simp_all add: decode.simps [of _ v j]\<close>)
  qed (use "1.prems" typed_null in \<open>simp add: decode.simps\<close>)
next
  case (3 t vs x xs)
  have "has_type t (case vs of [] \<Rightarrow> zero t | v # _ \<Rightarrow> v)" "\<forall>v\<in>set (tl vs). has_type t v"
    using "3.prems" by (cases vs; simp)+
  then show ?case using "3.IH" by (auto split: prod.split)
next
  case (5 fs vs k x kvs)
  show ?case
  proof (cases "field_index fs k")
    case None
    then show ?thesis using 5 by simp
  next
    case (Some i)
    have i: "i < length fs" using field_index_bound [OF Some] .
    have "has_type (snd (fs ! i)) (vs ! i)" using "5.prems" i by (simp add: have_types_iff)
    then have "has_type (snd (fs ! i)) (fst (decode (snd (fs ! i)) (vs ! i) x))" using "5.IH"(2) [OF Some] by simp
    then show ?thesis
      using "5.IH"(3) [OF Some] has_types_update [OF "5.prems" i] Some by (auto split: prod.split)
  qed
next
  case (7 t m k x kvs)
  have "\<forall>w\<in>snd ` set (gm_set k (fst (decode t (zero t) x)) m). has_type t w"
    using "7.IH"(1) "7.prems"(2) set_gm_set has_type_zero by fastforce
  then show ?case using "7.IH"(2) gm_ok_set [OF "7.prems"(1)] by (auto split: prod.split)
qed simp_all


section \<open>Reading what was encoded\<close>

text \<open>Types whose values are written without loss: no interfaces and maps, no pointers to what can be nil.\<close>

fun nilable :: "gotype \<Rightarrow> bool" where
  "nilable (TSlice _) = True"
| "nilable (TPtr _) = True"
| "nilable (TMap _) = True"
| "nilable TAny = True"
| "nilable _ = False"

fun plain_type :: "gotype \<Rightarrow> bool" where
  "plain_type (TInt n) = (1 \<le> n \<and> n \<le> 64)"
| "plain_type (TUint n) = (n \<le> 64)"
| "plain_type (TSlice t) = plain_type t"
| "plain_type (TPtr t) = (plain_type t \<and> \<not> nilable t)"
| "plain_type (TStruct fs) = (distinct (map fst fs) \<and> (\<forall>(k, t)\<in>set fs. plain_type t))"
| "plain_type (TMap _) = False"
| "plain_type TAny = False"
| "plain_type _ = True"

text \<open>Values with floats in positional notation and strings that are UTF-8; field names that are UTF-8.\<close>

fun names_ok :: "gotype \<Rightarrow> bool" where
  "names_ok (TSlice t) = names_ok t"
| "names_ok (TPtr t) = names_ok t"
| "names_ok (TMap t) = names_ok t"
| "names_ok (TStruct fs) = (\<forall>(k, t)\<in>set fs. valid_utf8 k \<and> names_ok t)"
| "names_ok _ = True"

fun clean :: "goval \<Rightarrow> bool" where
  "clean (VFloat x) = plain_float x"
| "clean (VStr s) = valid_utf8 s"
| "clean (VSlice vs) = (\<forall>v\<in>set vs. clean v)"
| "clean (VPtr v) = clean v"
| "clean (VStruct vs) = (\<forall>v\<in>set vs. clean v)"
| "clean (VMap m) = (\<forall>(k, v)\<in>set m. valid_utf8 k \<and> clean v)"
| "clean (VAny t v) = (names_ok t \<and> clean v)"
| "clean _ = True"

lemma float_of_json_float: "plain_float x \<Longrightarrow> float_of_num (json_float x) = Some x"
proof -
  assume p: "plain_float x"
  have "(10 :: rat) ^ 21 < 2 ^ 1024" by simp
  then have "\<bar>x\<bar> < 2 ^ 1024" using p by (auto simp: plain_float_def simp del: power_numeral)
  then show ?thesis using json_float_exact(2) [OF p] by (simp add: float_of_num_def Let_def)
qed

lemma ParseInt_64: "ParseInt s 10 64 = ParseInt s 10 0"
  by (simp add: ParseInt_def)

lemma ParseUint_format_nat: "n < 2 ^ 64 \<Longrightarrow> ParseUint (format_nat n) 10 64 = (n, None)"
  using parse_uint_loop_digits [of 10 "2 ^ 64 - 1" "format_nat n" 0] format_nat_digits [of n]
  by (simp add: ParseUint_def)

lemma encode_not_null: "has_type t v \<Longrightarrow> \<not> nilable t \<Longrightarrow> encode t v \<noteq> JNull"
  by (cases t; cases v) auto

definition reread :: "gotype \<Rightarrow> goval \<Rightarrow> bool" where
  "reread t v \<longleftrightarrow> decode t (zero t) (encode t v) = (v, None)"

lemma reread_int: "has_type (TInt n) v \<Longrightarrow> plain_type (TInt n) \<Longrightarrow> reread (TInt n) v"
proof -
  assume t: "has_type (TInt n) v" "plain_type (TInt n)"
  then obtain i where v: "v = VInt i" "- (2 ^ (n - 1)) \<le> i" "i < 2 ^ (n - 1)" by (auto split: goval.splits)
  have "(2 :: int) ^ (n - 1) \<le> 2 ^ 63" using t(2) by (intro power_increasing) auto
  then have "- (2 ^ 63) \<le> i" "i < 2 ^ 63" using v by linarith+
  then show ?thesis
    using v ParseInt_format_int [of i] by (simp add: reread_def decode.simps store_scalar_def ParseInt_64)
qed

lemma reread_uint: "has_type (TUint n) v \<Longrightarrow> plain_type (TUint n) \<Longrightarrow> reread (TUint n) v"
proof -
  assume t: "has_type (TUint n) v" "plain_type (TUint n)"
  then obtain i where v: "v = VInt i" "0 \<le> i" "i < 2 ^ n" by (auto split: goval.splits)
  have "(2 :: int) ^ n \<le> 2 ^ 64" using t(2) by (intro power_increasing) auto
  then have "nat i < 2 ^ 64" using v by (simp add: nat_less_iff)
  moreover have "format_int i = format_nat (nat i)" using v by (simp add: format_int_def)
  moreover have "nat i < 2 ^ n" using v by (simp add: nat_less_iff)
  ultimately show ?thesis
    using v ParseUint_format_nat [of "nat i"] by (simp add: reread_def decode.simps store_scalar_def)
qed

lemma reread_slice:
  assumes "\<And>v. v \<in> set vs \<Longrightarrow> reread t v"
  shows "decode_elems t [] (map (encode t) vs) = (vs, None)"
  using assms by (induction vs) (auto simp: reread_def)

lemma field_index_exact:
  "distinct (map fst fs) \<Longrightarrow> i < length fs \<Longrightarrow> field_index fs (fst (fs ! i)) = Some i"
proof -
  have "index_of (\<lambda>f. fst f = fst (fs ! i)) fs = Some i" if "distinct (map fst fs)" "i < length fs"
    using that
  proof (induction fs arbitrary: i)
    case (Cons f fs)
    then show ?case by (cases i) (auto simp: image_iff dest: nth_mem)
  qed simp
  then show "distinct (map fst fs) \<Longrightarrow> i < length fs \<Longrightarrow> field_index fs (fst (fs ! i)) = Some i"
    by (simp add: field_index_def)
qed

lemma reread_fields:
  assumes "distinct (map fst (fs @ gs))" "length us = length fs" "have_types gs vs"
    and "\<And>k t v. ((k, t), v) \<in> set (zip gs vs) \<Longrightarrow> reread t v"
  shows "decode_members (fs @ gs) (us @ map (\<lambda>(k, t). zero t) gs) (encode_fields gs vs) = (us @ vs, None)"
  using assms
proof (induction gs arbitrary: fs us vs)
  case (Cons g gs)
  obtain k t where g: "g = (k, t)" by (cases g)
  from Cons.prems(3) obtain v vs' where vs: "vs = v # vs'" "have_types gs vs'"
    by (cases vs) (auto simp: g)
  have "field_index (fs @ g # gs) k = Some (length fs)"
    using field_index_exact [OF Cons.prems(1), of "length fs"] by (simp add: g)
  moreover have "decode t (zero t) (encode t v) = (v, None)"
    using Cons.prems(4) [of k t v] by (simp add: g vs reread_def)
  moreover have "decode_members ((fs @ [g]) @ gs) ((us @ [v]) @ map (\<lambda>(k, t). zero t) gs) (encode_fields gs vs')
      = ((us @ [v]) @ vs', None)"
    by (rule Cons.IH) (use Cons.prems vs g in auto)
  ultimately show ?case
    using Cons.prems(2) by (simp add: g vs nth_append list_update_append)
qed simp

theorem reread_plain: "has_type t v \<Longrightarrow> plain_type t \<Longrightarrow> clean v \<Longrightarrow> reread t v"
proof (induction t arbitrary: v)
  case (TStruct fs)
  from TStruct.prems(1) obtain vs where v: "v = VStruct vs" "have_types fs vs" by (auto split: goval.splits)
  have "reread t w" if "((k, t), w) \<in> set (zip fs vs)" for k t w
  proof -
    from that obtain i where i: "i < length fs" "i < length vs" "fs ! i = (k, t)" "vs ! i = w"
      by (auto simp: set_zip)
    then have m: "(k, t) \<in> set fs" "w \<in> set vs" by (metis nth_mem)+
    have "has_type t w" using v(2) i by (auto simp: have_types_iff)
    with m show ?thesis using TStruct.IH [OF m(1)] TStruct.prems(2,3) v(1) by auto
  qed
  then show ?case
    using reread_fields [of "[]" fs "[]" vs] v TStruct.prems(2)
    by (simp add: reread_def decode.simps struct_fields_def)
next
  case (TSlice t)
  then show ?case
    using reread_slice [of _ t]
    by (auto simp: reread_def [of "TSlice t"] decode.simps store_null_def nil_slice_def split: goval.splits)
next
  case (TPtr t)
  then show ?case
    using encode_not_null [of t]
    by (auto simp: reread_def decode.simps [of "TPtr t"] store_null_def pointee_def split: goval.splits)
qed (auto simp: reread_int reread_uint simp del: has_type.simps(1,2) plain_type.simps(1,2)
     , auto simp: reread_def decode.simps store_scalar_def float_of_json_float split: goval.splits)


text \<open>The tree of a clean value is one that is read back from its text.\<close>

theorem json_ok_encode:
  "names_ok t \<Longrightarrow> clean v \<Longrightarrow> json_ok (encode t v)"
  "\<forall>(k, t)\<in>set fs. valid_utf8 k \<and> names_ok t \<Longrightarrow> \<forall>v\<in>set vs. clean v \<Longrightarrow>
     \<forall>(k, j)\<in>set (encode_fields fs vs). valid_utf8 k \<and> json_ok j"
proof (induction t v and fs vs rule: encode_encode_fields.induct)
  case (2 t x)
  then show ?case by (simp add: json_float_exact)
next
  case (6 t vs)
  then show ?case by (cases t) auto
next
  case (7 t w)
  then show ?case by (cases t) auto
next
  case (8 t vs)
  then show ?case by (cases t) auto
next
  case (9 t m)
  then show ?case by (cases t) fastforce+
next
  case (12 fs v vs)
  show ?case
  proof (cases fs)
    case (Cons f gs)
    obtain k t where f: "f = (k, t)" by (cases f)
    have "\<forall>(k, j)\<in>set (encode_fields gs vs). valid_utf8 k \<and> json_ok j"
      using "12.IH"(2) [OF Cons f [symmetric]] "12.prems" by (simp add: Cons)
    then show ?thesis using "12.IH"(1) [OF Cons f [symmetric]] "12.prems" by (simp add: Cons f)
  qed simp
qed (simp_all add: number_ok_int)

fun type_depth :: "gotype \<Rightarrow> nat" where
  "type_depth (TSlice t) = Suc (type_depth t)"
| "type_depth (TPtr t) = type_depth t"
| "type_depth (TStruct fs) = Suc (foldr max (map (\<lambda>(k, t). type_depth t) fs) 0)"
| "type_depth _ = 0"

lemma foldr_max_le: "foldr max xs 0 \<le> (n :: nat) \<longleftrightarrow> (\<forall>x\<in>set xs. x \<le> n)"
  by (induction xs) auto

lemma foldr_max_ge: "x \<in> set xs \<Longrightarrow> x \<le> foldr max xs (0 :: nat)"
  using foldr_max_le by blast

lemma depth_encode:
  "plain_type t \<Longrightarrow> has_type t v \<Longrightarrow> json_depth (encode t v) \<le> type_depth t"
  "\<forall>(k, t)\<in>set fs. plain_type t \<Longrightarrow> have_types fs vs \<Longrightarrow>
     \<forall>(k, j)\<in>set (encode_fields fs vs). json_depth j \<le> foldr max (map (\<lambda>(k, t). type_depth t) fs) 0"
proof (induction t v and fs vs rule: encode_encode_fields.induct)
  case (6 t vs)
  then show ?case by (cases t) (auto simp: foldr_max_le)
next
  case (7 t w)
  then show ?case by (cases t) auto
next
  case (8 t vs)
  then show ?case by (cases t) (auto simp: foldr_max_le)
next
  case (9 t m)
  then show ?case by (cases t) auto
next
  case (10 t s w)
  then show ?case by (cases t) auto
next
  case (12 fs v vs)
  show ?case
  proof (cases fs)
    case (Cons f gs)
    obtain k t where f: "f = (k, t)" by (cases f)
    have "\<forall>(k, j)\<in>set (encode_fields gs vs). json_depth j \<le> foldr max (map (\<lambda>(k, t). type_depth t) gs) 0"
      using "12.IH"(2) [OF Cons f [symmetric]] "12.prems" by (simp add: Cons f)
    then show ?thesis
      using "12.IH"(1) [OF Cons f [symmetric]] "12.prems" by (auto simp: Cons f intro: le_max_iff_disj [THEN iffD2])
  qed simp
qed simp_all

text \<open>So a clean value of a plain type is read back from any text that is read as its tree.\<close>

definition portable :: "gotype \<Rightarrow> goval \<Rightarrow> bool" where
  "portable t v \<longleftrightarrow> has_type t v \<and> plain_type t \<and> names_ok t \<and> type_depth t \<le> maxNestingDepth \<and> clean v"

lemma json_fits_encode: "portable t v \<Longrightarrow> json_fits (encode t v)"
  using json_ok_encode(1) [of t v] depth_encode(1) [of t v] by (auto simp: portable_def json_fits_def)

lemma Unmarshal_tree: "portable t v \<Longrightarrow> json_parse s = Some (encode t v) \<Longrightarrow> Unmarshal t s (zero t) = (v, None)"
  using reread_plain [of t v] by (simp add: portable_def Unmarshal_def reread_def)

lemma Unmarshal_indented:
  assumes "portable t v" "blank ind"
  shows "Unmarshal t (json_MarshalIndent ind t v) (zero t) = (v, None)"
  using Unmarshal_tree [OF assms(1)] json_parse_indent [OF assms(2) json_fits_encode [OF assms(1)]]
  by (simp add: json_MarshalIndent_def)

theorem Unmarshal_Marshal:
  assumes "has_type t v" "plain_type t" "names_ok t" "type_depth t \<le> maxNestingDepth" "clean v"
  shows "Unmarshal t (Marshal t v) (zero t) = (v, None)"
proof -
  have p: "portable t v" using assms by (simp add: portable_def)
  from Unmarshal_tree [OF p] json_codec.dec_enc [OF json_fits_encode [OF p]] show ?thesis by (simp add: Marshal_def)
qed

text \<open>Whatever the text is, what is decoded is a value of the type.\<close>

theorem Unmarshal_typed: "has_type t v \<Longrightarrow> has_type t (fst (Unmarshal t s v))"
  using decode_typed(1) by (simp add: Unmarshal_def split: option.split)

end
