(* ===== verification/RpcTypes.thy ===== *)
theory RpcTypes
  imports GoJson
begin

text \<open>
  The structs of rpc/define.go and the response envelope of rpc/client.go: the JSON name and the type of
  every field, in the order of the declaration. The structs the program builds or inspects itself are
  records with their value (\<open>monitor_value\<close>, \<open>server_error_of\<close>); all the others only pass through.
\<close>

named_theorems rpc_types \<open>the descriptors of rpc/define.go\<close>

section \<open>Descriptors\<close>

definition CpuInfo_t :: gotype where
  [rpc_types]: "CpuInfo_t =
   (TStruct
     [(''cacheSize'', TInt 64), (''cores'', TInt 64), (''cpu'', TInt 64), (''family'', TString),
      (''flags'', TAny), (''ghz'', TInt 64), (''mhz'', TInt 64), (''microcode'', TString),
      (''model'', TString), (''modelName'', TString), (''name'', TString), (''physicalId'', TString),
      (''stepping'', TInt 64), (''vendorId'', TString)])"

definition DiskInfo_t :: gotype where
  [rpc_types]: "DiskInfo_t =
   (TStruct
     [(''id'', TString), (''size'', TUint 64), (''media'', TString), (''serialNumber'', TString)])"

definition MemoryInfo_t :: gotype where
  [rpc_types]: "MemoryInfo_t =
   (TStruct
     [(''mhz'', TInt 64), (''serialNumber'', TString), (''size'', TInt 64), (''slot'', TString),
      (''type'', TString)])"

definition DialingInfo_t :: gotype where
  [rpc_types]: "DialingInfo_t =
   (TStruct
     [(''account'', TString), (''connected'', TBool), (''enableV6'', TInt 64), (''failedReason'', TString),
      (''gateway'', TString), (''ip'', TString), (''pppoeName'', TString), (''port'', TInt 64),
      (''mac'', TString), (''mask'', TString), (''number'', TInt 64), (''password'', TString),
      (''pppoeAC'', TString), (''pppoeService'', TString), (''successed'', TBool), (''v4Proto'', TString),
      (''v6Connected'', TBool), (''v6Gateway'', TString), (''v6IP'', TString), (''v6MaskLen'', TInt 64),
      (''v6Proto'', TString), (''v6Successed'', TBool), (''vlanId'', TString)])"

definition NetCardInfo_t :: gotype where
  [rpc_types]: "NetCardInfo_t =
   (TStruct
     [(''dialingInfo'', TSlice DialingInfo_t), (''ip'', TString), (''isManager'', TBool),
      (''isValid'', TBool), (''name'', TString), (''speed'', TInt 64)])"

definition DeviceInfo_t :: gotype where
  [rpc_types]: "DeviceInfo_t =
   (TStruct
     [(''cpus'', TSlice CpuInfo_t), (''disks'', TSlice DiskInfo_t), (''hostname'', TString),
      (''memories'', TSlice MemoryInfo_t), (''model'', TString), (''netCards'', TSlice NetCardInfo_t),
      (''osVersion'', TString), (''sn'', TString)])"

definition RegisterRsp_t :: gotype where
  [rpc_types]: "RegisterRsp_t =
   (TStruct
     [(''codeURL'', TString), (''deviceID'', TString), (''frpcPort'', TInt 64), (''frpsHost'', TString),
      (''frpsPort'', TInt 64), (''influxDBHost'', TString), (''influxDBPort'', TInt 64)])"

definition DiskTestTask_t :: gotype where
  [rpc_types]: "DiskTestTask_t =
   (TStruct
     [(''isValid'', TBool), (''time'', TInt 64)])"

definition Netcards_t :: gotype where
  [rpc_types]: "Netcards_t =
   (TStruct
     [(''modifyTime'', TInt 64), (''dialingType'', TString), (''data'', TSlice NetCardInfo_t)])"

definition NetworkTestInfo_t :: gotype where
  [rpc_types]: "NetworkTestInfo_t =
   (TStruct
     [(''ip'', TString), (''limit'', TPtr TString), (''port'', TInt 64)])"

definition NetworkTestTask_t :: gotype where
  [rpc_types]: "NetworkTestTask_t =
   (TStruct
     [(''isValid'', TBool), (''time'', TInt 64), (''networkTestInfo'', TSlice NetworkTestInfo_t)])"

definition Upgrade_t :: gotype where
  [rpc_types]: "Upgrade_t =
   (TStruct
     [(''isValid'', TBool), (''md5'', TString), (''url'', TString)])"

definition DeployDeviceInfo_t :: gotype where
  [rpc_types]: "DeployDeviceInfo_t =
   (TStruct
     [(''biz_type'', TInt 64), (''device_id'', TString), (''single_bandwidth'', TUint 64),
      (''sub_biz_type'', TInt 64)])"

definition Deployment_t :: gotype where
  [rpc_types]: "Deployment_t =
   (TStruct
     [(''action'', TString), (''bandwidth'', TInt 64), (''cmd'', TString), (''deploymentId'', TString),
      (''desc'', TString), (''deviceInfo'', DeployDeviceInfo_t), (''from'', TString),
      (''isOutProvince'', TInt 64)])"

definition HeartbeatRsp_t :: gotype where
  [rpc_types]: "HeartbeatRsp_t =
   (TStruct
     [(''diskTestTask'', DiskTestTask_t), (''netcards'', Netcards_t),
      (''networkTestTask'', NetworkTestTask_t), (''nextHeartBeatTime'', TInt 64), (''upgrade'', Upgrade_t),
      (''deploy'', Deployment_t)])"

definition MonitorInfo_t :: gotype where
  [rpc_types]: "MonitorInfo_t =
   (TStruct
     [(''cpuUsage'', TFloat), (''diskUsage'', TFloat), (''downBandwidth'', TFloat), (''memUsage'', TFloat),
      (''timestamp'', TInt 64), (''upBandwidth'', TFloat)])"

definition DeploymentStatusResult_t :: gotype where
  [rpc_types]: "DeploymentStatusResult_t =
   (TStruct
     [(''deploymentId'', TString), (''status'', TInt 64), (''failReason'', TString)])"

definition LineQuality_t :: gotype where
  [rpc_types]: "LineQuality_t =
   (TStruct
     [(''name'', TString), (''ip'', TString), (''avgUpBandwidth'', TString), (''networkDelay'', TInt 64),
      (''packetLossRate'', TInt 64)])"

definition NetworkTestResult_t :: gotype where
  [rpc_types]: "NetworkTestResult_t =
   (TStruct
     [(''type'', TString), (''maxTestBandwidth'', TString), (''avgTestBandwidth'', TString),
      (''upBandwidthTestTime'', TString), (''duration'', TString), (''lineQuality'', TSlice LineQuality_t),
      (''tcpRetransmissionRatio'', TInt 64)])"

definition DiskQuality_t :: gotype where
  [rpc_types]: "DiskQuality_t =
   (TStruct
     [(''id'', TString), (''iops'', TInt 64), (''bandwidth'', TInt 64)])"

definition DiskResults_t :: gotype where
  [rpc_types]: "DiskResults_t =
   (TStruct
     [(''type'', TString), (''diskQuality'', TSlice DiskQuality_t)])"

definition ServerError_t :: gotype where
  [rpc_types]: "ServerError_t =
   (TStruct
     [(''code'', TInt 64), (''message'', TString), (''event_id'', TString)])"

definition HttpError_t :: gotype where
  [rpc_types]: "HttpError_t =
   (TStruct
     [(''code'', TInt 64), (''message'', TString)])"

definition ServerResponse_t :: gotype where
  [rpc_types]: "ServerResponse_t =
   (TStruct
     [(''code'', TInt 64), (''current_time'', TInt 64), (''event_id'', TString), (''message'', TString),
      (''data'', TAny)])"

text \<open>The struct types without an interface are written and read without loss, and are not deep.\<close>

definition reports :: "gotype list" where
  "reports = [MonitorInfo_t, NetCardInfo_t, Netcards_t, RegisterRsp_t, HeartbeatRsp_t, DeploymentStatusResult_t,
     NetworkTestResult_t, DiskResults_t, ServerError_t, HttpError_t]"

lemma reports_plain: "t \<in> set reports \<Longrightarrow> plain_type t \<and> names_ok t \<and> type_depth t \<le> 6"
  by (auto simp: reports_def rpc_types ascii_utf8 simp del: valid_utf8.simps(2))

section \<open>Records\<close>

record monitorInfo =
  CPUUsage :: rat
  DiskUsage :: rat
  DownBandwidth :: rat
  MemUsage :: rat
  mi_Timestamp :: int
  UpBandwidth :: rat

definition monitor_value :: "monitorInfo \<Rightarrow> goval" where
  "monitor_value m =
     VStruct [VFloat (CPUUsage m), VFloat (DiskUsage m), VFloat (DownBandwidth m), VFloat (MemUsage m),
       VInt (mi_Timestamp m), VFloat (UpBandwidth m)]"

text \<open>Two errors with the fields of their JSON text.\<close>

record serverError =
  se_Code :: int
  se_Message :: string
  se_EventID :: string

definition server_error_value :: "serverError \<Rightarrow> goval" where
  "server_error_value e = VStruct [VInt (se_Code e), VStr (se_Message e), VStr (se_EventID e)]"

definition ServerError_Error :: "serverError \<Rightarrow> string" where
  "ServerError_Error e = Marshal ServerError_t (server_error_value e)"

record httpError =
  he_Code :: int
  he_Message :: string

definition HttpError_Error :: "httpError \<Rightarrow> string" where
  "HttpError_Error e = Marshal HttpError_t (VStruct [VInt (he_Code e), VStr (he_Message e)])"

definition monitor_ok :: "monitorInfo \<Rightarrow> bool" where
  "monitor_ok m \<longleftrightarrow>
     plain_float (CPUUsage m) \<and> plain_float (DiskUsage m) \<and> plain_float (DownBandwidth m) \<and>
     plain_float (MemUsage m) \<and> plain_float (UpBandwidth m) \<and> in_int64 (mi_Timestamp m)"

lemma plain_is_float64: "plain_float x \<Longrightarrow> is_float64 x"
proof -
  assume p: "plain_float x"
  have "(10 :: rat) ^ 21 < 2 ^ 1024" by simp
  then show ?thesis using p by (auto simp: plain_float_def is_float64_def simp del: power_numeral)
qed

lemma monitor_typed:
  assumes "monitor_ok m" shows "has_type MonitorInfo_t (monitor_value m)" "clean (monitor_value m)"
  using assms by (simp_all add: monitor_ok_def monitor_value_def MonitorInfo_t_def plain_is_float64)

end
