(* ===== verification/Md5.thy ===== *)
theory Md5
  imports JsonText "HOL-Library.Word"
begin

text \<open>
  \<open>crypto/md5\<close> and \<open>encoding/hex\<close> as \<open>getSign\<close> of rpc/auth.go uses them: RFC 1321 over bytes, with the
  32-bit additions wrapping, and the digest written in lower-case hexadecimal.
\<close>

unbundle bit_operations_syntax

type_synonym w32 = "32 word"
type_synonym md5_state = "w32 \<times> w32 \<times> w32 \<times> w32"

section \<open>Bytes and words\<close>

text \<open>The \<open>k\<close> low bytes of \<open>n\<close>, the lowest first, and back.\<close>

fun le_bytes :: "nat \<Rightarrow> int \<Rightarrow> string" where
  "le_bytes 0 n = []"
| "le_bytes (Suc k) n = char_of (n mod 256) # le_bytes k (n div 256)"

definition le_value :: "string \<Rightarrow> int" where
  "le_value s = foldr (\<lambda>c n. of_char c + 256 * n) s 0"

text \<open>The message, a one bit, zeros up to the length, and the length in bits.\<close>

definition md5_pad :: "string \<Rightarrow> string" where
  "md5_pad s =
     s @ char_of (128 :: nat) # replicate ((119 - length s mod 64) mod 64) (char_of (0 :: nat)) @
     le_bytes 8 (8 * int (length s))"

fun chunks :: "nat \<Rightarrow> nat \<Rightarrow> 'a list \<Rightarrow> 'a list list" where
  "chunks 0 n xs = []"
| "chunks (Suc k) n xs = take n xs # chunks k n (drop n xs)"

definition block_words :: "string \<Rightarrow> w32 list" where
  "block_words b = map (\<lambda>w. word_of_int (le_value w)) (chunks 16 4 b)"

section \<open>The compression function\<close>

definition md5_table :: "w32 list" where
  "md5_table =
  [3614090360, 3905402710, 606105819, 3250441966, 4118548399, 1200080426, 2821735955, 4249261313,
   1770035416, 2336552879, 4294925233, 2304563134, 1804603682, 4254626195, 2792965006, 1236535329,
   4129170786, 3225465664, 643717713, 3921069994, 3593408605, 38016083, 3634488961, 3889429448,
   568446438, 3275163606, 4107603335, 1163531501, 2850285829, 4243563512, 1735328473, 2368359562,
   4294588738, 2272392833, 1839030562, 4259657740, 2763975236, 1272893353, 4139469664, 3200236656,
   681279174, 3936430074, 3572445317, 76029189, 3654602809, 3873151461, 530742520, 3299628645,
   4096336452, 1126891415, 2878612391, 4237533241, 1700485571, 2399980690, 4293915773, 2240044497,
   1873313359, 4264355552, 2734768916, 1309151649, 4149444226, 3174756917, 718787259, 3951481745]"

definition md5_shifts :: "nat list" where
  "md5_shifts = [7, 12, 17, 22, 5, 9, 14, 20, 4, 11, 16, 23, 6, 10, 15, 21]"

definition md5_step :: "w32 list \<Rightarrow> nat \<Rightarrow> md5_state \<Rightarrow> md5_state" where
  "md5_step m i = (\<lambda>(a, b, c, d).
     let (f, g) =
       (if i < 16 then ((b AND c) OR (NOT b AND d), i)
        else if i < 32 then ((d AND b) OR (NOT d AND c), (5 * i + 1) mod 16)
        else if i < 48 then (b XOR c XOR d, (3 * i + 5) mod 16)
        else (c XOR (b OR NOT d), 7 * i mod 16));
       r = word_rotl (md5_shifts ! (4 * (i div 16) + i mod 4)) (a + f + md5_table ! i + m ! g)
     in (d, b + r, b, c))"

definition md5_block :: "md5_state \<Rightarrow> string \<Rightarrow> md5_state" where
  "md5_block s blk =
     (case (s, fold (md5_step (block_words blk)) [0..<64] s) of
        ((a, b, c, d), (a', b', c', d')) \<Rightarrow> (a + a', b + b', c + c', d + d'))"

definition md5_init :: md5_state where
  "md5_init = (1732584193, 4023233417, 2562383102, 271733878)"

text \<open>\<open>md5.Sum\<close>: the 16 bytes of the digest.\<close>

definition md5 :: "string \<Rightarrow> string" where
  "md5 s =
     (case foldl md5_block md5_init (chunks (length (md5_pad s) div 64) 64 (md5_pad s)) of
        (a, b, c, d) \<Rightarrow> concat (map (\<lambda>w. le_bytes 4 (uint w)) [a, b, c, d]))"

definition hex_encode :: "string \<Rightarrow> string" where
  "hex_encode s = concat (map (\<lambda>c. [lower_hex (code c div 16), lower_hex (code c mod 16)]) s)"

section \<open>Shape of the results\<close>

lemma length_le_bytes [simp]: "length (le_bytes k n) = k"
  by (induction k arbitrary: n) auto

lemma le_value_le_bytes: "le_value (le_bytes k n) = n mod 256 ^ k"
  by (induction k arbitrary: n) (simp_all add: le_value_def zmod_zmult2_eq)

lemma length_md5_pad: "length (md5_pad s) mod 64 = 0"
proof -
  define r where "r = length s mod 64"
  define q where "q = length s div 64"
  have s: "length s = 64 * q + r" "r < 64" by (simp_all add: r_def q_def)
  have "length (md5_pad s) = 64 * q + (r + 9 + (119 - r) mod 64)"
    by (simp add: md5_pad_def s(1) flip: r_def) (simp add: s)
  moreover have "(r + 9 + (119 - r) mod 64) mod 64 = 0"
  proof (cases "r \<le> 55")
    case True
    then have "119 - r = 64 + (55 - r)" by simp
    then have "(119 - r) mod 64 = 55 - r" by (simp only: mod_add_self1) simp
    then show ?thesis using True by simp
  qed (use s(2) in simp)
  ultimately show ?thesis by simp
qed

lemma concat_chunks: "length xs = k * n \<Longrightarrow> concat (chunks k n xs) = xs"
  by (induction k arbitrary: xs) auto

lemma chunks_full: "length xs = k * n \<Longrightarrow> b \<in> set (chunks k n xs) \<Longrightarrow> length b = n"
proof (induction k arbitrary: xs)
  case (Suc k)
  then show ?case using Suc.IH [of "drop n xs"] by auto
qed simp

text \<open>The blocks are the padded message, cut without a rest.\<close>

lemma md5_blocks:
  "concat (chunks (length (md5_pad s) div 64) 64 (md5_pad s)) = md5_pad s"
  "b \<in> set (chunks (length (md5_pad s) div 64) 64 (md5_pad s)) \<Longrightarrow> length b = 64"
  using length_md5_pad [of s] by (auto intro!: concat_chunks dest: chunks_full [rotated])

lemma length_md5 [simp]: "length (md5 s) = 16"
  by (simp add: md5_def split: prod.split)

definition is_hex :: "char \<Rightarrow> bool" where
  "is_hex c \<longleftrightarrow> c \<in> set ''0123456789abcdef''"

lemma is_hex_lower_hex: "d < 16 \<Longrightarrow> is_hex (lower_hex d)"
proof -
  assume "d < 16"
  then have "d \<in> set [0..<16]" by simp
  moreover have "\<forall>d\<in>set [0..<16]. is_hex (lower_hex d)" by code_simp
  ultimately show ?thesis by blast
qed

lemma hex_encode_shape: "length (hex_encode s) = 2 * length s" "c \<in> set (hex_encode s) \<Longrightarrow> is_hex c"
proof -
  show "length (hex_encode s) = 2 * length s" by (induction s) (auto simp: hex_encode_def)
  have "code d div 16 < 16" for d
    using nat_of_char_less_256 [of d] by (simp add: div_less_iff_less_mult)
  then show "c \<in> set (hex_encode s) \<Longrightarrow> is_hex c"
    by (auto simp: hex_encode_def is_hex_lower_hex)
qed


end
