(* ===== verification/RpcClient.thy ===== *)
theory RpcClient
  imports RpcTypes Md5
begin

text \<open>
  rpc/auth.go, rpc/url.go and rpc/client.go: the headers and URLs of a request, the signature, the API
  calls with the bodies they send, and what the client makes of a response. The network is the record
  \<open>transport\<close>: whether \<open>net/http\<close> accepts the URL, and what \<open>http.DefaultClient.Do\<close> answers to a
  request. \<open>now\<close> is the Unix time the call reads.
\<close>

section \<open>Authentication (auth.go)\<close>

record autheticatorImpl =
  au_appKey :: string
  au_appSecret :: string

definition NewAutheticator :: "string \<Rightarrow> string \<Rightarrow> autheticatorImpl go" where
  "NewAutheticator appKey appSecret =
     (if appKey = '''' \<or> appSecret = '''' then Panic
      else Ret \<lparr>au_appKey = appKey, au_appSecret = appSecret\<rparr>)"

definition getSign :: "string \<Rightarrow> int \<Rightarrow> string" where
  "getSign appSecret now = hex_encode (md5 (appSecret @ ''#'' @ format_int now))"

text \<open>The key and the secret of the receiver play no part.\<close>

definition GetAuthHeaders :: "int \<Rightarrow> autheticatorImpl \<Rightarrow> (string, string) gomap" where
  "GetAuthHeaders now a =
     [(''ak'', ''gfjqXeKSKDIkkaIO9A7Pz5CV''),
      (''timestamp'', format_int now),
      (''sign'', getSign ''A9QbSBGJXksjdopSDFaQ0Dnlr4ulx6'' now)]"

section \<open>URLs and headers (url.go)\<close>

record commonHeadersProvider =
  ImageVersion :: string
  ch_DeviceId :: string
  ch_BizType :: string
  Ak :: string
  As :: string
  Auth :: "autheticatorImpl option"

definition GetCommonHeaders :: "int \<Rightarrow> commonHeadersProvider \<Rightarrow> (string, string) gomap" where
  "GetCommonHeaders now p =
     (let headers = [(''ak'', Ak p), (''timestamp'', format_int now), (''sign'', getSign (As p) now)];
          headers = gm_set ''version'' (ImageVersion p) headers;
          headers = gm_set ''bizType'' (ch_BizType p) headers;
          headers = (if gm_get headers ''version'' = Some '''' then gm_set ''version'' ''unknown'' headers else headers);
          headers = gm_set ''agent'' ''v0.0.1'' headers
      in if ch_DeviceId p \<noteq> '''' then gm_set ''deviceID'' (ch_DeviceId p) headers else headers)"

record urlProvider =
  up_ServerEndpoint :: string
  CommonHeaders :: commonHeadersProvider

definition add_headers :: "(string, string) gomap \<Rightarrow> (string, string) gomap \<Rightarrow> (string, string) gomap" where
  "add_headers kvs m = foldl (\<lambda>m (k, v). gm_set k v m) m kvs"

definition GetWithParams ::
  "int \<Rightarrow> urlProvider \<Rightarrow> string \<Rightarrow> (string, string) gomap \<Rightarrow> string \<times> (string, string) gomap" where
  "GetWithParams now p path params =
     (let httpUrl = up_ServerEndpoint p @ path;
          httpUrl = (if \<not> HasPrefix httpUrl ''http'' then ''https://'' @ httpUrl else httpUrl);
          headers = add_headers (GetCommonHeaders now (CommonHeaders p)) []
      in (httpUrl, add_headers params headers))"

definition url_Get :: "int \<Rightarrow> urlProvider \<Rightarrow> string \<Rightarrow> string \<times> (string, string) gomap" where
  "url_Get now p path = GetWithParams now p path []"

section \<open>Requests and responses\<close>

record http_request =
  rq_method :: string
  rq_url :: string
  rq_header :: "(string, string) gomap"
  rq_body :: "string option"

text \<open>A body is read whole, or reading it fails.\<close>

record http_response =
  StatusCode :: int
  rs_body :: "string option"

record transport =
  url_error :: "string \<Rightarrow> string \<Rightarrow> bool"
  roundtrip :: "http_request \<Rightarrow> http_response option"

datatype rpc_error =
    BadRequest
  | NoResponse
  | BodyError
  | JsonError json_error
  | ServerErr serverError
  | HttpErr httpError

definition serverSuccessCode :: int where "serverSuccessCode = 0"

text \<open>What a call passes as its body: nothing, bytes, or a value to marshal.\<close>

datatype body = NoBody | Raw string | Value gotype goval

definition body_text :: "body \<Rightarrow> string option" where
  "body_text b = (case b of NoBody \<Rightarrow> None | Raw s \<Rightarrow> Some s | Value t v \<Rightarrow> Some (Marshal t v))"

definition int_field :: "goval \<Rightarrow> int" where
  "int_field v = (case v of VInt i \<Rightarrow> i | _ \<Rightarrow> 0)"

definition str_field :: "goval \<Rightarrow> string" where
  "str_field v = (case v of VStr s \<Rightarrow> s | _ \<Rightarrow> '''')"

definition server_error_of :: "goval list \<Rightarrow> serverError" where
  "server_error_of vs =
     \<lparr>se_Code = int_field (vs ! 0), se_Message = str_field (vs ! 1), se_EventID = str_field (vs ! 2)\<rparr>"

text \<open>
  The envelope around the caller's variable \<open>v\<close> of type \<open>t\<close>: \<open>Data\<close> holds a pointer to it. A null sets
  \<open>Data\<close> itself, and later members no longer reach the variable; so the variable ends as it was when
  \<open>Data\<close> last held it.
\<close>

definition envelope :: "gotype \<Rightarrow> goval \<Rightarrow> goval" where
  "envelope t v = VStruct [VInt 0, VInt 0, VStr '''', VStr '''', VAny (TPtr t) (VPtr v)]"

definition envelope_data :: "goval \<Rightarrow> goval option" where
  "envelope_data v = map_option snd (held (struct_fields v ! 4))"

definition data_of :: "gotype \<Rightarrow> goval \<Rightarrow> json \<Rightarrow> goval" where
  "data_of t v j =
     (case j of
        JObj kvs \<Rightarrow>
          last (v # List.map_filter (\<lambda>n. envelope_data (fst (decode ServerResponse_t (envelope t v) (JObj (take n kvs)))))
            [0..<Suc (length kvs)])
      | _ \<Rightarrow> v)"

text \<open>The two readings of a body with a success status: into a variable, and for its code only.\<close>

definition parse_data :: "gotype \<Rightarrow> goval \<Rightarrow> string \<Rightarrow> goval \<times> rpc_error option" where
  "parse_data t v buf =
     (case Unmarshal ServerResponse_t buf (envelope t v) of
        (w, e) \<Rightarrow>
          let d = (case json_parse buf of Some j \<Rightarrow> data_of t v j | None \<Rightarrow> v);
              fs = struct_fields w; code = int_field (fs ! 0)
          in (case e of
                Some err \<Rightarrow> (d, Some (JsonError err))
              | None \<Rightarrow>
                  if code \<noteq> serverSuccessCode
                  then (d, Some (ServerErr \<lparr>se_Code = code, se_Message = str_field (fs ! 3), se_EventID = str_field (fs ! 2)\<rparr>))
                  else (d, None)))"

definition parse_plain :: "string \<Rightarrow> rpc_error option" where
  "parse_plain buf =
     (case Unmarshal ServerError_t buf (zero ServerError_t) of
        (w, e) \<Rightarrow>
          let rsp = server_error_of (struct_fields w)
          in (case e of
                Some err \<Rightarrow> Some (JsonError err)
              | None \<Rightarrow> if se_Code rsp \<noteq> serverSuccessCode then Some (ServerErr rsp) else None))"

text \<open>
  \<open>parseResponse\<close> with the variable to fill, if there is one: the variable afterwards, and the error.
\<close>

definition parseResponse ::
  "http_response \<Rightarrow> (gotype \<times> goval) option \<Rightarrow> goval option \<times> rpc_error option" where
  "parseResponse rsp dataRef =
     (case rs_body rsp of
        None \<Rightarrow> (map_option snd dataRef, Some BodyError)
      | Some buf \<Rightarrow>
          if 200 \<le> StatusCode rsp \<and> StatusCode rsp < 300
          then (case dataRef of
                  Some (t, v) \<Rightarrow> (case parse_data t v buf of (d, e) \<Rightarrow> (Some d, e))
                | None \<Rightarrow> (None, parse_plain buf))
          else (map_option snd dataRef, Some (HttpErr \<lparr>he_Code = StatusCode rsp, he_Message = buf\<rparr>)))"

definition build_request :: "string \<Rightarrow> string \<Rightarrow> (string, string) gomap \<Rightarrow> body \<Rightarrow> http_request" where
  "build_request method url headers body =
     \<lparr>rq_method = method, rq_url = url,
      rq_header = add_headers headers (if body \<noteq> NoBody then [(''Content-Type'', ''application/json'')] else []),
      rq_body = body_text body\<rparr>"

definition doExecuteRequest ::
  "transport \<Rightarrow> string \<Rightarrow> string \<Rightarrow> (string, string) gomap \<Rightarrow> body \<Rightarrow> (gotype \<times> goval) option
     \<Rightarrow> goval option \<times> rpc_error option" where
  "doExecuteRequest net method url headers body rspDataRef =
     (if url_error net method url then (map_option snd rspDataRef, Some BadRequest)
      else
        (case roundtrip net (build_request method url headers body) of
           None \<Rightarrow> (map_option snd rspDataRef, Some NoResponse)
         | Some rsp \<Rightarrow> parseResponse rsp rspDataRef))"

definition executeRequest ::
  "transport \<Rightarrow> string \<Rightarrow> string \<times> (string, string) gomap \<Rightarrow> body \<Rightarrow> (gotype \<times> goval) option
     \<Rightarrow> goval option \<times> rpc_error option" where
  "executeRequest net method uh body rspDataRef =
     doExecuteRequest net method (fst uh) (snd uh) body rspDataRef"

section \<open>The API\<close>

text \<open>\<open>map[string]interface{}{"data": &v}\<close> for a \<open>v\<close> of type \<open>t\<close>, and a map of several entries.\<close>

definition data_body :: "gotype \<Rightarrow> goval \<Rightarrow> body" where
  "data_body t v = Value (TMap TAny) (VMap [(''data'', VAny (TPtr t) (VPtr v))])"

text \<open>A call that answers with a value returns it only without an error.\<close>

definition value_or_error :: "goval option \<times> rpc_error option \<Rightarrow> rpc_error + goval" where
  "value_or_error r = (case r of (v, Some e) \<Rightarrow> Inl e | (v, None) \<Rightarrow> Inr (case v of Some w \<Rightarrow> w | None \<Rightarrow> VNil))"

definition RegisterDevice :: "transport \<Rightarrow> int \<Rightarrow> urlProvider \<Rightarrow> goval \<Rightarrow> rpc_error + goval" where
  "RegisterDevice net now p device =
     value_or_error (executeRequest net ''POST'' (url_Get now p ''/api/common/v1/register'')
       (Value (TPtr (TMap TAny)) (VPtr (VMap [(''data'', VAny (TPtr DeviceInfo_t) (VPtr device))])))
       (Some (RegisterRsp_t, zero RegisterRsp_t)))"

definition ReportDeploymentStatus :: "transport \<Rightarrow> int \<Rightarrow> urlProvider \<Rightarrow> goval \<Rightarrow> rpc_error option" where
  "ReportDeploymentStatus net now p r =
     snd (executeRequest net ''POST'' (url_Get now p ''/api/common/v1/update/deployment/status'')
       (data_body DeploymentStatusResult_t r) None)"

definition ReportDeviceInfo :: "transport \<Rightarrow> int \<Rightarrow> urlProvider \<Rightarrow> goval \<Rightarrow> rpc_error option" where
  "ReportDeviceInfo net now p device =
     snd (executeRequest net ''POST'' (url_Get now p ''/api/common/v1/sync/hardware'')
       (data_body DeviceInfo_t device) None)"

definition monitor_body :: "monitorInfo list \<Rightarrow> body" where
  "monitor_body ms = data_body (TSlice MonitorInfo_t) (VSlice (map monitor_value ms))"

definition ReportMonitorInfo :: "transport \<Rightarrow> int \<Rightarrow> urlProvider \<Rightarrow> monitorInfo list \<Rightarrow> rpc_error option" where
  "ReportMonitorInfo net now p ms =
     snd (executeRequest net ''POST'' (url_Get now p ''/api/common/v1/nethogs/monitor'') (monitor_body ms) None)"

text \<open>The cards are returned beside the error, whatever it is.\<close>

definition GetDialingInfo :: "transport \<Rightarrow> int \<Rightarrow> urlProvider \<Rightarrow> goval option \<times> rpc_error option" where
  "GetDialingInfo net now p =
     executeRequest net ''GET'' (url_Get now p ''/api/common/v1/dialinginfo'') NoBody
       (Some (TSlice NetCardInfo_t, VNil))"

definition ReportNetCardInfo :: "transport \<Rightarrow> int \<Rightarrow> urlProvider \<Rightarrow> goval \<Rightarrow> rpc_error option" where
  "ReportNetCardInfo net now p netCards =
     snd (executeRequest net ''POST'' (url_Get now p ''/api/common/v1/sync/network'')
       (Value (TMap TAny)
         (VMap [(''modifyTime'', VAny (TInt 64) (struct_fields netCards ! 0)),
           (''netCards'', VAny (TSlice NetCardInfo_t) (struct_fields netCards ! 2))])) None)"

definition ReportHeartbeat :: "transport \<Rightarrow> int \<Rightarrow> urlProvider \<Rightarrow> rpc_error + goval" where
  "ReportHeartbeat net now p =
     value_or_error (executeRequest net ''POST'' (url_Get now p ''/api/common/v1/heartbeat'') (Raw ''{}'')
       (Some (HeartbeatRsp_t, zero HeartbeatRsp_t)))"

definition ReportTest :: "transport \<Rightarrow> int \<Rightarrow> urlProvider \<Rightarrow> goval \<Rightarrow> goval \<Rightarrow> rpc_error option" where
  "ReportTest net now p networkTest diskResults =
     snd (executeRequest net ''POST'' (url_Get now p ''/api/common/v1/test/result'')
       (Value (TMap TAny)
         (VMap [(''networkResults'', VAny (TSlice NetworkTestResult_t) networkTest),
           (''diskResults'', VAny (TSlice DiskResults_t) diskResults)])) None)"


section \<open>Headers\<close>

lemma gm_get_literal [simp]: "gm_get ((k, v) # m) j = (if j = k then Some v else gm_get m j)"
  by (simp add: gm_get_def)

lemma gm_get_add_headers:
  "gm_ok kvs \<Longrightarrow> gm_get (add_headers kvs m) j = (case gm_get kvs j of Some v \<Rightarrow> Some v | None \<Rightarrow> gm_get m j)"
proof (induction kvs arbitrary: m)
  case (Cons kv kvs)
  obtain k v where kv: "kv = (k, v)" by (cases kv)
  have ok: "gm_ok kvs" "k \<notin> fst ` set kvs" using Cons.prems by (auto simp: gm_ok_def kv)
  have "gm_get kvs k = None" using ok(2) by (simp add: gm_get_def map_of_eq_None_iff)
  then show ?case
    using Cons.IH [OF ok(1), of "gm_set k v m"]
    by (auto simp: add_headers_def kv gomap_simps split: option.split)
qed (simp add: add_headers_def)

lemma gm_ok_common: "gm_ok (GetCommonHeaders now c)"
proof -
  have "gm_ok [(''ak'', x), (''timestamp'', y), (''sign'', z)]" for x y z :: string
    by (simp add: gm_ok_def)
  then show ?thesis by (auto simp: GetCommonHeaders_def Let_def intro!: gm_ok_set)
qed

lemma common_get:
  "gm_get (GetCommonHeaders now c) k =
     (if k = ''ak'' then Some (Ak c)
      else if k = ''timestamp'' then Some (format_int now)
      else if k = ''sign'' then Some (getSign (As c) now)
      else if k = ''version'' then Some (if ImageVersion c = '''' then ''unknown'' else ImageVersion c)
      else if k = ''bizType'' then Some (ch_BizType c)
      else if k = ''agent'' then Some ''v0.0.1''
      else if k = ''deviceID'' \<and> ch_DeviceId c \<noteq> '''' then Some (ch_DeviceId c)
      else None)"
  by (auto simp: GetCommonHeaders_def Let_def gomap_simps)

lemma url_Get_get: "gm_get (snd (url_Get now p path)) k = gm_get (GetCommonHeaders now (CommonHeaders p)) k"
  by (simp add: url_Get_def GetWithParams_def Let_def gm_get_add_headers gm_ok_common add_headers_def [of "[]"]
      split: option.split)

lemma gm_ok_add_headers: "gm_ok m \<Longrightarrow> gm_ok (add_headers kvs m)"
  by (induction kvs arbitrary: m) (auto simp: add_headers_def intro!: gm_ok_set)

lemma gm_ok_url_Get: "gm_ok (snd (url_Get now p path))"
  by (simp add: url_Get_def GetWithParams_def Let_def gm_ok_add_headers add_headers_def [of "[]"])

lemma url_Get_http: "HasPrefix (fst (url_Get now p path)) ''http''"
  by (auto simp: url_Get_def GetWithParams_def Let_def HasPrefix_def)

lemma getSign_shape: "length (getSign s now) = 32" "\<forall>c\<in>set (getSign s now). is_hex c"
  using hex_encode_shape by (auto simp: getSign_def)

section \<open>What a call makes of a response\<close>

lemma parse_other_status:
  "\<not> (200 \<le> StatusCode rsp \<and> StatusCode rsp < 300) \<Longrightarrow> rs_body rsp = Some buf \<Longrightarrow>
     parseResponse rsp d = (map_option snd d, Some (HttpErr \<lparr>he_Code = StatusCode rsp, he_Message = buf\<rparr>))"
  by (auto simp: parseResponse_def)

text \<open>An answer the server writes as a \<open>ServerError\<close> reaches the caller unchanged.\<close>

definition server_error_ok :: "serverError \<Rightarrow> bool" where
  "server_error_ok e \<longleftrightarrow> in_int64 (se_Code e) \<and> valid_utf8 (se_Message e) \<and> valid_utf8 (se_EventID e)"

lemma reports_member:
  "ServerError_t \<in> set reports" "MonitorInfo_t \<in> set reports" "NetCardInfo_t \<in> set reports"
  by (simp_all add: reports_def)

lemma Unmarshal_report:
  "t \<in> set reports \<Longrightarrow> has_type t v \<Longrightarrow> clean v \<Longrightarrow> Unmarshal t (Marshal t v) (zero t) = (v, None)"
  using reports_plain [of t] by (intro Unmarshal_Marshal) (auto simp: maxNestingDepth_def)

lemma parse_server_error:
  assumes "server_error_ok e" "200 \<le> status" "status < 300"
  shows "parseResponse \<lparr>StatusCode = status, rs_body = Some (ServerError_Error e)\<rparr> None
     = (None, if se_Code e = 0 then None else Some (ServerErr e))"
proof -
  have "has_type ServerError_t (server_error_value e)" "clean (server_error_value e)"
    using assms(1) by (simp_all add: server_error_ok_def server_error_value_def ServerError_t_def)
  then have "Unmarshal ServerError_t (ServerError_Error e) (zero ServerError_t) = (server_error_value e, None)"
    by (simp add: ServerError_Error_def Unmarshal_report reports_member)
  moreover have "server_error_of (struct_fields (server_error_value e)) = e"
    by (simp add: server_error_of_def server_error_value_def struct_fields_def int_field_def str_field_def)
  ultimately show ?thesis using assms(2,3) by (simp add: parseResponse_def parse_plain_def Let_def serverSuccessCode_def)
qed

section \<open>The caller's variable\<close>

lemma envelope_typed: "has_type t v \<Longrightarrow> has_type ServerResponse_t (envelope t v)"
  by (simp add: ServerResponse_t_def envelope_def)

text \<open>An interface that holds a pointer after decoding held one of that type before.\<close>

lemma any_value_holds_no_pointer: "held (fst (any_value j)) = None"
  by (cases j) (auto simp: held_def split: option.split prod.split)

lemma held_decode: "held (fst (decode TAny v j)) = Some (s, w) \<Longrightarrow> \<exists>u. held v = Some (s, u)"
proof (cases "j = JNull")
  case True
  assume "held (fst (decode TAny v j)) = Some (s, w)"
  then show ?thesis
    by (auto simp: True decode.simps store_null_def held_def split: goval.splits gotype.splits)
next
  case False
  assume h: "held (fst (decode TAny v j)) = Some (s, w)"
  show ?thesis
  proof (cases "held v")
    case None
    then have "held (fst (store_any v j)) = None"
      using any_value_holds_no_pointer by (simp add: store_any_def split: json.split del: any_value.simps)
    then show ?thesis using h False None by (simp add: decode.simps)
  next
    case (Some x)
    then show ?thesis using h False by (cases x) (auto simp: decode.simps [of TAny v] held_def split: prod.splits)
  qed
qed

lemma held_members:
  assumes "length vs = length fs" "m < length fs" "snd (fs ! m) = TAny"
    and "held (fst (decode_members fs vs kvs) ! m) = Some (s, w)"
  shows "\<exists>u. held (vs ! m) = Some (s, u)"
  using assms(1,4)
proof (induction kvs arbitrary: vs)
  case (Cons kv kvs)
  obtain k x where kv: "kv = (k, x)" by (cases kv)
  show ?case
  proof (cases "field_index fs k")
    case None
    then show ?thesis using Cons by (simp add: kv)
  next
    case (Some i)
    define v where "v = fst (decode (snd (fs ! i)) (vs ! i) x)"
    have "\<exists>u. held (vs[i := v] ! m) = Some (s, u)"
      using Cons.prems by (intro Cons.IH) (auto simp: kv Some v_def split: prod.splits)
    then show ?thesis
      using field_index_bound [OF Some] Cons.prems(1) assms(3) held_decode
      by (cases "i = m") (auto simp: v_def)
  qed
qed simp

lemma envelope_data_type:
  assumes "has_type t v" "envelope_data (fst (decode ServerResponse_t (envelope t v) j)) = Some w"
  shows "has_type t w"
proof -
  define r where "r = fst (decode ServerResponse_t (envelope t v) j)"
  have "has_type ServerResponse_t r" using decode_typed(1) [OF envelope_typed [OF assms(1)]] by (simp add: r_def)
  moreover obtain s where h: "held (struct_fields r ! 4) = Some (s, w)"
    using assms(2) by (auto simp: envelope_data_def r_def)
  ultimately have "has_type s w"
    by (auto simp: ServerResponse_t_def struct_fields_def split: goval.splits list.splits intro: typed_held)
  moreover have "s = t"
  proof (cases "\<exists>kvs. j = JObj kvs")
    case True
    then obtain kvs where j: "j = JObj kvs" ..
    have "held (fst (decode_members (case ServerResponse_t of TStruct fs \<Rightarrow> fs)
        [VInt 0, VInt 0, VStr '''', VStr '''', VAny (TPtr t) (VPtr v)] kvs) ! 4) = Some (s, w)"
      using h by (simp add: r_def j envelope_def ServerResponse_t_def decode.simps struct_fields_def split: prod.splits)
    from held_members [OF _ _ _ this] show ?thesis by (simp add: ServerResponse_t_def held_def)
  next
    case False
    then have "r = envelope t v"
      by (cases j) (auto simp: r_def decode.simps ServerResponse_t_def store_null_def)
    then show ?thesis using h by (simp add: envelope_def struct_fields_def held_def)
  qed
  ultimately show ?thesis by simp
qed

lemma data_of_typed: "has_type t v \<Longrightarrow> has_type t (data_of t v j)"
proof (cases "\<exists>kvs. j = JObj kvs")
  case True
  assume v: "has_type t v"
  obtain kvs where j: "j = JObj kvs" using True ..
  define ws where "ws = List.map_filter (\<lambda>n. envelope_data (fst (decode ServerResponse_t (envelope t v) (JObj (take n kvs)))))
            [0..<Suc (length kvs)]"
  have "\<forall>w\<in>set ws. has_type t w"
    using envelope_data_type [OF v] by (auto simp: ws_def List.map_filter_def)
  then have "\<forall>w\<in>set (v # ws). has_type t w" using v by simp
  moreover have "last (v # ws) \<in> set (v # ws)" by (rule last_in_set) simp
  ultimately have "has_type t (last (v # ws))" by blast
  then show ?thesis by (simp add: j data_of_def ws_def)
qed (cases j; simp add: data_of_def)

theorem parse_typed:
  assumes "has_type t v" "fst (parseResponse rsp (Some (t, v))) = Some w"
  shows "has_type t w"
  using assms data_of_typed [OF assms(1)]
  by (auto simp: parseResponse_def parse_data_def Let_def split: option.splits if_splits prod.splits)


section \<open>Answers with data\<close>

text \<open>The answer a server gives with this code and this \<open>d\<close> of type \<open>t\<close>.\<close>

definition reply_value :: "serverError \<Rightarrow> int \<Rightarrow> gotype \<Rightarrow> goval \<Rightarrow> goval" where
  "reply_value e tm t d =
     VStruct [VInt (se_Code e), VInt tm, VStr (se_EventID e), VStr (se_Message e), VAny t d]"

definition reply_text :: "serverError \<Rightarrow> int \<Rightarrow> gotype \<Rightarrow> goval \<Rightarrow> string" where
  "reply_text e tm t d = Marshal ServerResponse_t (reply_value e tm t d)"

definition data_ok :: "gotype \<Rightarrow> goval \<Rightarrow> bool" where
  "data_ok t d \<longleftrightarrow> has_type t d \<and> plain_type t \<and> names_ok t \<and> type_depth t < 100 \<and> clean d \<and>
     (case t of TPtr _ \<Rightarrow> False | _ \<Rightarrow> True)"

lemma ServerResponse_names: "names_ok ServerResponse_t"
  by (auto simp: ServerResponse_t_def ascii_utf8 simp del: valid_utf8.simps(2))

lemma reply_tree:
  assumes "server_error_ok e" "data_ok t d"
  shows "json_parse (reply_text e tm t d) = Some (encode ServerResponse_t (reply_value e tm t d))"
proof -
  have "clean (reply_value e tm t d)"
    using assms by (simp add: reply_value_def server_error_ok_def data_ok_def)
  then have "json_ok (encode ServerResponse_t (reply_value e tm t d))"
    by (rule json_ok_encode(1) [OF ServerResponse_names])
  moreover have "json_depth (encode t d) \<le> type_depth t"
    using assms(2) by (intro depth_encode) (simp_all add: data_ok_def)
  then have "json_depth (encode ServerResponse_t (reply_value e tm t d)) \<le> maxNestingDepth"
    using assms(2) by (simp add: ServerResponse_t_def reply_value_def data_ok_def maxNestingDepth_def)
  ultimately show ?thesis by (simp add: reply_text_def Marshal_def json_parse_print)
qed

lemma reply_null: "data_ok t d \<Longrightarrow> encode t d = JNull \<longleftrightarrow> d = VNil"
  by (cases t; cases d) (auto simp: data_ok_def encode_not_null)

lemma zero_VNil: "has_type t VNil \<Longrightarrow> zero t = VNil"
  by (cases t) auto

lemma decode_any_pointer:
  assumes "data_ok t d"
  shows "decode TAny (VAny (TPtr t) (VPtr (zero t))) (encode t d) = (if d = VNil then VNil else VAny (TPtr t) (VPtr d), None)"
proof (cases "d = VNil")
  case True
  have "\<And>s. t \<noteq> TPtr s" using assms by (auto simp: data_ok_def)
  then show ?thesis by (auto simp: True decode.simps store_null_def split: gotype.split)
next
  case False
  then have "encode t d \<noteq> JNull" using reply_null [OF assms] by simp
  moreover have "decode t (zero t) (encode t d) = (d, None)"
    using reread_plain [of t d] assms by (simp add: data_ok_def reread_def)
  ultimately show ?thesis using False by (simp add: decode.simps [of TAny] held_def)
qed

lemmas reply_simps =
  decode.simps [of "TStruct fs" for fs] decode.simps [of "TInt 64"] decode.simps [of TString]
  struct_fields_def field_index_def store_scalar_def ParseInt_64

lemma reply_members:
  assumes "data_ok t d" "server_error_ok e" "in_int64 tm"
  shows "decode ServerResponse_t (envelope t (zero t)) (encode ServerResponse_t (reply_value e tm t d))
     = (VStruct [VInt (se_Code e), VInt tm, VStr (se_EventID e), VStr (se_Message e),
          if d = VNil then VNil else VAny (TPtr t) (VPtr d)], None)"
  using assms ParseInt_format_int decode_any_pointer [OF assms(1)]
  by (simp add: ServerResponse_t_def envelope_def reply_value_def server_error_ok_def reply_simps)

lemma reply_data:
  assumes "data_ok t d" "server_error_ok e" "in_int64 tm"
  shows "data_of t (zero t) (encode ServerResponse_t (reply_value e tm t d)) = d"
proof -
  define kvs where "kvs = [(''code'', JNum (format_int (se_Code e))), (''current_time'', JNum (format_int tm)),
    (''event_id'', JStr (se_EventID e)), (''message'', JStr (se_Message e)), (''data'', encode t d)]"
  have enc: "encode ServerResponse_t (reply_value e tm t d) = JObj kvs"
    by (simp add: ServerResponse_t_def reply_value_def kvs_def)
  let ?g = "\<lambda>n. envelope_data (fst (decode ServerResponse_t (envelope t (zero t)) (JObj (take n kvs))))"
  have g: "?g 0 = Some (zero t)" "?g 1 = Some (zero t)" "?g 2 = Some (zero t)" "?g 3 = Some (zero t)" "?g 4 = Some (zero t)"
    using assms(2,3) ParseInt_format_int
    by (simp_all add: kvs_def envelope_data_def ServerResponse_t_def envelope_def server_error_ok_def reply_simps held_def)
  have "[0..<5] = [0, 1, 2, 3, 4 :: nat]" by (simp add: eval_nat_numeral)
  then have pre: "List.map_filter ?g [0..<5] = [zero t, zero t, zero t, zero t, zero t]"
    by (simp only: List.map_filter_simps g option.case)
  have "?g 5 = (if d = VNil then None else Some d)"
    using reply_members [OF assms] by (simp add: enc envelope_data_def struct_fields_def held_def kvs_def)
  moreover have "length kvs = 5" by (simp add: kvs_def)
  then have "[0..<Suc (length kvs)] = [0..<5] @ [5]" by (simp only: upt_Suc) simp
  ultimately have "List.map_filter ?g [0..<Suc (length kvs)]
      = [zero t, zero t, zero t, zero t, zero t] @ (if d = VNil then [] else [d])"
    by (simp only: List.map_filter_def filter_append map_append pre [unfolded List.map_filter_def]) simp
  moreover have "zero t = VNil" if "d = VNil" using that assms(1) zero_VNil by (simp add: data_ok_def)
  ultimately show ?thesis by (simp add: enc data_of_def)
qed

theorem parse_reply:
  assumes "data_ok t d" "server_error_ok e" "in_int64 tm" "200 \<le> status" "status < 300"
  shows "parseResponse \<lparr>StatusCode = status, rs_body = Some (reply_text e tm t d)\<rparr> (Some (t, zero t))
     = (Some d, if se_Code e = 0 then None else Some (ServerErr e))"
  using assms reply_tree [OF assms(2,1), of tm] reply_members [OF assms(1-3)] reply_data [OF assms(1-3)]
  by (simp add: parseResponse_def parse_data_def Unmarshal_def Let_def struct_fields_def int_field_def str_field_def
      serverSuccessCode_def)


section \<open>Bodies\<close>

text \<open>What the server finds under \<open>data\<close> is what was reported.\<close>

definition data_t :: "gotype \<Rightarrow> gotype" where
  "data_t t = TStruct [(''data'', t)]"

lemma data_body_tree: "body_text (data_body t v) = Some (Marshal (data_t t) (VStruct [v]))"
  by (simp add: body_text_def data_body_def Marshal_def data_t_def)

lemma data_body_read:
  assumes "data_ok t v" "body_text (data_body t v) = Some s"
  shows "Unmarshal (data_t t) s (zero (data_t t)) = (VStruct [v], None)"
proof -
  have "s = Marshal (data_t t) (VStruct [v])" using assms(2) by (simp add: data_body_tree)
  moreover have "valid_utf8 ''data''" by (rule ascii_utf8) simp
  ultimately have "has_type (data_t t) (VStruct [v])" "plain_type (data_t t)" "names_ok (data_t t)"
    "type_depth (data_t t) \<le> maxNestingDepth" "clean (VStruct [v])"
    using assms(1) by (simp_all add: data_ok_def data_t_def maxNestingDepth_def del: valid_utf8.simps(2))
  then have "Unmarshal (data_t t) (Marshal (data_t t) (VStruct [v])) (zero (data_t t)) = (VStruct [v], None)"
    by (rule Unmarshal_Marshal)
  with \<open>s = _\<close> show ?thesis by simp
qed

lemma monitors_data_ok:
  assumes "\<forall>m\<in>set ms. monitor_ok m"
  shows "data_ok (TSlice MonitorInfo_t) (VSlice (map monitor_value ms))"
  using assms monitor_typed reports_plain [OF reports_member(2)] by (auto simp: data_ok_def)

text \<open>So different reports have different bodies.\<close>

definition data_text :: "gotype \<Rightarrow> goval \<Rightarrow> string" where
  "data_text t v = Marshal (data_t t) (VStruct [v])"

definition read_data :: "gotype \<Rightarrow> string \<Rightarrow> goval option" where
  "read_data t s =
     (case Unmarshal (data_t t) s (zero (data_t t)) of (VStruct [v], None) \<Rightarrow> Some v | _ \<Rightarrow> None)"

interpretation monitor_codec: codec "data_ok (TSlice MonitorInfo_t)" "data_text (TSlice MonitorInfo_t)"
    "read_data (TSlice MonitorInfo_t)"
proof
  fix v
  assume ok: "data_ok (TSlice MonitorInfo_t) v"
  have "body_text (data_body (TSlice MonitorInfo_t) v) = Some (data_text (TSlice MonitorInfo_t) v)"
    by (simp add: data_body_tree data_text_def)
  from data_body_read [OF ok this]
  show "read_data (TSlice MonitorInfo_t) (data_text (TSlice MonitorInfo_t) v) = Some v"
    by (simp add: read_data_def)
qed

lemma report_bodies_differ:
  assumes "\<forall>m\<in>set ms. monitor_ok m" "\<forall>m\<in>set ns. monitor_ok m"
  shows "body_text (monitor_body ms) = body_text (monitor_body ns) \<longleftrightarrow> map monitor_value ms = map monitor_value ns"
  using monitor_codec.enc_inject [OF monitors_data_ok [OF assms(1)] monitors_data_ok [OF assms(2)]]
  by (simp add: monitor_body_def data_body_tree data_text_def)

text \<open>A request is sent with the body and the headers it was built from, and nothing else is sent.\<close>

lemma execute_cases:
  "executeRequest net method uh b d =
     (if url_error net method (fst uh) then (map_option snd d, Some BadRequest)
      else
        (case roundtrip net (build_request method (fst uh) (snd uh) b) of
           None \<Rightarrow> (map_option snd d, Some NoResponse)
         | Some rsp \<Rightarrow> parseResponse rsp d))"
  by (simp add: executeRequest_def doExecuteRequest_def)

lemma request_header:
  assumes "gm_ok headers"
  shows "gm_get (rq_header (build_request method url headers b)) k =
     (case gm_get headers k of
        Some v \<Rightarrow> Some v
      | None \<Rightarrow> if k = ''Content-Type'' \<and> b \<noteq> NoBody then Some ''application/json'' else None)"
  using assms by (auto simp: build_request_def gm_get_add_headers split: option.split)

theorem execute_typed:
  assumes "has_type t v" "fst (executeRequest net method uh b (Some (t, v))) = Some w"
  shows "has_type t w"
  using assms parse_typed [OF assms(1)] by (auto simp: execute_cases split: if_splits option.splits)



section \<open>What an answer without data says\<close>

text \<open>
  An answer read as an object, independently of the decoder: the members of a name (in any case) that
  are not null, of which the last counts, and what they are as a number and as a text.
\<close>

definition named :: "string \<Rightarrow> (string \<times> json) list \<Rightarrow> json list" where
  "named f kvs = map snd (filter (\<lambda>(k, x). fold_key k = f \<and> x \<noteq> JNull) kvs)"

definition int_of :: "json \<Rightarrow> int option" where
  "int_of x =
     (case x of JNum s \<Rightarrow> (case ParseInt s 10 64 of (i, e) \<Rightarrow> if e = None \<and> in_int64 i then Some i else None)
      | _ \<Rightarrow> None)"

definition text_in :: "json \<Rightarrow> string option" where
  "text_in x = (case x of JStr s \<Rightarrow> Some s | _ \<Rightarrow> None)"

definition error_readable :: "(string \<times> json) list \<Rightarrow> bool" where
  "error_readable kvs \<longleftrightarrow>
     list_all (\<lambda>x. int_of x \<noteq> None) (named ''code'' kvs) \<and>
     list_all (\<lambda>x. text_in x \<noteq> None) (named ''message'' kvs) \<and>
     list_all (\<lambda>x. text_in x \<noteq> None) (named ''event_id'' kvs)"

definition error_in :: "(string \<times> json) list \<Rightarrow> serverError" where
  "error_in kvs =
     \<lparr>se_Code = last (0 # map (\<lambda>x. the (int_of x)) (named ''code'' kvs)),
      se_Message = last ('''' # map (\<lambda>x. the (text_in x)) (named ''message'' kvs)),
      se_EventID = last ('''' # map (\<lambda>x. the (text_in x)) (named ''event_id'' kvs))\<rparr>"

lemma named_Cons:
  "named f ((k, x) # kvs) = (if fold_key k = f \<and> x \<noteq> JNull then x # named f kvs else named f kvs)"
  by (simp add: named_def)

lemma fold_key_lower:
  "list_all (\<lambda>c. code c < 128 \<and> lower c = c) s \<Longrightarrow> fold_key s = s"
proof (induction s)
  case (Cons c cs)
  have "utf8 8490 = char_of (226 :: nat) # [char_of (132 :: nat), char_of (170 :: nat)]"
    "utf8 383 = char_of (197 :: nat) # [char_of (191 :: nat)]" by (simp_all add: utf8_def)
  moreover have "c \<noteq> char_of (226 :: nat)" "c \<noteq> char_of (197 :: nat)" using Cons.prems by auto
  ultimately have "take 3 (c # cs) \<noteq> utf8 8490" "take 2 (c # cs) \<noteq> utf8 383" by (simp_all add: numeral_eq_Suc)
  then show ?case using Cons by simp
qed simp

lemma error_fields:
  "field_index [(''code'', TInt 64), (''message'', TString), (''event_id'', TString)] k =
     (if fold_key k = ''code'' then Some 0 else if fold_key k = ''message'' then Some 1
      else if fold_key k = ''event_id'' then Some 2 else None)"
proof -
  have f: "fold_key ''code'' = ''code''" "fold_key ''message'' = ''message''" "fold_key ''event_id'' = ''event_id''"
    by (rule fold_key_lower, simp add: lower_def)+
  have ix: "index_of P [a, b, c] = (if P a then Some 0 else if P b then Some 1 else if P c then Some 2 else None)"
    for P and a b c :: "string \<times> gotype" by (simp add: numeral_eq_Suc)
  show ?thesis
  proof (cases "k = ''code'' \<or> k = ''message'' \<or> k = ''event_id''")
    case True
    then show ?thesis by (elim disjE) (simp_all add: field_index_def ix f del: index_of.simps fold_key.simps)
  next
    case False
    then have "''code'' \<noteq> k" "''message'' \<noteq> k" "''event_id'' \<noteq> k" by auto
    then show ?thesis by (auto simp: field_index_def ix f simp del: index_of.simps fold_key.simps)
  qed
qed

lemma decode_int:
  shows "int_of x = Some i \<Longrightarrow> decode (TInt 64) v x = (VInt i, None)"
    and "int_of x = None \<Longrightarrow> x \<noteq> JNull \<Longrightarrow> \<exists>e. decode (TInt 64) v x = (v, Some e)"
    and "decode (TInt 64) v JNull = (v, None)"
proof -
  have num: "decode (TInt 64) v (JNum s) = store_scalar (TInt 64) v (JNum s)" for s
    by (simp add: decode.simps [of "TInt 64"])
  show "decode (TInt 64) v x = (VInt i, None)" if "int_of x = Some i"
    using that by (cases x) (auto simp: int_of_def num store_scalar_def split: prod.splits if_splits)
  show "\<exists>e. decode (TInt 64) v x = (v, Some e)" if "int_of x = None" "x \<noteq> JNull"
    using that by (cases x) (auto simp: int_of_def num decode.simps [of "TInt 64" v "JBool b" for b]
        decode.simps [of "TInt 64" v "JStr t" for t] decode.simps [of "TInt 64" v "JArr xs" for xs]
        decode.simps [of "TInt 64" v "JObj kvs" for kvs] store_scalar_def split: prod.splits if_splits)
  show "decode (TInt 64) v JNull = (v, None)" by (simp add: decode.simps [of "TInt 64"] store_null_def)
qed

lemma decode_text:
  shows "text_in x = Some s \<Longrightarrow> decode TString v x = (VStr s, None)"
    and "text_in x = None \<Longrightarrow> x \<noteq> JNull \<Longrightarrow> \<exists>e. decode TString v x = (v, Some e)"
    and "decode TString v JNull = (v, None)"
proof -
  show "decode TString v x = (VStr s, None)" if "text_in x = Some s"
    using that by (cases x) (simp_all add: text_in_def decode.simps [of TString] store_scalar_def)
  show "\<exists>e. decode TString v x = (v, Some e)" if "text_in x = None" "x \<noteq> JNull"
    using that by (cases x) (simp_all add: text_in_def decode.simps [of TString] store_scalar_def)
  show "decode TString v JNull = (v, None)" by (simp add: decode.simps [of TString] store_null_def)
qed

text \<open>Decoding an object member by member gives what the object says, or an error.\<close>

abbreviation "error_type \<equiv> [(''code'', TInt 64), (''message'', TString), (''event_id'', TString)]"

lemma decode_error_members:
  "(error_readable kvs \<longrightarrow>
      decode_members error_type [VInt c, VStr m, VStr e] kvs =
        ([VInt (last (c # map (\<lambda>x. the (int_of x)) (named ''code'' kvs))),
          VStr (last (m # map (\<lambda>x. the (text_in x)) (named ''message'' kvs))),
          VStr (last (e # map (\<lambda>x. the (text_in x)) (named ''event_id'' kvs)))], None)) \<and>
   (\<not> error_readable kvs \<longrightarrow> snd (decode_members error_type [VInt c, VStr m, VStr e] kvs) \<noteq> None)"
proof (induction kvs arbitrary: c m e)
  case Nil
  show ?case by (simp add: error_readable_def named_def)
next
  case (Cons kv kvs)
  obtain k x where kv: "kv = (k, x)" by (cases kv)
  note step = kv error_fields error_readable_def named_Cons decode_int decode_text
  consider (null) "x = JNull" | (code) "fold_key k = ''code''" "x \<noteq> JNull" | (message) "fold_key k = ''message''" "x \<noteq> JNull"
    | (event) "fold_key k = ''event_id''" "x \<noteq> JNull" | (other) "fold_key k \<notin> {''code'', ''message'', ''event_id''}"
    by auto
  then show ?case
  proof cases
    case null
    then show ?thesis using Cons [of c m e] by (auto simp: step split: prod.splits)
  next
    case code
    show ?thesis
    proof (cases "int_of x")
      case None
      then obtain err where "decode (TInt 64) (VInt c) x = (VInt c, Some err)" using decode_int(2) [OF None code(2)] by blast
      then show ?thesis using None code by (simp add: step first_error_def split: prod.split)
    next
      case (Some i)
      then show ?thesis using Cons [of i m e] code by (auto simp: step split: prod.splits)
    qed
  next
    case message
    show ?thesis
    proof (cases "text_in x")
      case None
      then obtain err where "decode TString (VStr m) x = (VStr m, Some err)" using decode_text(2) [OF None message(2)] by blast
      then show ?thesis using None message by (simp add: step first_error_def split: prod.split)
    next
      case (Some s)
      then show ?thesis using Cons [of c s e] message by (auto simp: step split: prod.splits)
    qed
  next
    case event
    show ?thesis
    proof (cases "text_in x")
      case None
      then obtain err where "decode TString (VStr e) x = (VStr e, Some err)" using decode_text(2) [OF None event(2)] by blast
      then show ?thesis using None event by (simp add: step first_error_def split: prod.split)
    next
      case (Some s)
      then show ?thesis using Cons [of c m s] event by (auto simp: step split: prod.splits)
    qed
  next
    case other
    then show ?thesis using Cons [of c m e] by (auto simp: step split: prod.splits)
  qed
qed


lemma parse_plain_read:
  "\<exists>je. parse_plain body =
     (case json_parse body of
        Some JNull \<Rightarrow> None
      | Some (JObj kvs) \<Rightarrow>
          if error_readable kvs
          then (if se_Code (error_in kvs) = 0 then None else Some (ServerErr (error_in kvs)))
          else Some (JsonError je)
      | _ \<Rightarrow> Some (JsonError je))"
proof -
  have z: "zero ServerError_t = VStruct [VInt 0, VStr '''', VStr '''']" by (simp add: ServerError_t_def)
  have null: "decode ServerError_t v JNull = (v, None)" for v
    by (subst decode.simps) (simp add: ServerError_t_def store_null_def)
  have obj: "decode ServerError_t (VStruct vs) (JObj kvs) =
      (case decode_members error_type vs kvs of (ws, e) \<Rightarrow> (VStruct ws, e))" for vs kvs
    by (subst decode.simps) (simp add: ServerError_t_def struct_fields_def)
  have other: "decode ServerError_t v j = (v, Some (mismatch j))" if "j \<noteq> JNull" "\<And>kvs. j \<noteq> JObj kvs" for v j
    using that by (subst decode.simps) (simp add: ServerError_t_def split: json.split)
  show ?thesis
  proof (cases "json_parse body")
    case None
    then show ?thesis by (simp add: parse_plain_def Unmarshal_def)
  next
    case (Some j)
    show ?thesis
    proof (cases "\<exists>kvs. j = JObj kvs")
      case True
      then obtain kvs where j: "j = JObj kvs" ..
      show ?thesis
      proof (cases "error_readable kvs")
        case True
        then show ?thesis using decode_error_members [of kvs 0 "''''" "''''"]
          by (simp add: parse_plain_def Unmarshal_def Some j z obj Let_def server_error_of_def struct_fields_def
              int_field_def str_field_def error_in_def serverSuccessCode_def)
      next
        case False
        then obtain ws je where "decode_members error_type [VInt 0, VStr '''', VStr ''''] kvs = (ws, Some je)"
          using decode_error_members [of kvs 0 "''''" "''''"] by (metis option.exhaust prod.collapse)
        then show ?thesis using False by (simp add: parse_plain_def Unmarshal_def Some j z obj)
      qed
    next
      case False
      then show ?thesis
        by (cases j) (simp_all add: parse_plain_def Unmarshal_def Some z null other Let_def server_error_of_def
            struct_fields_def int_field_def serverSuccessCode_def)
    qed
  qed
qed

lemma reply_types_ok:
  assumes "t = RegisterRsp_t \<or> t = HeartbeatRsp_t" "has_type t v" "clean v"
  shows "data_ok t v"
proof -
  have "t \<in> set reports" using assms(1) by (auto simp: reports_def)
  then show ?thesis using reports_plain [of t] assms by (auto simp: data_ok_def RegisterRsp_t_def HeartbeatRsp_t_def)
qed

end
