(* ===== verification/Monitor.thy ===== *)
theory Monitor
  imports GoChan GoJson
begin

text \<open>
  utils/helper.go: the choice of a capture device among the interfaces of the machine, the monitor that
  adds up the packets of one port, and the reading of a configuration file. The interfaces, what libpcap
  answers, the content of files and the third-party YAML and humanize packages are arguments.
\<close>

section \<open>Reading a file\<close>

text \<open>An error carries its message; \<open>JsonErr\<close> is the one of \<open>encoding/json\<close>.\<close>

datatype file_error = OpenErr string | JsonErr json_error | YamlErr string | ExtErr string

text \<open>
  \<open>files\<close> gives the content of a path or the error of opening or reading it; \<open>yaml\<close> is
  \<open>yaml.Unmarshal\<close>. The variable is returned with the error, as it may be partly filled.
\<close>

definition GetFileContent :: "(string \<Rightarrow> string + string) \<Rightarrow> string \<Rightarrow> string + string" where
  "GetFileContent files filePath = files filePath"

definition UnmarshalConfigFromFile ::
  "(string \<Rightarrow> string + string) \<Rightarrow> (gotype \<Rightarrow> string \<Rightarrow> goval \<Rightarrow> goval \<times> string option) \<Rightarrow>
   string \<Rightarrow> gotype \<Rightarrow> goval \<Rightarrow> goval \<times> file_error option" where
  "UnmarshalConfigFromFile files yaml filePath t config =
     (case GetFileContent files filePath of
        Inl err \<Rightarrow> (config, Some (OpenErr err))
      | Inr data \<Rightarrow>
          if HasSuffix filePath ''.json''
          then (case Unmarshal t data config of (v, e) \<Rightarrow> (v, map_option JsonErr e))
          else if HasSuffix filePath ''.yml'' \<or> HasSuffix filePath ''.yaml''
          then (case yaml t data config of (v, e) \<Rightarrow> (v, map_option YamlErr e))
          else (config, Some (ExtErr (''unknown extension of file: '' @ filePath))))"

text \<open>\<open>humanize.Bytes\<close> is the argument; a negative count becomes its residue modulo \<open>2 ^ 64\<close>.\<close>

definition HumanBytes :: "(nat \<Rightarrow> string) \<Rightarrow> int \<Rightarrow> string" where
  "HumanBytes bytes n = bytes (nat (n mod 2 ^ 64))"

section \<open>The default device\<close>

text \<open>An address of an interface: a network with the bytes of its IP, or something else.\<close>

datatype if_addr = IPNet "nat list" | OtherAddr

text \<open>\<open>if_addrs\<close> is \<open>None\<close> when the addresses cannot be listed.\<close>

record net_iface =
  if_name :: string
  if_flags :: nat
  if_addrs :: "if_addr list option"

definition FlagUp :: nat where "FlagUp = 1"

definition flag_set :: "nat \<Rightarrow> nat \<Rightarrow> bool" where
  "flag_set flags f \<longleftrightarrow> flags div f mod 2 = 1"

definition To4 :: "nat list \<Rightarrow> nat list option" where
  "To4 ip =
     (if length ip = 4 then Some ip
      else if length ip = 16 \<and> take 12 ip = replicate 10 0 @ [255, 255] then Some (drop 12 ip)
      else None)"

definition To16 :: "nat list \<Rightarrow> nat list option" where
  "To16 ip =
     (if length ip = 4 then Some (replicate 10 0 @ [255, 255] @ ip)
      else if length ip = 16 then Some ip
      else None)"

definition IsLoopback :: "nat list \<Rightarrow> bool" where
  "IsLoopback ip =
     (case To4 ip of
        Some ip4 \<Rightarrow> ip4 ! 0 = 127
      | None \<Rightarrow> ip = replicate 15 0 @ [1])"

text \<open>The two loops: over the addresses of an interface (does one of them do?), and over the interfaces.\<close>

fun addrs_loop :: "if_addr list \<Rightarrow> bool" where
  "addrs_loop [] = False"
| "addrs_loop (a # as) =
     (case a of
        OtherAddr \<Rightarrow> addrs_loop as
      | IPNet ip \<Rightarrow>
          if IsLoopback ip then addrs_loop as
          else if To4 ip \<noteq> None \<or> To16 ip \<noteq> None then True
          else addrs_loop as)"

datatype device_error = InterfacesErr string | NoDevice

fun ifaces_loop :: "net_iface list \<Rightarrow> device_error + string" where
  "ifaces_loop [] = Inl NoDevice"
| "ifaces_loop (i # ifs) =
     (if \<not> flag_set (if_flags i) FlagUp then ifaces_loop ifs
      else (case if_addrs i of
              None \<Rightarrow> ifaces_loop ifs
            | Some addrs \<Rightarrow> if addrs_loop addrs then Inr (if_name i) else ifaces_loop ifs))"

definition GetDefaultDevice :: "string + net_iface list \<Rightarrow> device_error + string" where
  "GetDefaultDevice interfaces =
     (case interfaces of
        Inl err \<Rightarrow> Inl (InterfacesErr err)
      | Inr ifs \<Rightarrow> ifaces_loop ifs)"

text \<open>What the code looks for.\<close>

definition routable :: "nat list \<Rightarrow> bool" where
  "routable ip \<longleftrightarrow> (length ip = 4 \<or> length ip = 16) \<and> \<not> IsLoopback ip"

definition usable :: "net_iface \<Rightarrow> bool" where
  "usable i \<longleftrightarrow> odd (if_flags i) \<and> (\<exists>addrs ip. if_addrs i = Some addrs \<and> IPNet ip \<in> set addrs \<and> routable ip)"

lemma addrs_loop_iff: "addrs_loop as \<longleftrightarrow> (\<exists>ip. IPNet ip \<in> set as \<and> routable ip)"
proof (induction "as")
  case (Cons a as)
  then show ?case by (cases a) (auto simp: routable_def To4_def To16_def)
qed simp

lemma flag_up_odd: "flag_set f FlagUp \<longleftrightarrow> odd f"
  by (simp add: flag_set_def FlagUp_def odd_iff_mod_2_eq_one)

lemma ifaces_loop_find:
  "ifaces_loop ifs = (case find usable ifs of Some i \<Rightarrow> Inr (if_name i) | None \<Rightarrow> Inl NoDevice)"
proof (induction ifs)
  case (Cons i ifs)
  then show ?case by (auto simp: flag_up_odd usable_def addrs_loop_iff split: option.splits)
qed simp

section \<open>The traffic monitor\<close>

text \<open>A captured packet: its layers as far as the monitor asks, and the bytes of the frame.\<close>

record frame =
  fr_network :: bool
  fr_transport :: bool
  fr_len :: nat

record pcap_handle =
  h_filter :: string
  h_open :: bool

record trafficMonitor =
  tm_device :: string
  tm_port :: string
  tm_handle :: pcap_handle
  packetChan :: "frame chan"
  TotalTxBytes :: int

datatype monitor_error = SelectErr device_error | DeviceErr string | FilterErr string

text \<open>\<open>open_live\<close> and \<open>bpf_error\<close> are the errors of opening a device and of setting a filter, if any.\<close>

definition port_filter :: "string \<Rightarrow> string" where
  "port_filter port = ''tcp and port '' @ port"

definition NewTrafficMonitor ::
  "(string + net_iface list) \<Rightarrow> (string \<Rightarrow> string option) \<Rightarrow> (string \<Rightarrow> string option) \<Rightarrow>
   string \<Rightarrow> string \<Rightarrow> monitor_error + trafficMonitor" where
  "NewTrafficMonitor interfaces open_live bpf_error device port =
     (case (if device = '''' then GetDefaultDevice interfaces else Inr device) of
        Inl err \<Rightarrow> Inl (SelectErr err)
      | Inr device \<Rightarrow>
          (case open_live device of
             Some err \<Rightarrow> Inl (DeviceErr err)
           | None \<Rightarrow>
               (case bpf_error (port_filter port) of
                  Some err \<Rightarrow> Inl (FilterErr err)
                | None \<Rightarrow>
                    Inr \<lparr>tm_device = device, tm_port = port,
                      tm_handle = \<lparr>h_filter = port_filter port, h_open = True\<rparr>,
                      packetChan = make_chan 100, TotalTxBytes = 0\<rparr>)))"

text \<open>
  One turn of the goroutine that forwards captured packets; it waits while the channel is full. The
  packet source decides when it ends: what it has read before the handle was closed may still come.
\<close>

definition forward_packet :: "frame \<Rightarrow> trafficMonitor \<Rightarrow> trafficMonitor option" where
  "forward_packet p tm =
     (if chan_room (packetChan tm) then Some (tm\<lparr>packetChan := chan_send p (packetChan tm)\<rparr>) else None)"

definition count_packet :: "frame \<Rightarrow> trafficMonitor \<Rightarrow> trafficMonitor" where
  "count_packet p tm =
     (if fr_network p \<and> fr_transport p
      then tm\<lparr>TotalTxBytes := wrap64 (TotalTxBytes tm + int (fr_len p))\<rparr> else tm)"

text \<open>One turn of \<open>processPackets\<close>; it waits while the channel is empty, which is never closed.\<close>

definition process_packet :: "trafficMonitor \<Rightarrow> trafficMonitor option" where
  "process_packet tm =
     (case chan_recv (packetChan tm) of
        None \<Rightarrow> None
      | Some (p, ch) \<Rightarrow> Some (count_packet p (tm\<lparr>packetChan := ch\<rparr>)))"

text \<open>\<open>processPackets\<close> up to the point where it waits.\<close>

lemma process_packet_less:
  "process_packet tm = Some tm' \<Longrightarrow> length (chan_buf (packetChan tm')) < length (chan_buf (packetChan tm))"
  by (auto simp: process_packet_def count_packet_def chan_recv_def split: list.splits if_splits)

function processPackets :: "trafficMonitor \<Rightarrow> trafficMonitor" where
  "processPackets tm = (case process_packet tm of None \<Rightarrow> tm | Some tm' \<Rightarrow> processPackets tm')"
  by pat_completeness auto

termination
  by (relation "measure (\<lambda>tm. length (chan_buf (packetChan tm)))") (auto dest: process_packet_less)

declare processPackets.simps [simp del]

definition GetUploadTraffic :: "trafficMonitor \<Rightarrow> int \<times> trafficMonitor" where
  "GetUploadTraffic tm = (TotalTxBytes tm, tm\<lparr>TotalTxBytes := 0\<rparr>)"

definition Monitor_Close :: "trafficMonitor \<Rightarrow> trafficMonitor" where
  "Monitor_Close tm = tm\<lparr>tm_handle := (tm_handle tm)\<lparr>h_open := False\<rparr>\<rparr>"

section \<open>Accounting\<close>

text \<open>
  The goroutines and the caller of a monitor, interleaved: a packet forwarded, a packet counted, a
  reading, the closing of the handle. A step that has to wait does not occur. The readings are listed.
\<close>

datatype monitor_op = Forward frame | Count | Reading | CloseOp

fun monitor_step :: "monitor_op \<Rightarrow> trafficMonitor \<Rightarrow> (int list \<times> trafficMonitor) option" where
  "monitor_step (Forward p) tm = map_option (Pair []) (forward_packet p tm)"
| "monitor_step Count tm = map_option (Pair []) (process_packet tm)"
| "monitor_step Reading tm = (case GetUploadTraffic tm of (n, tm') \<Rightarrow> Some ([n], tm'))"
| "monitor_step CloseOp tm = Some ([], Monitor_Close tm)"

fun monitor_run :: "monitor_op list \<Rightarrow> trafficMonitor \<Rightarrow> (int list \<times> trafficMonitor) option" where
  "monitor_run [] tm = Some ([], tm)"
| "monitor_run (op # ops) tm =
     (case monitor_step op tm of
        None \<Rightarrow> None
      | Some (ns, tm') \<Rightarrow> map_option (\<lambda>(ms, tm''). (ns @ ms, tm'')) (monitor_run ops tm'))"

definition counted :: "frame \<Rightarrow> int" where
  "counted p = (if fr_network p \<and> fr_transport p then int (fr_len p) else 0)"

fun forwarded :: "monitor_op list \<Rightarrow> frame list" where
  "forwarded [] = []"
| "forwarded (Forward p # ops) = p # forwarded ops"
| "forwarded (_ # ops) = forwarded ops"

definition queued :: "trafficMonitor \<Rightarrow> int" where
  "queued tm = sum_list (map counted (chan_buf (packetChan tm)))"

lemma count_packet_total [simp]:
  "TotalTxBytes (count_packet p tm) = (if fr_network p \<and> fr_transport p then wrap64 (TotalTxBytes tm + int (fr_len p)) else TotalTxBytes tm)"
  "packetChan (count_packet p tm) = packetChan tm"
  by (simp_all add: count_packet_def)

lemma wrap64_of_int64 [simp]: "in_int64 x \<Longrightarrow> wrap64 x = x"
  by (rule wrap64_id)

text \<open>Every step keeps what was read plus what is held, up to the wrap-around.\<close>

lemma monitor_step_conserves:
  assumes "monitor_step op tm = Some (ns, tm')"
  shows "wrap64 (sum_list ns + TotalTxBytes tm' + queued tm')
     = wrap64 (TotalTxBytes tm + queued tm + sum_list (map counted (forwarded [op])))"
proof (cases op)
  case (Forward p)
  then show ?thesis
    using assms by (auto simp: forward_packet_def queued_def chan_send_def algebra_simps split: if_splits)
next
  case Count
  then obtain p xs where b: "chan_buf (packetChan tm) = p # xs"
    and tm': "tm' = count_packet p (tm\<lparr>packetChan := (packetChan tm)\<lparr>chan_buf := xs\<rparr>\<rparr>)" "ns = []"
    using assms by (auto simp: process_packet_def chan_recv_def split: list.splits)
  have "queued tm = counted p + queued tm'" by (simp add: queued_def b tm')
  moreover have "wrap64 (TotalTxBytes tm' + queued tm') = wrap64 (TotalTxBytes tm + counted p + queued tm')"
    by (auto simp: tm' counted_def)
  ultimately show ?thesis by (simp add: Count tm'(2) algebra_simps)
next
  case Reading
  then show ?thesis using assms by (auto simp: GetUploadTraffic_def queued_def)
next
  case CloseOp
  then show ?thesis using assms by (auto simp: Monitor_Close_def queued_def)
qed

lemma forwarded_Cons: "forwarded (op # ops) = forwarded [op] @ forwarded ops"
  by (cases op) auto

lemma monitor_run_conserves:
  "monitor_run ops tm = Some (ns, tm') \<Longrightarrow>
     wrap64 (sum_list ns + TotalTxBytes tm' + queued tm')
       = wrap64 (TotalTxBytes tm + queued tm + sum_list (map counted (forwarded ops)))"
proof (induction ops arbitrary: tm ns)
  case (Cons op ops)
  then obtain as tm1 bs where s: "monitor_step op tm = Some (as, tm1)" "monitor_run ops tm1 = Some (bs, tm')" "ns = as @ bs"
    by (auto split: option.splits)
  define x where "x = sum_list bs + TotalTxBytes tm' + queued tm'"
  define y where "y = TotalTxBytes tm1 + queued tm1"
  define c where "c = sum_list (map counted (forwarded ops))"
  have "wrap64 (sum_list as + x) = wrap64 (sum_list as + wrap64 (y + c))"
    using Cons.IH [OF s(2)] by (metis c_def wrap64_add_right x_def y_def)
  also have "\<dots> = wrap64 (wrap64 (sum_list as + y) + c)" by (simp add: algebra_simps)
  also have "\<dots> = wrap64 (TotalTxBytes tm + queued tm + sum_list (map counted (forwarded [op])) + c)"
    using monitor_step_conserves [OF s(1)] by (simp add: y_def add.assoc)
  finally show ?case
    by (subst forwarded_Cons) (simp add: s(3) x_def c_def add.assoc)
qed simp

text \<open>Draining ends with an empty channel and all of it counted.\<close>

lemma processPackets_drains:
  "chan_buf (packetChan (processPackets tm)) = [] \<and>
   wrap64 (TotalTxBytes (processPackets tm)) = wrap64 (TotalTxBytes tm + queued tm)"
proof (induction tm rule: processPackets.induct)
  case (1 tm)
  show ?case
  proof (cases "process_packet tm")
    case None
    then have "chan_buf (packetChan tm) = []" by (auto simp: process_packet_def chan_recv_def split: list.splits)
    then show ?thesis using None by (simp add: processPackets.simps [of tm] queued_def)
  next
    case (Some tm')
    have "wrap64 (TotalTxBytes tm' + queued tm') = wrap64 (TotalTxBytes tm + queued tm)"
      using monitor_step_conserves [of Count tm "[]" tm'] Some by simp
    then show ?thesis using 1 [OF Some] Some by (simp add: processPackets.simps [of tm])
  qed
qed

text \<open>It takes one turn per waiting packet.\<close>

lemma processPackets_turns:
  "monitor_run (replicate (length (chan_buf (packetChan tm))) Count) tm = Some ([], processPackets tm) \<and>
   tm_handle (processPackets tm) = tm_handle tm"
proof (induction tm rule: processPackets.induct)
  case (1 tm)
  show ?case
  proof (cases "process_packet tm")
    case None
    then have "chan_buf (packetChan tm) = []" by (auto simp: process_packet_def chan_recv_def split: list.splits)
    then show ?thesis using None by (simp add: processPackets.simps [of tm])
  next
    case (Some tm')
    then have "length (chan_buf (packetChan tm)) = Suc (length (chan_buf (packetChan tm')))" "tm_handle tm' = tm_handle tm"
      by (auto simp: process_packet_def count_packet_def chan_recv_def split: list.splits if_splits)
    then show ?thesis using 1 [OF Some] Some by (simp add: processPackets.simps [of tm])
  qed
qed

text \<open>The channel keeps its bound.\<close>

lemma monitor_step_chan:
  "monitor_step op tm = Some (ns, tm') \<Longrightarrow> chan_ok (packetChan tm) \<Longrightarrow>
     chan_ok (packetChan tm') \<and> chan_cap (packetChan tm') = chan_cap (packetChan tm)"
  by (cases op)
    (auto simp: forward_packet_def process_packet_def GetUploadTraffic_def Monitor_Close_def chan_ok_def chan_room_def
      chan_send_def chan_recv_def split: if_splits list.splits)

lemma monitor_run_chan:
  "monitor_run ops tm = Some (ns, tm') \<Longrightarrow> chan_ok (packetChan tm) \<Longrightarrow>
     chan_ok (packetChan tm') \<and> chan_cap (packetChan tm') = chan_cap (packetChan tm)"
proof (induction ops arbitrary: tm ns)
  case (Cons op ops)
  then obtain as tm1 bs where s: "monitor_step op tm = Some (as, tm1)" "monitor_run ops tm1 = Some (bs, tm')"
    by (auto split: option.splits)
  show ?case using monitor_step_chan [OF s(1) Cons.prems(2)] Cons.IH [OF s(2)] by simp
qed simp

end
