(* ===== verification/Config.thy ===== *)
theory Config
  imports Monitor
begin

text \<open>
  config/config.go and the start of cmd/main.go: the configuration struct with its JSON names, reading
  and checking it, and the flags that overwrite two of its fields. A \<open>panic\<close> is \<open>Panic\<close>.
\<close>

section \<open>The structs\<close>

record logConfig =
  Level :: string
  Filepath :: string

record agentConfig =
  RootDir :: string
  ServerEndpoint :: string
  DeviceId :: string
  BizType :: string
  AppKey :: string
  AppSecret :: string

record pppoeConfig =
  PingAddr :: string
  FrpsAddr :: string
  FrpcRoot :: string

record monitorConfig =
  CollectdRddPath :: string
  ReportInterval :: int
  ReportBucket :: int

record config =
  Log :: logConfig
  Agent :: agentConfig
  Pppoe :: pppoeConfig
  MonitorConfig :: monitorConfig
  MockedServerConfPath :: string
  DeviceIdPath :: string
  Nethogs :: string
  Filter :: string

text \<open>Their types and values as the decoder sees them.\<close>

definition LogConfig_t :: gotype where
  "LogConfig_t = TStruct [(''level'', TString), (''filePath'', TString)]"

definition AgentConfig_t :: gotype where
  "AgentConfig_t =
     TStruct [(''rootDir'', TString), (''serverEndpoint'', TString), (''deviceId'', TString),
       (''bizType'', TString), (''appKey'', TString), (''appSecret'', TString)]"

definition PppoeConfig_t :: gotype where
  "PppoeConfig_t = TStruct [(''pingAddr'', TString), (''frpsAddr'', TString), (''frpcroot'', TString)]"

definition MonitorConfig_t :: gotype where
  "MonitorConfig_t = TStruct [(''collectdRddPath'', TString), (''reportInterval'', TInt 64), (''reportBucket'', TInt 64)]"

definition Config_t :: gotype where
  "Config_t =
     TStruct [(''log'', LogConfig_t), (''agent'', AgentConfig_t), (''pppoe'', PppoeConfig_t),
       (''monitor'', MonitorConfig_t), (''mockedServerConfPath'', TString), (''deviceIdPath'', TString),
       (''nethogs'', TString), (''filter'', TString)]"

definition config_value :: "config \<Rightarrow> goval" where
  "config_value c =
     VStruct
       [VStruct [VStr (Level (Log c)), VStr (Filepath (Log c))],
        VStruct [VStr (RootDir (Agent c)), VStr (ServerEndpoint (Agent c)), VStr (DeviceId (Agent c)),
          VStr (BizType (Agent c)), VStr (AppKey (Agent c)), VStr (AppSecret (Agent c))],
        VStruct [VStr (PingAddr (Pppoe c)), VStr (FrpsAddr (Pppoe c)), VStr (FrpcRoot (Pppoe c))],
        VStruct [VStr (CollectdRddPath (MonitorConfig c)), VInt (ReportInterval (MonitorConfig c)),
          VInt (ReportBucket (MonitorConfig c))],
        VStr (MockedServerConfPath c), VStr (DeviceIdPath c), VStr (Nethogs c), VStr (Filter c)]"

definition field :: "goval \<Rightarrow> nat \<Rightarrow> goval" where
  "field v i = struct_fields v ! i"

definition text_of :: "goval \<Rightarrow> string" where
  "text_of v = (case v of VStr s \<Rightarrow> s | _ \<Rightarrow> '''')"

definition number_of :: "goval \<Rightarrow> int" where
  "number_of v = (case v of VInt i \<Rightarrow> i | _ \<Rightarrow> 0)"

definition config_of :: "goval \<Rightarrow> config" where
  "config_of v =
     (let l = field v 0; a = field v 1; p = field v 2; m = field v 3 in
      \<lparr>Log = \<lparr>Level = text_of (field l 0), Filepath = text_of (field l 1)\<rparr>,
       Agent = \<lparr>RootDir = text_of (field a 0), ServerEndpoint = text_of (field a 1),
         DeviceId = text_of (field a 2), BizType = text_of (field a 3), AppKey = text_of (field a 4),
         AppSecret = text_of (field a 5)\<rparr>,
       Pppoe = \<lparr>PingAddr = text_of (field p 0), FrpsAddr = text_of (field p 1), FrpcRoot = text_of (field p 2)\<rparr>,
       MonitorConfig = \<lparr>CollectdRddPath = text_of (field m 0), ReportInterval = number_of (field m 1),
         ReportBucket = number_of (field m 2)\<rparr>,
       MockedServerConfPath = text_of (field v 4), DeviceIdPath = text_of (field v 5),
       Nethogs = text_of (field v 6), Filter = text_of (field v 7)\<rparr>)"

lemma config_of_value [simp]: "config_of (config_value c) = c"
  by (simp add: config_of_def config_value_def field_def struct_fields_def text_of_def number_of_def Let_def)

section \<open>Reading it\<close>

type_synonym file_system = "string \<Rightarrow> string + string"
type_synonym yaml_decoder = "gotype \<Rightarrow> string \<Rightarrow> goval \<Rightarrow> goval \<times> string option"

definition GetConfig :: "file_system \<Rightarrow> yaml_decoder \<Rightarrow> string \<Rightarrow> config go" where
  "GetConfig files yaml filePath =
     (case UnmarshalConfigFromFile files yaml filePath Config_t (zero Config_t) of
        (_, Some err) \<Rightarrow> Panic
      | (v, None) \<Rightarrow>
          let config = config_of v in
          if ServerEndpoint (Agent config) = '''' then Panic
          else if DeviceIdPath config = '''' then Panic
          else Ret config)"

text \<open>The flags of the command, and what \<open>main\<close> passes on to \<open>core.Start\<close>.\<close>

record flags =
  flag_pname :: string
  flag_filter :: string
  flag_config :: string

definition default_flags :: flags where
  "default_flags = \<lparr>flag_pname = '''', flag_filter = '''', flag_config = ''/usr/local/super-agent/config.yaml''\<rparr>"

definition main_config :: "file_system \<Rightarrow> yaml_decoder \<Rightarrow> flags \<Rightarrow> config go" where
  "main_config files yaml fl =
     go_bind (GetConfig files yaml (flag_config fl)) (\<lambda>c.
       let c = c\<lparr>Nethogs := flag_pname fl, Filter := flag_filter fl\<rparr> in
       if flag_config fl = '''' then Panic else Ret c)"

section \<open>What it accepts\<close>

definition config_clean :: "config \<Rightarrow> bool" where
  "config_clean c \<longleftrightarrow>
     clean (config_value c) \<and> in_int64 (ReportInterval (MonitorConfig c)) \<and> in_int64 (ReportBucket (MonitorConfig c))"

lemmas config_types = Config_t_def LogConfig_t_def AgentConfig_t_def PppoeConfig_t_def MonitorConfig_t_def

lemma config_type_ok: "plain_type Config_t" "names_ok Config_t" "type_depth Config_t \<le> maxNestingDepth"
  by (simp_all add: config_types maxNestingDepth_def ascii_utf8 del: valid_utf8.simps(2))

lemma config_read_back:
  assumes "config_clean c"
  shows "Unmarshal Config_t (Marshal Config_t (config_value c)) (zero Config_t) = (config_value c, None)"
proof (rule Unmarshal_Marshal [OF _ config_type_ok])
  show "has_type Config_t (config_value c)" "clean (config_value c)"
    using assms by (simp_all add: config_types config_value_def config_clean_def)
qed

definition read_config :: "string \<Rightarrow> config option" where
  "read_config s =
     (case Unmarshal Config_t s (zero Config_t) of (v, None) \<Rightarrow> Some (config_of v) | _ \<Rightarrow> None)"

interpretation config_codec: codec config_clean "\<lambda>c. Marshal Config_t (config_value c)" read_config
  by unfold_locales (simp add: read_config_def config_read_back)

lemma GetConfig_json:
  "HasSuffix path ''.json'' \<Longrightarrow> files path = Inr s \<Longrightarrow>
     GetConfig files yaml path =
       (case read_config s of
          None \<Rightarrow> Panic
        | Some c \<Rightarrow> if ServerEndpoint (Agent c) = '''' \<or> DeviceIdPath c = '''' then Panic else Ret c)"
  by (simp add: GetConfig_def UnmarshalConfigFromFile_def GetFileContent_def read_config_def Let_def
      split: prod.split option.split)

lemma GetConfig_Ret_iff:
  "GetConfig files yaml path = Ret c \<longleftrightarrow>
     (\<exists>v. UnmarshalConfigFromFile files yaml path Config_t (zero Config_t) = (v, None) \<and> c = config_of v \<and>
        ServerEndpoint (Agent c) \<noteq> '''' \<and> DeviceIdPath c \<noteq> '''')"
  by (auto simp: GetConfig_def Let_def split: prod.splits option.splits if_splits)

text \<open>An empty path has no known extension, so the check for it after the reading never fires.\<close>

lemma GetConfig_empty_path: "GetConfig files yaml '''' = Panic"
  by (auto simp: GetConfig_def UnmarshalConfigFromFile_def HasSuffix_def split: sum.split)

end
