(* ===== verification/Report.thy ===== *)
theory Report
  imports RpcClient Config Netflow
begin

text \<open>
  core/blocking.go, the program around the library: how the sniffer is configured from the
  configuration, the table of the busiest process, and the report of its rates to the server once a
  minute. \<open>presenter\<close> holds the third-party formatting functions; \<open>net\<close> is the network; \<open>t\<close> and \<open>now\<close>
  are the clock readings of a report.
\<close>

section \<open>Rates\<close>

text \<open>\<open>constants.Thold\<close>.\<close>

definition Thold :: int where "Thold = 1024 * 1024"

record presenter =
  humanize_Bytes :: "nat \<Rightarrow> string"
  cast_ToString :: "int \<Rightarrow> string"
  color_Red :: "string \<Rightarrow> string"

definition float64_of_int :: "int \<Rightarrow> rat" where
  "float64_of_int i = rnd (of_int i)"

definition rate_text :: "presenter \<Rightarrow> int \<Rightarrow> string" where
  "rate_text pr rate =
     (let s = format_fixed 2 (fdiv (fdiv (float64_of_int (wrap64 (rate * 8))) 1000) 1000) @ '' Mbit/s''
      in if Thold < rate then color_Red pr s else s)"

definition formatRates :: "presenter \<Rightarrow> int \<Rightarrow> int \<Rightarrow> string \<times> string" where
  "formatRates pr inRate outRate = (rate_text pr inRate, rate_text pr outRate)"

definition ConvertToMB :: "int \<Rightarrow> rat" where
  "ConvertToMB bytes = reparse_fixed 4 (fdiv (fdiv (fmul (float64_of_int bytes) 8) 1000) 1000)"

section \<open>The report\<close>

definition adjustedTime :: "int \<Rightarrow> int" where
  "adjustedTime timestamp = wrap64 (quot64 timestamp 60 * 60)"

definition report_info :: "int \<Rightarrow> int \<Rightarrow> int \<Rightarrow> monitorInfo" where
  "report_info t inb outb =
     \<lparr>CPUUsage = 0, DiskUsage = 0, DownBandwidth = ConvertToMB inb, MemUsage = 0,
      mi_Timestamp = adjustedTime t, UpBandwidth = ConvertToMB outb\<rparr>"

definition report_provider :: "config \<Rightarrow> urlProvider" where
  "report_provider c =
     \<lparr>up_ServerEndpoint = ServerEndpoint (Agent c),
      CommonHeaders = \<lparr>ImageVersion = '''', ch_DeviceId = DeviceId (Agent c), ch_BizType = BizType (Agent c),
        Ak = AppKey (Agent c), As = AppSecret (Agent c), Auth = None\<rparr>\<rparr>"

definition reportHandler :: "transport \<Rightarrow> int \<Rightarrow> int \<Rightarrow> config \<Rightarrow> int \<Rightarrow> int \<Rightarrow> rpc_error option" where
  "reportHandler net t now c inb outb =
     ReportMonitorInfo net now (report_provider c) [report_info t inb outb]"

section \<open>The table\<close>

text \<open>A nil \<open>TrafficStats\<close> panics. The sums wrap.\<close>

definition table_row :: "presenter \<Rightarrow> process \<Rightarrow> trafficStatsEntry \<Rightarrow> string list" where
  "table_row pr po st =
     (case formatRates pr (st_InRate st) (st_OutRate st) of
        (inRate, outRate) \<Rightarrow>
          [Pid po, Name po, Exe po, cast_ToString pr (InodeCount po),
           HumanBytes (humanize_Bytes pr) (wrap64 (st_In st * 8)),
           HumanBytes (humanize_Bytes pr) (wrap64 (st_Out st * 8)), inRate, outRate])"

fun table_loop :: "presenter \<Rightarrow> process list \<Rightarrow> string list list \<times> int \<times> int \<Rightarrow> (string list list \<times> int \<times> int) go" where
  "table_loop pr [] acc = Ret acc"
| "table_loop pr (po # ps) (items, inb, outb) =
     (case TrafficStats po of
        None \<Rightarrow> Panic
      | Some st \<Rightarrow>
          table_loop pr ps (items @ [table_row pr po st], wrap64 (inb + st_InRate st), wrap64 (outb + st_OutRate st)))"

text \<open>The rows shown and the result of the report.\<close>

definition showTable ::
  "presenter \<Rightarrow> transport \<Rightarrow> int \<Rightarrow> int \<Rightarrow> config \<Rightarrow> process list \<Rightarrow> (string list list \<times> rpc_error option) go" where
  "showTable pr net t now c ps =
     go_bind (table_loop pr ps ([], 0, 0)) (\<lambda>(items, inb, outb).
       Ret (items, reportHandler net t now c inb outb))"

text \<open>The processes behind the pointers of a ranking.\<close>

fun read_all :: "store \<Rightarrow> addr list \<Rightarrow> process list go" where
  "read_all h [] = Ret []"
| "read_all h (a # as) =
     (case cells h a of
        None \<Rightarrow> Panic
      | Some p \<Rightarrow> go_bind (read_all h as) (\<lambda>ps. Ret (p # ps)))"

text \<open>
  One turn of \<open>processRanking\<close> after a tick: nothing is shown when the ranking fails. \<open>limit\<close> and
  \<open>recentSeconds\<close> are what the code passes.
\<close>

definition recentRankLimit :: int where "recentRankLimit = 1"

definition processRanking_tick ::
  "presenter \<Rightarrow> transport \<Rightarrow> ((string, addr) gomap \<Rightarrow> (string, addr) gomap) \<Rightarrow> (string \<Rightarrow> time) \<Rightarrow>
   int \<Rightarrow> int \<Rightarrow> config \<Rightarrow> processController \<times> store \<Rightarrow>
   ((string list list \<times> rpc_error option) option \<times> processController \<times> store) go" where
  "processRanking_tick pr net ord clk t now c s =
     go_bind (GetProcessRank ord clk recentRankLimit 5 s) (\<lambda>(r, s').
       (case r of
          Inl err \<Rightarrow> Ret (None, s')
        | Inr ps \<Rightarrow>
            go_bind (read_all (snd s') ps) (\<lambda>procs.
            go_bind (showTable pr net t now c procs) (\<lambda>res. Ret (Some res, s')))))"

section \<open>Starting the sniffer\<close>

definition capture_filter :: "config \<Rightarrow> string" where
  "capture_filter c = (if Filter c \<noteq> '''' then ''tcp and port '' @ Filter c @ '' '' else '''')"

definition start_options :: "config \<Rightarrow> optionFunc list" where
  "start_options c =
     [WithName (Nethogs c), WithCaptureTimeout (12 * 30 * 24 * 60 * minute), WithPcapFilter (capture_filter c),
      WithQueueSize 20000]"

text \<open>\<open>log.Fatalf\<close> ends the process at once: what follows it, \<open>nf.Stop()\<close> included, does not run.\<close>

datatype start_outcome = Fatal string go_error | Serving netflow

definition core_Start ::
  "device list option \<Rightarrow> go_error option \<Rightarrow> go_error option \<Rightarrow> config \<Rightarrow> start_outcome" where
  "core_Start devices create_err cgroup_err c =
     (case New devices (start_options c) of
        Inl err \<Rightarrow> Fatal ''Failed to create netflow instance'' err
      | Inr nf \<Rightarrow>
          (case Start create_err cgroup_err nf of
             (Some err, nf) \<Rightarrow> Fatal ''Failed to core netflow instance'' err
           | (None, nf) \<Rightarrow> Serving nf))"

section \<open>Accuracy of the conversion\<close>

lemma float64_of_int_exact: "\<bar>b\<bar> < 2 ^ 53 \<Longrightarrow> float64_of_int b = of_int b"
  by (simp add: float64_of_int_def rnd_int)

lemma times8_exact: "\<bar>b\<bar> < 2 ^ 53 \<Longrightarrow> fmul (of_int b) 8 = of_int b * 8"
  using rnd_exact [of b 3] by (simp add: fmul_def power_int_def)

lemma not_tiny: "(b :: int) \<noteq> 0 \<Longrightarrow> 1 \<le> \<bar>of_int b :: rat\<bar>"
  by (simp flip: of_int_abs)

lemma fdiv_error:
  assumes "x = 0 \<or> 1 / 10 ^ 20 \<le> \<bar>x\<bar>"
  shows "\<bar>fdiv x 1000 - x / 1000\<bar> \<le> \<bar>x\<bar> / 1000 / 2 ^ 53"
proof -
  have "2 powi (- 1022) \<le> (1 / 10 ^ 20 / 1000 :: rat)" by (simp add: power_int_minus)
  moreover have "1 / 10 ^ 20 / 1000 \<le> \<bar>x / 1000\<bar>" if "x \<noteq> 0"
    using assms that by (simp add: abs_divide)
  ultimately have "\<bar>rnd (x / 1000) - x / 1000\<bar> \<le> \<bar>x / 1000\<bar> / 2 ^ 53"
    by (intro rnd_rel_error) force
  then show ?thesis by (simp add: fdiv_def abs_divide)
qed

lemma ConvertToMB_error:
  assumes "\<bar>b\<bar> < 2 ^ 53"
  shows "\<bar>ConvertToMB b - 8 * of_int b / 10 ^ 6\<bar> < 1 / 10 ^ 4"
proof (cases "b = 0")
  case True
  then show ?thesis by (simp add: ConvertToMB_def float64_of_int_def fmul_def fdiv_def reparse_fixed_def round_even_def)
next
  case False
  define x :: rat where "x = of_int b * 8"
  define y where "y = fdiv x 1000"
  define z where "z = fdiv y 1000"
  have B: "\<bar>of_int b :: rat\<bar> < 2 ^ 53" using assms by (metis of_int_abs of_int_less_iff of_int_numeral of_int_power)
  have x: "8 \<le> \<bar>x\<bar>" "\<bar>x\<bar> < 2 ^ 56" using not_tiny [OF False] B by (simp_all add: x_def abs_mult)
  have e1: "\<bar>y - x / 1000\<bar> \<le> \<bar>x\<bar> / 1000 / 2 ^ 53" unfolding y_def using x(1) by (intro fdiv_error) simp
  have "\<bar>x\<bar> / 1000 / 2 ^ 53 < 1 / 10 ^ 2" "\<bar>x\<bar> / 1000 / 2 ^ 53 \<le> \<bar>x\<bar> / 2000" using x(2) by simp_all
  moreover have "\<bar>x / 1000\<bar> = \<bar>x\<bar> / 1000" by (simp add: abs_divide)
  ultimately have y': "1 / 1000 \<le> \<bar>y\<bar>" and y: "\<bar>y\<bar> \<le> \<bar>x\<bar> / 1000 + 1 / 10 ^ 2"
    using e1 x(1) by linarith+
  have "(1 :: rat) / 10 ^ 20 \<le> 1 / 1000" by simp
  with y' have y'': "1 / 10 ^ 20 \<le> \<bar>y\<bar>" by linarith
  have e2: "\<bar>z - y / 1000\<bar> \<le> \<bar>y\<bar> / 1000 / 2 ^ 53" unfolding z_def using y'' by (intro fdiv_error) simp
  have "\<bar>y / 1000 - x / 10 ^ 6\<bar> = \<bar>y - x / 1000\<bar> / 1000"
  proof -
    have "y / 1000 - x / 10 ^ 6 = (y - x / 1000) / 1000" by (simp add: diff_divide_distrib)
    then show ?thesis by (simp only: abs_divide abs_numeral)
  qed
  then have e: "\<bar>z - x / 10 ^ 6\<bar> \<le> \<bar>x\<bar> / 1000 / 2 ^ 53 / 1000 + (\<bar>x\<bar> / 1000 + 1 / 10 ^ 2) / 1000 / 2 ^ 53"
  proof -
    have "\<bar>y\<bar> / 1000 / 2 ^ 53 \<le> (\<bar>x\<bar> / 1000 + 1 / 10 ^ 2) / 1000 / 2 ^ 53" using y by (intro divide_right_mono) auto
    moreover have "\<bar>y - x / 1000\<bar> / 1000 \<le> \<bar>x\<bar> / 1000 / 2 ^ 53 / 1000" using e1 by (intro divide_right_mono) auto
    ultimately show ?thesis using e2 \<open>\<bar>y / 1000 - x / 10 ^ 6\<bar> = _\<close> by linarith
  qed
  have "ConvertToMB b = reparse_fixed 4 z"
    using assms by (simp add: ConvertToMB_def float64_of_int_exact times8_exact z_def y_def x_def)
  then have c: "\<bar>ConvertToMB b - z\<bar> \<le> 5 / 10 ^ 5 + (\<bar>z\<bar> + 1) / 2 ^ 53" using reparse_fixed_error by simp
  have X: "\<bar>x\<bar> < 72057594037927936" using x(2) by simp
  have "\<bar>x\<bar> / 1000 / 2 ^ 53 / 1000 + (\<bar>x\<bar> / 1000 + 1 / 10 ^ 2) / 1000 / 2 ^ 53 < 2 / 10 ^ 5"
    using X by (simp add: field_simps)
  with e have e': "\<bar>z - x / 10 ^ 6\<bar> < 2 / 10 ^ 5" by linarith
  have "\<bar>x / 10 ^ 6\<bar> < 72057594038" using X by (simp add: abs_divide)
  moreover have "(2 :: rat) / 10 ^ 5 \<le> 1" by simp
  ultimately have "\<bar>z\<bar> + 1 < 72057594040" using e' by linarith
  then have "(\<bar>z\<bar> + 1) / 2 ^ 53 < 1 / 10 ^ 5" by simp
  moreover have "(5 :: rat) / 10 ^ 5 + 1 / 10 ^ 5 + 2 / 10 ^ 5 < 1 / 10 ^ 4" by simp
  ultimately have "\<bar>ConvertToMB b - x / 10 ^ 6\<bar> < 1 / 10 ^ 4" using c e' by linarith
  then show ?thesis by (simp add: x_def mult.commute)
qed


text \<open>Every report is a number in positional notation, whatever the counters are.\<close>

lemma rnd_bounds:
  assumes "1 / 10 ^ 30 \<le> a" "a \<le> \<bar>x\<bar>" "\<bar>x\<bar> \<le> b"
  shows "a / 2 \<le> \<bar>rnd x\<bar>" "\<bar>rnd x\<bar> \<le> 2 * b"
  using rnd_factor_two [of x] assms by linarith+

lemma reparse_plain:
  assumes "\<bar>x\<bar> \<le> 10 ^ 16"
  shows "plain_float (reparse_fixed 4 x)"
proof (cases "round_even (\<bar>x\<bar> * 10 ^ 4) = 0")
  case True
  then show ?thesis by (simp add: plain_float_def reparse_fixed_def)
next
  case False
  define n where "n = round_even (\<bar>x\<bar> * 10 ^ 4)"
  have "0 \<le> n" unfolding n_def by (rule round_even_nonneg) simp
  then have "1 \<le> n" using False by (simp add: n_def)
  then have lo: "1 / 10 ^ 4 \<le> \<bar>of_int n / 10 ^ 4 :: rat\<bar>" by simp
  have "of_int n \<le> \<bar>x\<bar> * 10 ^ 4 + 1 / 2" using round_even_near [of "\<bar>x\<bar> * 10 ^ 4"] unfolding n_def by linarith
  also have "\<dots> \<le> 10 ^ 21" using assms by simp
  finally have hi: "\<bar>of_int n / 10 ^ 4 :: rat\<bar> \<le> 10 ^ 17" using \<open>1 \<le> n\<close> by (simp add: abs_of_nonneg)
  have "(1 :: rat) / 10 ^ 30 \<le> 1 / 10 ^ 4" by simp
  note b = rnd_bounds [OF this lo hi]
  have "\<bar>reparse_fixed 4 x\<bar> = \<bar>rnd (of_int n / 10 ^ 4)\<bar>"
    by (simp add: reparse_fixed_def n_def)
  moreover have "(1 :: rat) / 10 ^ 6 \<le> 1 / 10 ^ 4 / 2" "2 * 10 ^ 17 < (10 :: rat) ^ 21" by simp_all
  ultimately have "1 / 10 ^ 6 \<le> \<bar>reparse_fixed 4 x\<bar>" "\<bar>reparse_fixed 4 x\<bar> < 10 ^ 21" using b by linarith+
  then show ?thesis by (simp add: plain_float_def)
qed

lemma ConvertToMB_plain:
  assumes "in_int64 b"
  shows "plain_float (ConvertToMB b)"
proof (cases "b = 0")
  case True
  then show ?thesis
    by (simp add: ConvertToMB_def float64_of_int_def fmul_def fdiv_def reparse_fixed_def round_even_def plain_float_def)
next
  case False
  have "\<bar>b\<bar> \<le> 2 ^ 63" using assms by linarith
  then have hi: "\<bar>of_int b :: rat\<bar> \<le> 2 ^ 63" by (metis of_int_abs of_int_le_iff of_int_numeral of_int_power)
  have tiny: "(1 :: rat) / 10 ^ 30 \<le> 1" "(1 :: rat) / 10 ^ 30 \<le> 1 / 2 * 8" "(1 :: rat) / 10 ^ 30 \<le> 1 / 2 * 8 / 2 / 1000"
    "(1 :: rat) / 10 ^ 30 \<le> 1 / 2 * 8 / 2 / 1000 / 2 / 1000" by simp_all
  define x1 where "x1 = float64_of_int b"
  have x1: "1 / 2 \<le> \<bar>x1\<bar>" "\<bar>x1\<bar> \<le> 2 * 2 ^ 63"
    using rnd_bounds [OF tiny(1) not_tiny [OF False] hi] by (simp_all add: x1_def float64_of_int_def)
  define x2 where "x2 = fmul x1 8"
  have "1 / 2 * 8 \<le> \<bar>x1 * 8\<bar>" "\<bar>x1 * 8\<bar> \<le> 2 * 2 ^ 63 * 8" using x1 by (simp_all add: abs_mult)
  from rnd_bounds [OF tiny(2) this]
  have x2: "1 / 2 * 8 / 2 \<le> \<bar>x2\<bar>" "\<bar>x2\<bar> \<le> 4 * 2 ^ 63 * 8" by (simp_all add: x2_def fmul_def)
  define x3 where "x3 = fdiv x2 1000"
  have "1 / 2 * 8 / 2 / 1000 \<le> \<bar>x2 / 1000\<bar>" "\<bar>x2 / 1000\<bar> \<le> 4 * 2 ^ 63 * 8 / 1000"
    using x2 by (simp_all add: abs_divide)
  from rnd_bounds [OF tiny(3) this]
  have x3: "1 / 2 * 8 / 2 / 1000 / 2 \<le> \<bar>x3\<bar>" "\<bar>x3\<bar> \<le> 8 * 2 ^ 63 * 8 / 1000" by (simp_all add: x3_def fdiv_def)
  define x4 where "x4 = fdiv x3 1000"
  have "1 / 2 * 8 / 2 / 1000 / 2 / 1000 \<le> \<bar>x3 / 1000\<bar>" "\<bar>x3 / 1000\<bar> \<le> 8 * 2 ^ 63 * 8 / 1000 / 1000"
    using x3 by (simp_all add: abs_divide)
  from rnd_bounds [OF tiny(4) this] have "\<bar>x4\<bar> \<le> 16 * 2 ^ 63 * 8 / 1000 / 1000" by (simp add: x4_def fdiv_def)
  moreover have "(16 :: rat) * 2 ^ 63 * 8 / 1000 / 1000 \<le> 10 ^ 16" by simp
  ultimately have "\<bar>x4\<bar> \<le> 10 ^ 16" by linarith
  then show ?thesis using reparse_plain [of x4] by (simp add: ConvertToMB_def x1_def x2_def x3_def x4_def)
qed


section \<open>What the server receives\<close>


lemma plain_float_0 [simp]: "plain_float 0"
  by (simp add: plain_float_def)

lemma report_info_ok: "in_int64 inb \<Longrightarrow> in_int64 outb \<Longrightarrow> monitor_ok (report_info t inb outb)"
  using wrap64_range [of "quot64 t 60 * 60"]
  by (simp add: monitor_ok_def report_info_def adjustedTime_def ConvertToMB_plain)

text \<open>The minute of a timestamp.\<close>

lemma adjustedTime_minute:
  assumes "0 \<le> t" "t < 2 ^ 63"
  shows "adjustedTime t = t - t mod 60"
proof -
  have "t div 60 * 60 = t - t mod 60" by (simp add: minus_mod_eq_div_mult)
  moreover have "0 \<le> t - t mod 60" "t - t mod 60 \<le> t" using assms(1) by (simp_all add: zmod_le_nonneg_dividend)
  ultimately show ?thesis using assms quot64_nonneg [of t 60] by (simp add: adjustedTime_def wrap64_id)
qed

text \<open>The request of a report; the network sees no other.\<close>

definition report_request :: "int \<Rightarrow> config \<Rightarrow> monitorInfo list \<Rightarrow> http_request" where
  "report_request now c ms =
     (case url_Get now (report_provider c) ''/api/common/v1/nethogs/monitor'' of
        (url, headers) \<Rightarrow> build_request ''POST'' url headers (monitor_body ms))"

text \<open>What the client makes of the answer to a request that expects no data.\<close>

definition answer_to :: "transport \<Rightarrow> http_request \<Rightarrow> rpc_error option" where
  "answer_to net rq =
     (if url_error net ''POST'' (rq_url rq) then Some BadRequest
      else (case roundtrip net rq of None \<Rightarrow> Some NoResponse | Some rsp \<Rightarrow> snd (parseResponse rsp None)))"

lemma reportHandler_request:
  "reportHandler net t now c inb outb = answer_to net (report_request now c [report_info t inb outb])"
  by (simp add: reportHandler_def ReportMonitorInfo_def report_request_def execute_cases Let_def split_def
      build_request_def answer_to_def split: option.split)

text \<open>A request is known by the answers it gets: a server may drop one request and refuse all others.\<close>

lemma answer_to_inject:
  assumes "\<forall>net. answer_to net rq = answer_to net rq'"
  shows "rq = rq'"
proof (rule ccontr)
  assume "rq \<noteq> rq'"
  let ?net = "\<lparr>url_error = (\<lambda>_ _. False),
    roundtrip = (\<lambda>r. if r = rq then None else Some \<lparr>StatusCode = 404, rs_body = Some ''''\<rparr>)\<rparr>"
  have "answer_to ?net rq = Some NoResponse" by (simp add: answer_to_def)
  moreover have "answer_to ?net rq' \<noteq> Some NoResponse"
    using \<open>rq \<noteq> rq'\<close> by (simp add: answer_to_def parseResponse_def)
  ultimately show False using assms by metis
qed

lemma report_body_read:
  assumes "in_int64 inb" "in_int64 outb" "rq_body (report_request now c [report_info t inb outb]) = Some body"
  shows "Unmarshal (data_t (TSlice MonitorInfo_t)) body (zero (data_t (TSlice MonitorInfo_t)))
     = (VStruct [VSlice [monitor_value (report_info t inb outb)]], None)"
proof -
  have "\<forall>m\<in>set [report_info t inb outb]. monitor_ok m" using report_info_ok [OF assms(1,2)] by simp
  from data_body_read [OF monitors_data_ok [OF this]] show ?thesis
    using assms(3) by (simp add: report_request_def build_request_def monitor_body_def split_def)
qed

text \<open>The request of a report, and what its body says.\<close>

lemma report_request_read:
  assumes "\<bar>inb\<bar> < 2 ^ 53" "\<bar>outb\<bar> < 2 ^ 53" "0 \<le> t" "t < 2 ^ 63"
    and rq: "rq = report_request now c [report_info t inb outb]"
  obtains body down up where "rq_body rq = Some body" "rq_method rq = ''POST''" "HasPrefix (rq_url rq) ''http''"
    "HasSuffix (rq_url rq) (ServerEndpoint (Agent c) @ ''/api/common/v1/nethogs/monitor'')"
    "Unmarshal (data_t (TSlice MonitorInfo_t)) body (zero (data_t (TSlice MonitorInfo_t))) =
      (VStruct [VSlice [VStruct [VFloat 0, VFloat 0, VFloat down, VFloat 0, VInt (t - t mod 60), VFloat up]]], None)"
    "\<bar>down - 8 * of_int inb / 10 ^ 6\<bar> < 1 / 10 ^ 4" "\<bar>up - 8 * of_int outb / 10 ^ 6\<bar> < 1 / 10 ^ 4"
proof -
  have "in_int64 inb" "in_int64 outb" using assms(1,2) by (simp_all add: abs_less_iff)
  note read = report_body_read [OF this, of now c t]
  obtain body where b: "rq_body rq = Some body"
    by (simp add: rq report_request_def build_request_def monitor_body_def data_body_tree split_def)
  have url: "HasPrefix (rq_url rq) ''http''"
    "HasSuffix (rq_url rq) (ServerEndpoint (Agent c) @ ''/api/common/v1/nethogs/monitor'')"
    using url_Get_http [of now "report_provider c" "''/api/common/v1/nethogs/monitor''"]
    by (simp_all add: rq report_request_def build_request_def split_def)
      (simp add: url_Get_def GetWithParams_def Let_def report_provider_def HasSuffix_iff)
  have "rq_method rq = ''POST''" by (simp add: rq report_request_def build_request_def split_def)
  moreover have "monitor_value (report_info t inb outb) =
      VStruct [VFloat 0, VFloat 0, VFloat (ConvertToMB inb), VFloat 0, VInt (t - t mod 60), VFloat (ConvertToMB outb)]"
    by (simp add: monitor_value_def report_info_def adjustedTime_minute [OF assms(3,4)])
  ultimately show thesis
    using that [OF b _ url] b read [of body] ConvertToMB_error [OF assms(1)] ConvertToMB_error [OF assms(2)] by (simp add: rq)
qed

text \<open>The same for any rates, with the headers: what \<open>reportHandler\<close> hands to the network.\<close>

lemma report_sent:
  assumes "in_int64 inb" "in_int64 outb" "0 \<le> t" "t < 2 ^ 63"
  obtains rq body where
    "\<forall>net. reportHandler net t now c inb outb = answer_to net rq"
    "rq_method rq = ''POST''" "HasPrefix (rq_url rq) ''http''"
    "rq_url rq = ServerEndpoint (Agent c) @ ''/api/common/v1/nethogs/monitor'' \<or>
     rq_url rq = ''https://'' @ ServerEndpoint (Agent c) @ ''/api/common/v1/nethogs/monitor''"
    "gm_get (rq_header rq) ''ak'' = Some (AppKey (Agent c))"
    "gm_get (rq_header rq) ''timestamp'' = Some (format_int now)"
    "gm_get (rq_header rq) ''sign'' = Some (hex_encode (md5 (AppSecret (Agent c) @ ''#'' @ format_int now)))"
    "gm_get (rq_header rq) ''Content-Type'' = Some ''application/json''"
    "rq_body rq = Some body"
    "Unmarshal (data_t (TSlice MonitorInfo_t)) body (zero (data_t (TSlice MonitorInfo_t))) =
      (VStruct [VSlice [VStruct [VFloat 0, VFloat 0, VFloat (ConvertToMB inb), VFloat 0, VInt (t - t mod 60),
         VFloat (ConvertToMB outb)]]], None)"
proof -
  define rq where "rq = report_request now c [report_info t inb outb]"
  note defs = rq_def report_request_def build_request_def split_def
  obtain body where b: "rq_body rq = Some body" by (simp add: defs monitor_body_def data_body_tree)
  have body: "monitor_body [report_info t inb outb] \<noteq> NoBody" by (simp add: monitor_body_def data_body_def)
  have head: "gm_get (rq_header rq) k =
      (case gm_get (GetCommonHeaders now (CommonHeaders (report_provider c))) k of
         Some v \<Rightarrow> Some v | None \<Rightarrow> if k = ''Content-Type'' then Some ''application/json'' else None)" for k
    using request_header [OF gm_ok_url_Get, of "''POST''" _ now "report_provider c" "''/api/common/v1/nethogs/monitor''"
        "monitor_body [report_info t inb outb]" k] body
    by (simp add: rq_def report_request_def split_def url_Get_get)
  have "HasPrefix (rq_url rq) ''http''"
    using url_Get_http [of now "report_provider c" "''/api/common/v1/nethogs/monitor''"] by (simp add: defs)
  moreover have "rq_url rq = ServerEndpoint (Agent c) @ ''/api/common/v1/nethogs/monitor'' \<or>
     rq_url rq = ''https://'' @ ServerEndpoint (Agent c) @ ''/api/common/v1/nethogs/monitor''"
    by (simp add: defs) (auto simp: url_Get_def GetWithParams_def Let_def report_provider_def)
  moreover have "gm_get (rq_header rq) ''ak'' = Some (AppKey (Agent c))"
    "gm_get (rq_header rq) ''timestamp'' = Some (format_int now)"
    "gm_get (rq_header rq) ''sign'' = Some (hex_encode (md5 (AppSecret (Agent c) @ ''#'' @ format_int now)))"
    "gm_get (rq_header rq) ''Content-Type'' = Some ''application/json''"
    by (simp_all add: head common_get report_provider_def getSign_def)
  moreover have "monitor_value (report_info t inb outb) =
      VStruct [VFloat 0, VFloat 0, VFloat (ConvertToMB inb), VFloat 0, VInt (t - t mod 60), VFloat (ConvertToMB outb)]"
    by (simp add: monitor_value_def report_info_def adjustedTime_minute [OF assms(3,4)])
  ultimately show thesis
    using that [of rq body] b report_body_read [OF assms(1,2), of now c t body] reportHandler_request
    by (simp add: rq_def) (simp add: report_request_def build_request_def split_def)
qed

section \<open>A turn of the ranking\<close>

lemma read_all_Ret: "\<forall>a\<in>set as. has_stats h a \<Longrightarrow> read_all h as = Ret (map (\<lambda>a. the (cells h a)) as)"
  by (induction "as") (auto simp: has_stats_def split: option.splits)

definition stats_of :: "process \<Rightarrow> trafficStatsEntry" where
  "stats_of p = the (TrafficStats p)"

lemma table_loop_Ret:
  "\<forall>p\<in>set ps. TrafficStats p \<noteq> None \<Longrightarrow>
     table_loop pr ps (items, wrap64 a, wrap64 b) =
       Ret (items @ map (\<lambda>p. table_row pr p (stats_of p)) ps,
         wrap64 (a + sum_list (map (st_InRate \<circ> stats_of) ps)), wrap64 (b + sum_list (map (st_OutRate \<circ> stats_of) ps)))"
proof (induction ps arbitrary: items a b)
  case (Cons p ps)
  obtain st where st: "TrafficStats p = Some st" using Cons.prems by auto
  have "stats_of p = st" by (simp add: stats_of_def st)
  then show ?case
    using Cons.IH [of "items @ [table_row pr p st]" "a + st_InRate st" "b + st_OutRate st"] Cons.prems
    by (simp add: st algebra_simps)
qed simp


lemma sum_rates_range: "table_loop pr ps (items, a, b) = Ret (rows, inb, outb) \<Longrightarrow> in_int64 a \<Longrightarrow> in_int64 b \<Longrightarrow>
     in_int64 inb \<and> in_int64 outb"
proof (induction pr ps "(items, a, b)" arbitrary: items a b rule: table_loop.induct)
  case (2 pr po ps items a b)
  then obtain st where st: "TrafficStats po = Some st" by (auto split: option.splits)
  show ?case
    using 2(1) [OF st] 2(2) wrap64_range [of "a + st_InRate st"] wrap64_range [of "b + st_OutRate st"] by (simp add: st)
qed simp

lemma processRanking_reports:
  assumes "pc_ok pm h" "all_stats pm h" "range_order ord"
  obtains prank pm' h' where
    "GetProcessRank ord clk recentRankLimit 5 (pm, h) = Ret (Inr prank, pm', h')"
    "top_ranked h' (dict_addrs pm) recentRankLimit prank" "pc_dict pm' = pc_dict pm"
    "\<forall>pid. procs pm' h' pid = map_option (analyseStats (clk pid) 5) (procs pm h pid)"
    "processRanking_tick pr net ord clk t now c (pm, h) =
       Ret (Some (map (\<lambda>p. table_row pr p (stats_of p)) (map (\<lambda>a. the (cells h' a)) prank),
         reportHandler net t now c
           (wrap64 (sum_list (map (\<lambda>a. st_InRate (stats_of (the (cells h' a)))) prank)))
           (wrap64 (sum_list (map (\<lambda>a. st_OutRate (stats_of (the (cells h' a)))) prank)))), pm', h')"
proof -
  obtain prank pm' h' where rank: "GetProcessRank ord clk recentRankLimit 5 (pm, h) = Ret (Inr prank, pm', h')"
    and pm': "pm' = pm\<lparr>sortedProcesses := sortedProcesses pm'\<rparr>" and ok: "pc_ok pm' h'" "all_stats pm' h'"
    and pr': "\<forall>pid. procs pm' h' pid = map_option (analyseStats (clk pid) 5) (procs pm h pid)"
    and top: "top_ranked h' (dict_addrs pm) recentRankLimit prank"
    using GetProcessRank_result [OF assms, of recentRankLimit 5 clk] by (auto simp: recentRankLimit_def maxRingSize_def)
  have dict: "pc_dict pm' = pc_dict pm" by (subst pm') simp
  then have "dict_addrs pm' = dict_addrs pm" by (simp add: dict_addrs_def)
  then have st: "\<forall>a\<in>set prank. has_stats h' a"
    using all_stats_has_stats [OF ok] top by (auto simp: top_ranked_def)
  let ?ps = "map (\<lambda>a. the (cells h' a)) prank"
  have "\<forall>p\<in>set ?ps. TrafficStats p \<noteq> None" using st by (auto simp: has_stats_def split: option.splits)
  from table_loop_Ret [OF this, of pr "[]" 0 0]
  have "table_loop pr ?ps ([], 0, 0) = Ret (map (\<lambda>p. table_row pr p (stats_of p)) ?ps,
      wrap64 (sum_list (map (st_InRate \<circ> stats_of) ?ps)), wrap64 (sum_list (map (st_OutRate \<circ> stats_of) ?ps)))"
    by (simp add: wrap64_def)
  then have "processRanking_tick pr net ord clk t now c (pm, h) =
      Ret (Some (map (\<lambda>p. table_row pr p (stats_of p)) ?ps,
         reportHandler net t now c
           (wrap64 (sum_list (map (\<lambda>a. st_InRate (stats_of (the (cells h' a)))) prank)))
           (wrap64 (sum_list (map (\<lambda>a. st_OutRate (stats_of (the (cells h' a)))) prank)))), pm', h')"
    by (simp add: processRanking_tick_def rank read_all_Ret [OF st] showTable_def comp_def)
  with rank top dict pr' that show thesis by blast
qed


text \<open>What a ranking of one shows: a process no other has a larger total than.\<close>

definition stats_total :: "trafficStatsEntry \<Rightarrow> int" where
  "stats_total st = wrap64 (st_In st + st_Out st)"

lemma dict_iff_procs:
  assumes "pc_ok pm h"
  shows "(\<exists>a. gm_get (pc_dict pm) q = Some a) \<longleftrightarrow> procs pm h q \<noteq> None"
  using pc_ok_cell [OF assms, of q] by (auto simp: procs_def split: option.splits)

lemma top_one:
  assumes ok: "pc_ok pm h0" and top: "top_ranked h (dict_addrs pm) 1 prank"
    and stats: "\<And>q a. gm_get (pc_dict pm) q = Some a \<Longrightarrow>
       cells h a \<noteq> None \<and> TrafficStats (the (cells h a)) = Some (S q)"
  obtains (none) "\<forall>pid. procs pm h0 pid = None" "prank = []"
    | (one) pid a where "procs pm h0 pid \<noteq> None" "prank = [a]" "stats_of (the (cells h a)) = S pid"
        "\<forall>q. procs pm h0 q \<noteq> None \<longrightarrow> stats_total (S q) \<le> stats_total (S pid)"
proof (cases "\<forall>pid. procs pm h0 pid = None")
  case True
  then have "a \<notin> set (dict_addrs pm)" for a using dict_addrs_iff [OF ok, of a] dict_iff_procs [OF ok] by blast
  then have "dict_addrs pm = []" by (cases "dict_addrs pm") auto
  then show ?thesis using none [OF True] top by (simp add: top_ranked_def)
next
  case False
  have total: "rank_value h a = stats_total (S q)" if "gm_get (pc_dict pm) q = Some a" for q a
    using stats [OF that] by (auto simp: rank_value_def stats_total_def)
  obtain q where "procs pm h0 q \<noteq> None" using False by blast
  then obtain b where "gm_get (pc_dict pm) q = Some b" using dict_iff_procs [OF ok, of q] by blast
  then have "b \<in> set (dict_addrs pm)" using dict_addrs_iff [OF ok, of b] by blast
  then have "length prank = 1" using top by (cases "dict_addrs pm") (auto simp: top_ranked_def)
  then obtain a where prank: "prank = [a]" by (cases prank) auto
  then have "a \<in> set (dict_addrs pm)" using top by (simp add: top_ranked_def)
  then obtain pid where pid: "gm_get (pc_dict pm) pid = Some a" using dict_addrs_iff [OF ok, of a] by blast
  have "stats_total (S q) \<le> stats_total (S pid)" if known: "procs pm h0 q \<noteq> None" for q
  proof -
    obtain b where b: "gm_get (pc_dict pm) q = Some b" using known dict_iff_procs [OF ok, of q] by blast
    then have "b \<in> set (dict_addrs pm)" using dict_addrs_iff [OF ok, of b] by blast
    then have "rank_value h b \<le> rank_value h a" using top by (cases "b = a") (auto simp: top_ranked_def prank)
    then show ?thesis using total [OF b] total [OF pid] by simp
  qed
  moreover have "procs pm h0 pid \<noteq> None" using pid dict_iff_procs [OF ok, of pid] by blast
  moreover have "stats_of (the (cells h a)) = S pid" using stats [OF pid] by (simp add: stats_of_def)
  ultimately show ?thesis using one prank by blast
qed

section \<open>Starting always succeeds\<close>

lemma start_options_library: "list_all library_option (start_options c)"
  by (auto simp: start_options_def intro: library_option.intros)

text \<open>With these options neither a capture file nor a cgroup is configured, so nothing can fail.\<close>

lemma core_Start_serves:
  obtains nf0 nf where "New devices (start_options c) = Inr nf0" "Start create_err cgroup_err nf0 = (None, nf)"
    "core_Start devices create_err cgroup_err c = Serving nf"
    "pcapFilter nf = capture_filter c" "filterPName (processHash nf) = Nethogs c"
    "captureTimeout nf = 12 * 30 * 24 * 60 * minute" "nf_syncer nf" "nf_timer nf" "nf_workers nf = defaultWorkerNum"
    "bindIPs nf = fst (parseIpaddrsAndDevices devices)" "nf_sniffing nf = gm_keys (snd (parseIpaddrsAndDevices devices))"
proof -
  define base where "base = new_base devices"
  have base: "cpuCore base = 0" "memMB base = 0" "pcapFileName base = []" "pcapFilter base = []"
    "workerNum base = defaultWorkerNum" "bindIPs base = fst (parseIpaddrsAndDevices devices)"
    "bindDevices base = snd (parseIpaddrsAndDevices devices)"
    by (simp_all add: base_def new_base_def split: prod.split)
  define nf0 where "nf0 = base\<lparr>processHash := (processHash base)\<lparr>filterPName := Nethogs c\<rparr>,
      captureTimeout := 12 * 30 * 24 * 60 * minute, pcapFilter := capture_filter c, qsize := 20000\<rparr>"
  have "base\<lparr>pcapFilter := []\<rparr> = base" using base(4) by simp
  then have new: "New devices (start_options c) = Inr nf0"
    by (auto simp: New_def start_options_def WithName_def WithCaptureTimeout_def WithPcapFilter_def WithQueueSize_def
        defaultCaptureTimeout_def capture_filter_def nf0_def base_def [symmetric] base(4))
  define nf where "nf = startNetworkSniffer (nf0\<lparr>nf_syncer := True\<rparr>)"
  have start: "Start create_err cgroup_err nf0 = (None, nf)"
    by (simp add: Start_def configurePersist_def configureCgroups_def nf0_def base nf_def)
  have "core_Start devices create_err cgroup_err c = Serving nf" by (simp add: core_Start_def new start)
  from that [OF new start this] show thesis by (simp add: nf_def startNetworkSniffer_def nf0_def base)
qed

end
