(* ===== verification/Service.thy ===== *)
theory Service
  imports Report
begin

text \<open>
  The long-running part of the two programs, core/blocking.go and core2/blocking.go: the three
  goroutines that wait for signals, for the end and for ticks, as a step relation.
\<close>

section \<open>Signals, ticks and the end\<close>

text \<open>
  \<open>sv_chan\<close> is \<open>sigch\<close>; \<open>sv_handler\<close> whether \<open>handleSignals\<close> still waits, \<open>sv_main\<close> whether \<open>Start\<close> still
  does, \<open>sv_cancelled\<close> the context. The goroutine of \<open>processRanking\<close> is in its select, in the loop of
  the table (core2 only) or has returned. The counters record history: signals taken from the channel,
  calls of the ranking, reports.
\<close>

datatype ranker = Selecting | InTable | Gone

record service =
  sv_chan :: "nat chan"
  sv_handler :: bool
  sv_main :: bool
  sv_cancelled :: bool
  sv_ranker :: ranker
  sv_taken :: nat
  sv_ranked :: nat
  sv_reports :: nat

definition service_start :: service where
  "service_start = \<lparr>sv_chan = make_chan 1, sv_handler = True, sv_main = True, sv_cancelled = False,
     sv_ranker = Selecting, sv_taken = 0, sv_ranked = 0, sv_reports = 0\<rparr>"

text \<open>
  Steps of the process, for core (\<open>False\<close>) or core2 (\<open>True\<close>). \<open>signal.Notify\<close> drops a signal the channel
  has no room for. When \<open>Start\<close> returns it cancels the context and the process ends; it also ends when
  the table of core2 gets no monitor (\<open>log.Fatalf\<close>), and in core when the pprof server that cmd/main.go
  has started beside it fails (\<open>log.Fatal\<close>): then nothing is cancelled.
\<close>

inductive service_step :: "bool \<Rightarrow> service \<Rightarrow> service \<Rightarrow> bool" for core2 where
  notify: "sv_main s \<Longrightarrow>
    service_step core2 s (if chan_room (sv_chan s) then s\<lparr>sv_chan := chan_send sig (sv_chan s)\<rparr> else s)"
| handleSignals: "sv_main s \<Longrightarrow> sv_handler s \<Longrightarrow> chan_recv (sv_chan s) = Some (sig, ch) \<Longrightarrow>
    service_step core2 s (s\<lparr>sv_chan := ch, sv_handler := False, sv_cancelled := True, sv_taken := sv_taken s + 1\<rparr>)"
| main_signal: "sv_main s \<Longrightarrow> chan_recv (sv_chan s) = Some (sig, ch) \<Longrightarrow>
    service_step core2 s (s\<lparr>sv_chan := ch, sv_main := False, sv_cancelled := True, sv_taken := sv_taken s + 1\<rparr>)"
| main_timeout: "sv_main s \<Longrightarrow> service_step core2 s (s\<lparr>sv_main := False, sv_cancelled := True\<rparr>)"
| cancelled: "sv_main s \<Longrightarrow> sv_ranker s = Selecting \<Longrightarrow> sv_cancelled s \<Longrightarrow>
    service_step core2 s (s\<lparr>sv_ranker := Gone\<rparr>)"
| tick: "sv_main s \<Longrightarrow> sv_ranker s = Selecting \<Longrightarrow> \<not> core2 \<Longrightarrow>
    service_step core2 s (s\<lparr>sv_ranked := sv_ranked s + 1, sv_reports := sv_reports s + 1\<rparr>)"
| enter_table: "sv_main s \<Longrightarrow> sv_ranker s = Selecting \<Longrightarrow> core2 \<Longrightarrow>
    service_step core2 s (s\<lparr>sv_ranked := sv_ranked s + 1, sv_ranker := InTable\<rparr>)"
| no_monitor: "sv_main s \<Longrightarrow> sv_ranker s = InTable \<Longrightarrow> sv_reports s = 0 \<Longrightarrow>
    service_step core2 s (s\<lparr>sv_main := False\<rparr>)"
| pprof: "sv_main s \<Longrightarrow> \<not> core2 \<Longrightarrow> service_step core2 s (s\<lparr>sv_main := False\<rparr>)"
| table_tick: "sv_main s \<Longrightarrow> sv_ranker s = InTable \<Longrightarrow>
    service_step core2 s (s\<lparr>sv_reports := sv_reports s + 1\<rparr>)"

inductive_cases service_stepE: "service_step core2 s s'"

inductive serves :: "bool \<Rightarrow> service \<Rightarrow> bool" for core2 where
  start: "serves core2 service_start"
| step: "serves core2 s \<Longrightarrow> service_step core2 s s' \<Longrightarrow> serves core2 s'"

definition service_inv :: "bool \<Rightarrow> service \<Rightarrow> bool" where
  "service_inv core2 s \<longleftrightarrow>
     (sv_main s \<longrightarrow> sv_taken s = (if sv_handler s then 0 else 1) \<and> (sv_handler s \<longleftrightarrow> \<not> sv_cancelled s)) \<and>
     (sv_ranker s = Gone \<longrightarrow> sv_cancelled s) \<and>
     (sv_ranker s = InTable \<longrightarrow> core2) \<and>
     (core2 \<longrightarrow> sv_ranked s \<le> 1 \<and> (sv_ranked s = 0 \<longleftrightarrow> sv_ranker s \<noteq> InTable))"

lemma service_inv_step: "service_step core2 s s' \<Longrightarrow> service_inv core2 s \<Longrightarrow> service_inv core2 s'"
  by (erule service_stepE) (auto simp: service_inv_def split: if_splits)

lemma serves_inv: "serves core2 s \<Longrightarrow> service_inv core2 s"
proof (induction rule: serves.induct)
  case start
  show ?case by (simp add: service_inv_def service_start_def)
next
  case (step s s')
  then show ?case using service_inv_step by blast
qed

text \<open>
  The handler may win the race for the first signal: the reports of core stop, and the process waits on
  for the next signal.
\<close>

lemma first_signal_lost:
  obtains s where "serves False s" "sv_main s" "sv_taken s = 1" "chan_buf (sv_chan s) = []" "sv_ranker s = Gone"
proof -
  let ?s1 = "service_start\<lparr>sv_chan := \<lparr>chan_buf = [15], chan_cap = 1\<rparr>\<rparr>"
  let ?s2 = "?s1\<lparr>sv_chan := \<lparr>chan_buf = [], chan_cap = 1\<rparr>, sv_handler := False, sv_cancelled := True, sv_taken := 1\<rparr>"
  let ?s3 = "?s2\<lparr>sv_ranker := Gone\<rparr>"
  have "service_step False service_start ?s1"
    using service_step.notify [of service_start False 15]
    by (simp add: service_start_def make_chan_def chan_room_def chan_send_def)
  moreover have "service_step False ?s1 ?s2"
    using service_step.handleSignals [of ?s1 15 "\<lparr>chan_buf = [], chan_cap = 1\<rparr>" False]
    by (simp add: service_start_def chan_recv_def)
  moreover have "service_step False ?s2 ?s3"
    using service_step.cancelled [of ?s2 False] by (simp add: service_start_def)
  ultimately have "serves False ?s3" by (metis serves.start serves.step)
  then show thesis by (rule that) (simp_all add: service_start_def)
qed

end
