(* ===== verification/EndToEnd.thy ===== *)
theory EndToEnd
  imports Report History
begin

text \<open>
  What a tick of the minute ticker reports in any state of a run: the rates of the busiest process,
  exact with respect to the log of the run.
\<close>

text \<open>The bytes of a log in the five seconds a report looks at, per direction.\<close>

definition recent_bytes :: "event list \<Rightarrow> time \<Rightarrow> sideOption \<Rightarrow> int" where
  "recent_bytes evs tm side = bytes_since side (unix tm - 5) evs"

definition recent_total :: "event list \<Rightarrow> time \<Rightarrow> int" where
  "recent_total evs tm = recent_bytes evs tm inputSide + recent_bytes evs tm outputSide"

text \<open>Below \<open>2 ^ 53\<close> bytes nothing wraps.\<close>

lemma window_stats_small:
  assumes "\<forall>side. 0 \<le> recent_bytes evs tm side \<and> recent_bytes evs tm side < 2 ^ 53"
  shows "st_InRate (window_stats tm 5 evs) = recent_bytes evs tm inputSide div 5"
    and "st_OutRate (window_stats tm 5 evs) = recent_bytes evs tm outputSide div 5"
    and "stats_total (window_stats tm 5 evs) = recent_total evs tm"
proof -
  have b: "0 \<le> recent_bytes evs tm side" "recent_bytes evs tm side < 2 ^ 53" for side
    using assms by blast+
  have w: "wrap64 (recent_bytes evs tm side) = recent_bytes evs tm side"
    "quot64 (recent_bytes evs tm side) 5 = recent_bytes evs tm side div 5" for side
    using b [of side] by (simp_all add: wrap64_id quot64_nonneg)
  show "st_InRate (window_stats tm 5 evs) = recent_bytes evs tm inputSide div 5"
    "st_OutRate (window_stats tm 5 evs) = recent_bytes evs tm outputSide div 5"
    using w by (simp_all add: window_stats_def Let_def recent_bytes_def)
  have "wrap64 (recent_total evs tm) = recent_total evs tm"
    using b [of inputSide] b [of outputSide] by (simp add: wrap64_id recent_total_def)
  then show "stats_total (window_stats tm 5 evs) = recent_total evs tm"
    using w by (simp add: stats_total_def window_stats_def Let_def recent_bytes_def recent_total_def)
qed

text \<open>A process of the table no other has a larger total than, and what is reported for it.\<close>

definition busiest :: "sys \<Rightarrow> (string \<Rightarrow> event list) \<Rightarrow> time \<Rightarrow> string \<Rightarrow> bool" where
  "busiest s L tm pid \<longleftrightarrow> procs_of (sy_nf s) pid \<noteq> None \<and>
     (\<forall>q. procs_of (sy_nf s) q \<noteq> None \<longrightarrow>
        stats_total (window_stats tm 5 (L q)) \<le> stats_total (window_stats tm 5 (L pid)))"

definition reported :: "sys \<Rightarrow> (string \<Rightarrow> event list) \<Rightarrow> time \<Rightarrow> int \<Rightarrow> int \<Rightarrow> bool" where
  "reported s L tm inb outb \<longleftrightarrow>
     (if \<forall>pid. procs_of (sy_nf s) pid = None then inb = 0 \<and> outb = 0
      else \<exists>pid. busiest s L tm pid \<and>
        inb = st_InRate (window_stats tm 5 (L pid)) \<and> outb = st_OutRate (window_stats tm 5 (L pid)))"

lemma rates_wrapped [simp]:
  "wrap64 (st_InRate (window_stats tm sec evs)) = st_InRate (window_stats tm sec evs)"
  "wrap64 (st_OutRate (window_stats tm sec evs)) = st_OutRate (window_stats tm sec evs)"
  by (simp_all add: window_stats_def Let_def quot64_def)

lemma known_address:
  assumes "nf_pc_ok nf"
  shows "(\<exists>a. gm_get (pc_dict (processHash nf)) q = Some a) \<longleftrightarrow> procs_of nf q \<noteq> None"
  using dict_iff_procs [OF assms [unfolded nf_pc_ok_def], of q] by (simp add: procs_of_def)

text \<open>The first of a ranking of one is the busiest.\<close>

lemma top_busiest:
  assumes "nf_pc_ok (sy_nf s)" "top_ranked h (dict_addrs (processHash (sy_nf s))) 1 prank"
    and "\<forall>q a. gm_get (pc_dict (processHash (sy_nf s))) q = Some a \<longrightarrow>
       cells h a \<noteq> None \<and> TrafficStats (the (cells h a)) = Some (window_stats tm 5 (L q))"
  shows "reported s L tm (wrap64 (sum_list (map (\<lambda>a. st_InRate (stats_of (the (cells h a)))) prank)))
    (wrap64 (sum_list (map (\<lambda>a. st_OutRate (stats_of (the (cells h a)))) prank)))"
    and "length prank = (if \<forall>pid. procs_of (sy_nf s) pid = None then 0 else 1)"
proof -
  have "reported s L tm (wrap64 (sum_list (map (\<lambda>a. st_InRate (stats_of (the (cells h a)))) prank)))
      (wrap64 (sum_list (map (\<lambda>a. st_OutRate (stats_of (the (cells h a)))) prank))) \<and>
    length prank = (if \<forall>pid. procs_of (sy_nf s) pid = None then 0 else 1)"
    (is ?goal)
  proof (rule top_one [OF assms(1) [unfolded nf_pc_ok_def] assms(2), where S = "\<lambda>q. window_stats tm 5 (L q)"])
    show "cells h a \<noteq> None \<and> TrafficStats (the (cells h a)) = Some (window_stats tm 5 (L q))"
      if "gm_get (pc_dict (processHash (sy_nf s))) q = Some a" for q a
      using assms(3) that by blast
  next
    assume "\<forall>pid. procs (processHash (sy_nf s)) (heap (sy_nf s)) pid = None" "prank = []"
    then show ?goal by (simp add: reported_def procs_of_def wrap64_def)
  next
    fix pid a
    assume one: "procs (processHash (sy_nf s)) (heap (sy_nf s)) pid \<noteq> None" "prank = [a]"
      "stats_of (the (cells h a)) = window_stats tm 5 (L pid)"
      "\<forall>q. procs (processHash (sy_nf s)) (heap (sy_nf s)) q \<noteq> None \<longrightarrow>
         stats_total (window_stats tm 5 (L q)) \<le> stats_total (window_stats tm 5 (L pid))"
    then have "busiest s L tm pid" by (simp add: busiest_def procs_of_def)
    moreover have "\<not> (\<forall>pid. procs_of (sy_nf s) pid = None)" using one(1) by (auto simp: procs_of_def)
    ultimately show ?goal using one by (auto simp: reported_def)
  qed
  then show "reported s L tm (wrap64 (sum_list (map (\<lambda>a. st_InRate (stats_of (the (cells h a)))) prank)))
      (wrap64 (sum_list (map (\<lambda>a. st_OutRate (stats_of (the (cells h a)))) prank)))"
    "length prank = (if \<forall>pid. procs_of (sy_nf s) pid = None then 0 else 1)" by blast+
qed

text \<open>A tick in a run: whatever the terminal and the network do, it reports the busiest process.\<close>

lemma tick_reports:
  assumes "logged s L" "range_order ord" "sy_now s \<le> tm"
  obtains prank pm h inb outb where
    "GetProcessRank ord (\<lambda>_. tm) recentRankLimit 5 (processHash (sy_nf s), heap (sy_nf s)) = Ret (Inr prank, pm, h)"
    "reported s L tm inb outb"
    "\<forall>pr net t now c. \<exists>rows.
       length rows = (if \<forall>pid. procs_of (sy_nf s) pid = None then 0 else 1) \<and>
       processRanking_tick pr net ord (\<lambda>_. tm) t now c (processHash (sy_nf s), heap (sy_nf s)) =
         Ret (Some (rows, reportHandler net t now c inb outb), pm, h)"
proof -
  have inv: "tables_ok (unix (sy_now s)) (sy_nf s)"
    using reachable_inv [OF logged_reachable [OF assms(1)]] by (simp add: sys_inv_def)
  then have ok: "nf_pc_ok (sy_nf s)" "pc_ok (processHash (sy_nf s)) (heap (sy_nf s))"
    and st: "all_stats (processHash (sy_nf s)) (heap (sy_nf s))"
    unfolding all_stats_procs tables_ok_def by (auto intro: all_procs_mono simp: proc_fine_def nf_pc_ok_def)
  obtain prank pm h where rank: "GetProcessRank ord (\<lambda>_. tm) recentRankLimit 5 (processHash (sy_nf s), heap (sy_nf s)) = Ret (Inr prank, pm, h)"
    and top: "top_ranked h (dict_addrs (processHash (sy_nf s))) recentRankLimit prank"
    and dict: "pc_dict pm = pc_dict (processHash (sy_nf s))"
    and an: "\<forall>pid. procs pm h pid = map_option (analyseStats tm 5) (procs (processHash (sy_nf s)) (heap (sy_nf s)) pid)"
    by (rule processRanking_reports [OF ok(2) st assms(2), where clk = "\<lambda>_. tm"])
  let ?in = "wrap64 (sum_list (map (\<lambda>a. st_InRate (stats_of (the (cells h a)))) prank))"
  let ?out = "wrap64 (sum_list (map (\<lambda>a. st_OutRate (stats_of (the (cells h a)))) prank))"
  have tick: "processRanking_tick pr net ord (\<lambda>_. tm) t now c (processHash (sy_nf s), heap (sy_nf s)) =
      Ret (Some (map (\<lambda>p. table_row pr p (stats_of p)) (map (\<lambda>a. the (cells h a)) prank),
        reportHandler net t now c ?in ?out), pm, h)" for pr net t now c
    by (rule processRanking_reports [OF ok(2) st assms(2), where clk = "\<lambda>_. tm" and pr = pr and net = net and t = t and now = now and c = c])
      (use rank in simp)
  have stats: "cells h a \<noteq> None \<and> TrafficStats (the (cells h a)) = Some (window_stats tm 5 (L q))"
    if q: "gm_get (pc_dict (processHash (sy_nf s))) q = Some a" for q a
  proof -
    obtain p where p: "procs_of (sy_nf s) q = Some p" using known_address [OF ok(1), of q] q by auto
    then have "cells h a = Some (analyseStats tm 5 p)" using an [rule_format, of q] q by (simp add: procs_of_def procs_def dict)
    moreover have "TrafficStats (analyseStats tm 5 p) = Some (window_stats tm 5 (L q))"
      using logged_remembers [OF assms(1) p] assms(3) by (intro remembers_stats) auto
    ultimately show ?thesis by simp
  qed
  have "reported s L tm ?in ?out" "length prank = (if \<forall>pid. procs_of (sy_nf s) pid = None then 0 else 1)"
    using top_busiest [OF ok(1) top [unfolded recentRankLimit_def]] stats by blast+
  then show thesis using that [OF rank, of ?in ?out] tick by auto
qed


text \<open>Below \<open>2 ^ 53\<close> bytes the rates are the bytes themselves.\<close>

lemma tick_reports_busiest:
  assumes "logged s L" "procs_of (sy_nf s) some \<noteq> None" "range_order ord" "sy_now s \<le> tm"
    and small: "\<forall>pid side. procs_of (sy_nf s) pid \<noteq> None \<longrightarrow>
      0 \<le> recent_bytes (L pid) tm side \<and> recent_bytes (L pid) tm side < 2 ^ 53"
  obtains pid row pm h where
    "processRanking_tick pr net ord (\<lambda>_. tm) t now c (processHash (sy_nf s), heap (sy_nf s)) =
     Ret (Some ([row], reportHandler net t now c (recent_bytes (L pid) tm inputSide div 5)
            (recent_bytes (L pid) tm outputSide div 5)), pm, h)"
    "procs_of (sy_nf s) pid \<noteq> None"
    "\<forall>q. procs_of (sy_nf s) q \<noteq> None \<longrightarrow> recent_total (L q) tm \<le> recent_total (L pid) tm"
proof -
  obtain prank pm h inb outb where
    "GetProcessRank ord (\<lambda>_. tm) recentRankLimit 5 (processHash (sy_nf s), heap (sy_nf s)) = Ret (Inr prank, pm, h)"
    and rep: "reported s L tm inb outb"
    and tick: "\<forall>pr net t now c. \<exists>rows.
       length rows = (if \<forall>pid. procs_of (sy_nf s) pid = None then 0 else 1) \<and>
       processRanking_tick pr net ord (\<lambda>_. tm) t now c (processHash (sy_nf s), heap (sy_nf s)) =
         Ret (Some (rows, reportHandler net t now c inb outb), pm, h)"
    by (rule tick_reports [OF assms(1,3,4)])
  have some: "\<not> (\<forall>pid. procs_of (sy_nf s) pid = None)" using assms(2) by metis
  then obtain pid where pid: "busiest s L tm pid" "inb = st_InRate (window_stats tm 5 (L pid))"
    "outb = st_OutRate (window_stats tm 5 (L pid))"
    using rep unfolding reported_def by metis
  note w = window_stats_small [of "L q" tm for q]
  have in_table: "procs_of (sy_nf s) pid \<noteq> None" using pid(1) by (simp add: busiest_def)
  have rates: "inb = recent_bytes (L pid) tm inputSide div 5" "outb = recent_bytes (L pid) tm outputSide div 5"
    using w(1,2) [of pid] small in_table pid(2,3) by simp_all
  have total: "stats_total (window_stats tm 5 (L q)) = recent_total (L q) tm" if "procs_of (sy_nf s) q \<noteq> None" for q
    using w(3) [of q] small that by blast
  have "recent_total (L q) tm \<le> recent_total (L pid) tm" if q: "procs_of (sy_nf s) q \<noteq> None" for q
    unfolding total [OF q, symmetric] total [OF in_table, symmetric] using pid(1) q unfolding busiest_def by blast
  moreover obtain row where "processRanking_tick pr net ord (\<lambda>_. tm) t now c (processHash (sy_nf s), heap (sy_nf s)) =
     Ret (Some ([row], reportHandler net t now c inb outb), pm, h)"
    using tick [rule_format, of pr net t now c] some by (auto simp: length_Suc_conv)
  ultimately show thesis using that in_table rates by blast
qed

end
