(* ===== verification/AgentRun.thy ===== *)
theory AgentRun
  imports Service EndToEnd
begin

text \<open>
  The whole agent of core/blocking.go while it runs: the library, its goroutines and the operating system
  (\<open>sys_step\<close>), the signals, the timeout and the ticker (\<open>service_step\<close>), and what connects them. A tick
  ranks the processes of the library and sends a request; the end of \<open>Start\<close> stops the library.
\<close>

record agent_state =
  ag_sys :: sys
  ag_service :: service
  ag_requests :: "http_request list"   \<comment> \<open>sent by \<open>reportHandler\<close>, in order\<close>

definition agent_begin :: "time \<Rightarrow> netflow \<Rightarrow> agent_state" where
  "agent_begin now nf = \<lparr>ag_sys = sys_start now nf, ag_service = service_start, ag_requests = []\<rparr>"

text \<open>
  A tick sends the request \<open>rq\<close> if, whatever the terminal and the network are, its outcome is what the
  client makes of the answer to \<open>rq\<close>. The deferred \<open>nf.Stop()\<close> runs when \<open>Start\<close> returns, but not when
  \<open>log.Fatal\<close> kills the process.
\<close>

inductive agent_step :: "config \<Rightarrow> agent_state \<Rightarrow> agent_state \<Rightarrow> bool" for c where
  library: "sv_main (ag_service a) \<Longrightarrow> sys_step (ag_sys a) s \<Longrightarrow> agent_step c a (a\<lparr>ag_sys := s\<rparr>)"
| service: "service_step False (ag_service a) v \<Longrightarrow> sv_reports v = sv_reports (ag_service a) \<Longrightarrow> sv_main v \<Longrightarrow>
    agent_step c a (a\<lparr>ag_service := v\<rparr>)"
| ending: "service_step False (ag_service a) v \<Longrightarrow> \<not> sv_main v \<Longrightarrow> sv_cancelled v \<Longrightarrow>
    agent_step c a (a\<lparr>ag_service := v, ag_sys := (ag_sys a)\<lparr>sy_nf := Stop (sy_nf (ag_sys a))\<rparr>\<rparr>)"
| killed: "sv_main (ag_service a) \<Longrightarrow> agent_step c a (a\<lparr>ag_service := (ag_service a)\<lparr>sv_main := False\<rparr>\<rparr>)"
| report: "service_step False (ag_service a) v \<Longrightarrow> sv_reports v = sv_reports (ag_service a) + 1 \<Longrightarrow>
    range_order ord \<Longrightarrow> now = sy_now (ag_sys a) \<Longrightarrow>
    \<forall>pr net. \<exists>rows.
      processRanking_tick pr net ord (\<lambda>_. now) (unix now) (unix now) c
        (processHash (sy_nf (ag_sys a)), heap (sy_nf (ag_sys a))) = Ret (Some (rows, answer_to net rq), pm, h) \<Longrightarrow>
    agent_step c a (a\<lparr>ag_service := v,
      ag_sys := (ag_sys a)\<lparr>sy_nf := (sy_nf (ag_sys a))\<lparr>processHash := pm, heap := h\<rparr>\<rparr>,
      ag_requests := ag_requests a @ [rq]\<rparr>)"

text \<open>
  The runs of the agent: the states it has passed, first to last, each with the log the library's run up
  to it has (\<open>log_step\<close>, from what the library has handled; neither the rings nor the requests play a
  part in it).
\<close>

inductive agent_path :: "device list option \<Rightarrow> config \<Rightarrow> (agent_state \<times> (string \<Rightarrow> event list)) list \<Rightarrow> bool"
  for devices c where
  start: "core_Start devices create_err cgroup_err c = Serving nf \<Longrightarrow>
    agent_path devices c [(agent_begin now nf, \<lambda>_. [])]"
| step: "agent_path devices c (path @ [(a, L)]) \<Longrightarrow> agent_step c a a' \<Longrightarrow>
    L' = (if ag_sys a' = ag_sys a then L else log_step (ag_sys a) (ag_sys a') L) \<Longrightarrow>
    agent_path devices c (path @ [(a, L), (a', L')])"

text \<open>The request is the report of this very state.\<close>

definition reports_now :: "config \<Rightarrow> sys \<Rightarrow> (string \<Rightarrow> event list) \<Rightarrow> http_request \<Rightarrow> bool" where
  "reports_now c s L rq \<longleftrightarrow> (\<exists>inb outb. reported s L (sy_now s) inb outb \<and>
     (\<forall>net. reportHandler net (unix (sy_now s)) (unix (sy_now s)) c inb outb = answer_to net rq))"

lemma service_step_reports:
  "service_step core2 v v' \<Longrightarrow> sv_reports v' = sv_reports v + 1 \<Longrightarrow> sv_main v'"
  "service_step core2 v v' \<Longrightarrow> \<not> sv_main v' \<Longrightarrow> sv_reports v' = sv_reports v"
  by (erule service_stepE; simp split: if_splits)+

lemma tick_request:
  assumes "logged s L" "range_order ord"
    and tick: "\<forall>pr net. \<exists>rows.
      processRanking_tick pr net ord (\<lambda>_. sy_now s) (unix (sy_now s)) (unix (sy_now s)) c
        (processHash (sy_nf s), heap (sy_nf s)) = Ret (Some (rows, answer_to net rq), pm, h)"
  shows "reports_now c s L rq" and "sys_step s (s\<lparr>sy_nf := (sy_nf s)\<lparr>processHash := pm, heap := h\<rparr>\<rparr>)"
proof -
  obtain prank pm1 h1 inb outb where
    rank: "GetProcessRank ord (\<lambda>_. sy_now s) recentRankLimit 5 (processHash (sy_nf s), heap (sy_nf s)) = Ret (Inr prank, pm1, h1)"
    and rep: "reported s L (sy_now s) inb outb"
    and sent: "\<forall>pr net t now c. \<exists>rows.
       length rows = (if \<forall>pid. procs_of (sy_nf s) pid = None then 0 else 1) \<and>
       processRanking_tick pr net ord (\<lambda>_. sy_now s) t now c (processHash (sy_nf s), heap (sy_nf s)) =
         Ret (Some (rows, reportHandler net t now c inb outb), pm1, h1)"
    by (rule tick_reports [OF assms(1,2) order_refl])
  have both: "reportHandler net (unix (sy_now s)) (unix (sy_now s)) c inb outb = answer_to net rq \<and> pm = pm1 \<and> h = h1" for net
    using tick [rule_format, of undefined net] sent [rule_format, of undefined net "unix (sy_now s)" "unix (sy_now s)" c]
    by auto
  then show "reports_now c s L rq" using rep unfolding reports_now_def by blast
  show "sys_step s (s\<lparr>sy_nf := (sy_nf s)\<lparr>processHash := pm, heap := h\<rparr>\<rparr>)"
    using sys_step.rank [OF assms(2) rank] both by simp
qed

text \<open>A step of the agent is a step of the library or leaves it alone; the same for the goroutines.\<close>

lemma agent_step_refines:
  assumes "agent_step c a a'" "logged (ag_sys a) L"
  shows "(ag_sys a' = ag_sys a \<or> sys_step (ag_sys a) (ag_sys a')) \<and>
    (ag_service a' = ag_service a \<or> service_step False (ag_service a) (ag_service a')) \<and>
    (ag_requests a' = ag_requests a \<and> sv_reports (ag_service a') = sv_reports (ag_service a) \<or>
     (\<exists>rq. ag_requests a' = ag_requests a @ [rq] \<and> reports_now c (ag_sys a) L rq \<and>
       sv_reports (ag_service a') = sv_reports (ag_service a) + 1))"
  using assms(1)
proof cases
  case (library s)
  then show ?thesis by auto
next
  case (service v)
  then show ?thesis by simp
next
  case (ending v)
  then show ?thesis using sys_step.stop [of "ag_sys a"] service_step_reports(2) by auto
next
  case killed
  then show ?thesis using service_step.pprof [of "ag_service a" False] by simp
next
  case (report v ord now rq pm h)
  then show ?thesis using tick_request [OF assms(2) report(4) report(6) [unfolded report(5)]] by auto
qed

lemma agent_path_states:
  "agent_path devices c path \<Longrightarrow> path \<noteq> [] \<and> ag_requests (fst (hd path)) = [] \<and>
     (\<forall>(a, L)\<in>set path. logged (ag_sys a) L \<and> serves False (ag_service a))"
proof (induction rule: agent_path.induct)
  case (start create_err cgroup_err nf now)
  obtain nf0 nf1 where "New devices (start_options c) = Inr nf0" "Start create_err cgroup_err nf0 = (None, nf1)"
    "core_Start devices create_err cgroup_err c = Serving nf1"
    by (rule core_Start_serves [of devices c create_err cgroup_err])
  with start have "logged (sys_start now nf) (\<lambda>_. [])"
    using logged.start [OF _ start_options_library] by auto
  then show ?case by (simp add: agent_begin_def serves.start)
next
  case (step path a L a' L')
  then have log: "logged (ag_sys a) L" "serves False (ag_service a)" by simp_all
  note ref = agent_step_refines [OF step(2) log(1)]
  have "logged (ag_sys a') L'" using ref log(1) step(3) by (auto intro: logged.step)
  moreover have "serves False (ag_service a')" using ref log(2) serves.step by metis
  moreover have "hd (path @ [(a, L), (a', L')]) = hd (path @ [(a, L)])" by (cases path) simp_all
  ultimately show ?case using step.IH by simp
qed

text \<open>Each step sends the report of the state it starts from, or nothing.\<close>

lemma agent_path_sends:
  "agent_path devices c path \<Longrightarrow> Suc i < length path \<Longrightarrow> path ! i = (a, L) \<Longrightarrow> path ! Suc i = (a', L') \<Longrightarrow>
     ag_requests a' = ag_requests a \<and> sv_reports (ag_service a') = sv_reports (ag_service a) \<or>
     (\<exists>rq. ag_requests a' = ag_requests a @ [rq] \<and> reports_now c (ag_sys a) L rq \<and>
       sv_reports (ag_service a') = sv_reports (ag_service a) + 1)"
proof (induction rule: agent_path.induct)
  case (step path b M b' M')
  show ?case
  proof (cases "Suc i < length (path @ [(b, M)])")
    case True
    then show ?thesis using step.IH step.prems by (auto simp: nth_append split: if_splits)
  next
    case False
    then have "i = length path" using step.prems(1) by simp
    then have "a = b" "L = M" "a' = b'" using step.prems(2,3) by (simp_all add: nth_append)
    moreover have "logged (ag_sys b) M" using agent_path_states [OF step(1)] by simp
    ultimately show ?thesis using agent_step_refines [OF step(2)] by blast
  qed
qed simp

text \<open>What such a request says, read by the receiver.\<close>

lemma reports_now_body:
  assumes "reports_now c s L rq"
  obtains inb outb body where "reported s L (sy_now s) inb outb" "rq_method rq = ''POST''" "rq_body rq = Some body"
    "Unmarshal (data_t (TSlice MonitorInfo_t)) body (zero (data_t (TSlice MonitorInfo_t))) =
      (VStruct [VSlice [VStruct [VFloat 0, VFloat 0, VFloat (ConvertToMB inb), VFloat 0, VInt (adjustedTime (unix (sy_now s))),
         VFloat (ConvertToMB outb)]]], None)"
proof -
  obtain inb outb where rep: "reported s L (sy_now s) inb outb"
    and "\<forall>net. reportHandler net (unix (sy_now s)) (unix (sy_now s)) c inb outb = answer_to net rq"
    using assms unfolding reports_now_def by blast
  then have rq: "rq = report_request (unix (sy_now s)) c [report_info (unix (sy_now s)) inb outb]"
    by (intro answer_to_inject) (simp add: reportHandler_request)
  have "in_int64 inb \<and> in_int64 outb"
    using rep wrap64_range by (auto simp: reported_def window_stats_def Let_def quot64_def split: if_splits)
  then have ok: "in_int64 inb" "in_int64 outb" by simp_all
  obtain body where b: "rq_body rq = Some body"
    by (simp add: rq report_request_def build_request_def monitor_body_def data_body_tree split_def)
  show thesis
    by (rule that [OF rep _ b])
      (use report_body_read [OF ok b [unfolded rq]] in
        \<open>simp_all add: rq report_request_def build_request_def split_def monitor_value_def report_info_def\<close>)
qed

text \<open>As long as the ranking has not been cancelled, a tick can report: it neither panics nor waits.\<close>

lemma agent_tick_enabled:
  assumes "logged (ag_sys a) L" "sv_main (ag_service a)" "sv_ranker (ag_service a) = Selecting"
  obtains a' rq where "agent_step c a a'" "ag_requests a' = ag_requests a @ [rq]" "sv_main (ag_service a')"
proof -
  have ord: "range_order (\<lambda>m. m)" by (simp add: range_order_def)
  obtain prank pm h inb outb where
    "GetProcessRank (\<lambda>m. m) (\<lambda>_. sy_now (ag_sys a)) recentRankLimit 5
       (processHash (sy_nf (ag_sys a)), heap (sy_nf (ag_sys a))) = Ret (Inr prank, pm, h)"
    "reported (ag_sys a) L (sy_now (ag_sys a)) inb outb"
    and sent: "\<forall>pr net t now c. \<exists>rows.
       length rows = (if \<forall>pid. procs_of (sy_nf (ag_sys a)) pid = None then 0 else 1) \<and>
       processRanking_tick pr net (\<lambda>m. m) (\<lambda>_. sy_now (ag_sys a)) t now c
         (processHash (sy_nf (ag_sys a)), heap (sy_nf (ag_sys a))) =
         Ret (Some (rows, reportHandler net t now c inb outb), pm, h)"
    by (rule tick_reports [OF assms(1) ord order_refl])
  let ?v = "(ag_service a)\<lparr>sv_ranked := sv_ranked (ag_service a) + 1, sv_reports := sv_reports (ag_service a) + 1\<rparr>"
  let ?t = "unix (sy_now (ag_sys a))"
  have "service_step False (ag_service a) ?v" by (rule service_step.tick [OF assms(2,3)]) simp
  moreover have "\<forall>pr net. \<exists>rows.
      processRanking_tick pr net (\<lambda>m. m) (\<lambda>_. sy_now (ag_sys a)) ?t ?t c
        (processHash (sy_nf (ag_sys a)), heap (sy_nf (ag_sys a))) =
      Ret (Some (rows, answer_to net (report_request ?t c [report_info ?t inb outb])), pm, h)"
    using sent unfolding reportHandler_request by blast
  ultimately have "agent_step c a (a\<lparr>ag_service := ?v,
      ag_sys := (ag_sys a)\<lparr>sy_nf := (sy_nf (ag_sys a))\<lparr>processHash := pm, heap := h\<rparr>\<rparr>,
      ag_requests := ag_requests a @ [report_request ?t c [report_info ?t inb outb]]\<rparr>)"
    using ord by (intro agent_step.report) simp_all
  then show thesis by (rule that) (simp_all add: assms(2))
qed

end
