(* ===== verification/Core2.thy ===== *)
theory Core2
  imports Report
begin

text \<open>
  What core2/blocking.go does differently from core: its options, and a table that is a loop of its own
  around a traffic monitor of one port.
\<close>

section \<open>What core2 repeats\<close>

text \<open>core2 has its own copies of functions of core, which compute the same.\<close>

definition formatRates2 :: "presenter \<Rightarrow> int \<Rightarrow> int \<Rightarrow> string \<times> string" where
  "formatRates2 pr inRate outRate =
     (let inRateStr = format_fixed 2 (fdiv (fdiv (float64_of_int (wrap64 (inRate * 8))) 1000) 1000) @ '' Mbit/s'';
          inRateStr = (if Thold < inRate then color_Red pr inRateStr else inRateStr);
          outRateStr = format_fixed 2 (fdiv (fdiv (float64_of_int (wrap64 (outRate * 8))) 1000) 1000) @ '' Mbit/s'';
          outRateStr = (if Thold < outRate then color_Red pr outRateStr else outRateStr)
      in (inRateStr, outRateStr))"

definition ConvertToMB2 :: "int \<Rightarrow> rat" where
  "ConvertToMB2 bytes = reparse_fixed 4 (fdiv (fdiv (fmul (float64_of_int bytes) 8) 1000) 1000)"

definition reportHandler2 :: "transport \<Rightarrow> int \<Rightarrow> int \<Rightarrow> config \<Rightarrow> int \<Rightarrow> int \<Rightarrow> rpc_error option" where
  "reportHandler2 net timestamp now c inb outb =
     (let adjustedTime = wrap64 (quot64 timestamp 60 * 60);
          down = ConvertToMB2 inb;
          up = ConvertToMB2 outb;
          testMonitorInfo =
            [\<lparr>CPUUsage = 0, DiskUsage = 0, DownBandwidth = down, MemUsage = 0,
              mi_Timestamp = adjustedTime, UpBandwidth = up\<rparr>];
          urlProvider =
            \<lparr>up_ServerEndpoint = ServerEndpoint (Agent c),
             CommonHeaders = \<lparr>ImageVersion = '''', ch_DeviceId = DeviceId (Agent c), ch_BizType = BizType (Agent c),
               Ak = AppKey (Agent c), As = AppSecret (Agent c), Auth = None\<rparr>\<rparr>
      in ReportMonitorInfo net now urlProvider testMonitorInfo)"

lemma core2_copies [simp]:
  "formatRates2 = formatRates" "ConvertToMB2 = ConvertToMB" "reportHandler2 = reportHandler"
proof -
  show mb: "ConvertToMB2 = ConvertToMB" by (simp add: fun_eq_iff ConvertToMB2_def ConvertToMB_def)
  show "formatRates2 = formatRates"
    by (simp add: fun_eq_iff formatRates2_def formatRates_def rate_text_def Let_def)
  show "reportHandler2 = reportHandler"
    by (simp add: fun_eq_iff reportHandler2_def reportHandler_def report_info_def report_provider_def adjustedTime_def mb Let_def)
qed

section \<open>Options and one turn of the table\<close>

definition StartOut_options :: "config \<Rightarrow> optionFunc list" where
  "StartOut_options c = [WithName (Nethogs c), WithCaptureTimeout (12 * 30 * 24 * 60 * minute)]"

definition StartOut ::
  "device list option \<Rightarrow> go_error option \<Rightarrow> go_error option \<Rightarrow> config \<Rightarrow> start_outcome" where
  "StartOut devices create_err cgroup_err c =
     (case New devices (StartOut_options c) of
        Inl err \<Rightarrow> Fatal ''Failed to create netflow instance'' err
      | Inr nf \<Rightarrow>
          (case Start create_err cgroup_err nf of
             (Some err, nf) \<Rightarrow> Fatal ''Failed to core netflow instance'' err
           | (None, nf) \<Rightarrow> Serving nf))"

definition set_OutRate :: "int \<Rightarrow> process \<Rightarrow> process" where
  "set_OutRate r p = p\<lparr>TrafficStats := map_option (\<lambda>st. st\<lparr>st_OutRate := r\<rparr>) (TrafficStats p)\<rparr>"

text \<open>The rows of one turn: the upload of the port is stored into every process, which are shared objects.\<close>

fun table2_loop ::
  "presenter \<Rightarrow> int \<Rightarrow> addr list \<Rightarrow> store \<times> string list list \<times> int \<times> int \<Rightarrow>
   (store \<times> string list list \<times> int \<times> int) go" where
  "table2_loop pr uploadTraffic [] acc = Ret acc"
| "table2_loop pr uploadTraffic (a # ps) (h, items, inb, outb) =
     (case cells h a of
        None \<Rightarrow> Panic
      | Some po \<Rightarrow>
          (case TrafficStats (set_OutRate (quot64 uploadTraffic 60) po) of
             None \<Rightarrow> Panic
           | Some st \<Rightarrow>
               table2_loop pr uploadTraffic ps
                 (heap_map a (set_OutRate (quot64 uploadTraffic 60)) h, items @ [table_row pr po st],
                  wrap64 (inb + st_InRate st), wrap64 (outb + st_OutRate st))))"

definition table2_tick ::
  "presenter \<Rightarrow> transport \<Rightarrow> int \<Rightarrow> int \<Rightarrow> config \<Rightarrow> addr list \<Rightarrow> store \<times> trafficMonitor \<Rightarrow>
   ((string list list \<times> rpc_error option) \<times> store \<times> trafficMonitor) go" where
  "table2_tick pr net t now c ps s =
     (case GetUploadTraffic (snd s) of
        (uploadTraffic, tm) \<Rightarrow>
          go_bind
            (if ps = []
             then
               (let OutRate = quot64 uploadTraffic 60 in
                case formatRates2 pr 0 OutRate of
                  (inRate, outRate) \<Rightarrow>
                    Ret (fst s, [[''0'', ''9080'', ''fileServer'', ''1'', ''0'', ''0'', inRate, outRate]], 0, OutRate))
             else table2_loop pr uploadTraffic ps (fst s, [], 0, 0))
            (\<lambda>(h, items, inb, outb). Ret ((items, reportHandler2 net t now c inb outb), h, tm)))"

text \<open>The table before its loop: the monitor of port 9080, or the end of the process.\<close>

definition showTable2_monitor ::
  "(string + net_iface list) \<Rightarrow> (string \<Rightarrow> string option) \<Rightarrow> (string \<Rightarrow> string option) \<Rightarrow>
   monitor_error + trafficMonitor" where
  "showTable2_monitor interfaces open_live bpf_error =
     NewTrafficMonitor interfaces open_live bpf_error '''' ''9080''"

definition processRanking2_rank ::
  "((string, addr) gomap \<Rightarrow> (string, addr) gomap) \<Rightarrow> (string \<Rightarrow> time) \<Rightarrow> processController \<times> store \<Rightarrow>
   ((go_error + addr list) \<times> processController \<times> store) go" where
  "processRanking2_rank ord clk s = GetProcessRank ord clk recentRankLimit 60 s"

text \<open>Each process listed counts the whole upload of the port.\<close>

lemma heap_map_stats: "has_stats h b \<Longrightarrow> has_stats (heap_map a (set_OutRate r) h) b"
  by (auto simp: has_stats_def heap_map_def set_OutRate_def split: option.splits)

lemma table2_loop_total:
  assumes "\<forall>a\<in>set ps. has_stats h a"
  shows "\<exists>h' rows inb. table2_loop pr up ps (h, items, a, wrap64 b) =
     Ret (h', items @ rows, inb, wrap64 (b + int (length ps) * quot64 up 60)) \<and> length rows = length ps"
  using assms
proof (induction ps arbitrary: h items a b)
  case Nil
  show ?case by simp
next
  case (Cons p ps)
  then obtain po st where p: "cells h p = Some po" "TrafficStats po = Some st"
    by (auto simp: has_stats_def split: option.splits)
  let ?st = "st\<lparr>st_OutRate := quot64 up 60\<rparr>"
  let ?h = "heap_map p (set_OutRate (quot64 up 60)) h"
  have "\<forall>a\<in>set ps. has_stats ?h a" using Cons.prems heap_map_stats by simp
  from Cons.IH [OF this, of "items @ [table_row pr po ?st]" "wrap64 (a + st_InRate st)" "b + quot64 up 60"]
  obtain h' rows inb where r: "table2_loop pr up ps (?h, items @ [table_row pr po ?st], wrap64 (a + st_InRate st), wrap64 (b + quot64 up 60)) =
      Ret (h', (items @ [table_row pr po ?st]) @ rows, inb, wrap64 (b + quot64 up 60 + int (length ps) * quot64 up 60))"
    "length rows = length ps" by blast
  have "table2_loop pr up (p # ps) (h, items, a, wrap64 b) =
      Ret (h', items @ (table_row pr po ?st # rows), inb, wrap64 (b + int (length (p # ps)) * quot64 up 60))"
    using r(1) p by (simp add: set_OutRate_def algebra_simps)
  then show ?case using r(2) by (metis length_Cons)
qed


section \<open>The loop of the table, and the ranking before it\<close>

text \<open>
  What the goroutines of the monitor do between two ticks: packets are forwarded and counted. A tick is
  given with what happened before it, the clock and the time of the request. \<open>None\<close>: the schedule
  cannot happen (a packet is counted that is not there, or forwarded into a full channel).
\<close>

fun background :: "monitor_op \<Rightarrow> bool" where
  "background (Forward _) = True"
| "background Count = True"
| "background Reading = False"
| "background CloseOp = False"

type_synonym table_tick = "monitor_op list \<times> int \<times> int"

fun showTable2 ::
  "presenter \<Rightarrow> transport \<Rightarrow> config \<Rightarrow> addr list \<Rightarrow> table_tick list \<Rightarrow> store \<times> trafficMonitor \<Rightarrow>
   ((string list list \<times> rpc_error option) list \<times> store \<times> trafficMonitor) go option" where
  "showTable2 pr net c ps [] s = Some (Ret ([], s))"
| "showTable2 pr net c ps ((ops, t, now) # ticks) (h, tm) =
     (case monitor_run ops tm of
        None \<Rightarrow> None
      | Some (_, tm) \<Rightarrow>
          (case table2_tick pr net t now c ps (h, tm) of
             Panic \<Rightarrow> Some Panic
           | Ret (res, s) \<Rightarrow>
               map_option (\<lambda>r. go_bind r (\<lambda>(rs, s). Ret (res # rs, s))) (showTable2 pr net c ps ticks s)))"

text \<open>One turn of \<open>processRanking\<close>; the table does not come back from its loop, so there is one at most.\<close>

datatype ranking_turn =
    Skipped go_error
  | NoMonitor monitor_error
  | Shown "(string list list \<times> rpc_error option) list" store trafficMonitor

definition processRanking2 ::
  "presenter \<Rightarrow> transport \<Rightarrow> ((string, addr) gomap \<Rightarrow> (string, addr) gomap) \<Rightarrow> (string \<Rightarrow> time) \<Rightarrow>
   monitor_error + trafficMonitor \<Rightarrow> table_tick list \<Rightarrow> config \<Rightarrow> processController \<times> store \<Rightarrow>
   ranking_turn go option" where
  "processRanking2 pr net ord clk monitor ticks c s =
     (case processRanking2_rank ord clk s of
        Panic \<Rightarrow> Some Panic
      | Ret (Inl err, _) \<Rightarrow> Some (Ret (Skipped err))
      | Ret (Inr rank, _, h) \<Rightarrow>
          (case monitor of
             Inl err \<Rightarrow> Some (Ret (NoMonitor err))
           | Inr tm \<Rightarrow>
               map_option (\<lambda>r. go_bind r (\<lambda>(rs, h, tm). Ret (Shown rs h tm)))
                 (showTable2 pr net c rank ticks (h, tm))))"

section \<open>What the reports of core2 say\<close>

text \<open>The operations on the monitor that a run of the table makes.\<close>

definition table_ops :: "table_tick list \<Rightarrow> monitor_op list" where
  "table_ops ticks = concat (map (\<lambda>(ops, _). ops @ [Reading]) ticks)"

lemma table_ops_simps [simp]:
  "table_ops [] = []" "table_ops ((ops, tn) # ticks) = (ops @ [Reading]) @ table_ops ticks"
  by (simp_all add: table_ops_def)

lemma monitor_run_append:
  "monitor_run (xs @ ys) tm =
     (case monitor_run xs tm of
        None \<Rightarrow> None
      | Some (ns, tm1) \<Rightarrow> map_option (\<lambda>(ms, tm2). (ns @ ms, tm2)) (monitor_run ys tm1))"
proof (induction xs arbitrary: tm)
  case Nil
  show ?case by (cases "monitor_run ys tm") auto
next
  case (Cons op xs)
  then show ?case by (cases "monitor_run ys tm") (auto simp: option.map_comp comp_def split_beta split: option.splits)
qed

lemma background_run: "list_all background ops \<Longrightarrow> monitor_run ops tm = Some (ns, tm') \<Longrightarrow> ns = []"
proof (induction ops arbitrary: tm ns)
  case (Cons op ops)
  then show ?case by (cases op) (auto split: option.splits)
qed simp

text \<open>The download a table shows: the rate of the process ranked first, as of the ranking.\<close>

definition ranked_in :: "store \<Rightarrow> addr list \<Rightarrow> int" where
  "ranked_in h ps = (case ps of [] \<Rightarrow> 0 | a # _ \<Rightarrow> wrap64 (st_InRate (stats_of (the (cells h a)))))"

lemma wrap64_quot64 [simp]: "wrap64 (quot64 a b) = quot64 a b"
  by (simp add: quot64_def)

text \<open>One tick, for a ranking of at most one process.\<close>

lemma table2_tick_result:
  assumes "length ps \<le> 1" "\<forall>a\<in>set ps. has_stats h a"
  obtains rows h' where
    "table2_tick pr net t now c ps (h, tm) =
       Ret ((rows, reportHandler net t now c (ranked_in h ps) (quot64 (TotalTxBytes tm) 60)), h', tm\<lparr>TotalTxBytes := 0\<rparr>)"
    "length rows = 1" "\<forall>a\<in>set ps. has_stats h' a" "ranked_in h' ps = ranked_in h ps"
proof (cases ps)
  case Nil
  show thesis
    by (rule that [of "[[''0'', ''9080'', ''fileServer'', ''1'', ''0'', ''0'', fst (formatRates pr 0 (quot64 (TotalTxBytes tm) 60)),
        snd (formatRates pr 0 (quot64 (TotalTxBytes tm) 60))]]" h])
      (simp_all add: Nil table2_tick_def GetUploadTraffic_def ranked_in_def Let_def split: prod.split)
next
  case (Cons a as)
  then have ps: "ps = [a]" using assms(1) by simp
  then obtain po st where p: "cells h a = Some po" "TrafficStats po = Some st"
    using assms(2) by (auto simp: has_stats_def split: option.splits)
  let ?r = "quot64 (TotalTxBytes tm) 60"
  show thesis
    by (rule that [of "[table_row pr po (st\<lparr>st_OutRate := ?r\<rparr>)]" "heap_map a (set_OutRate ?r) h"])
      (simp_all add: ps p table2_tick_def GetUploadTraffic_def ranked_in_def set_OutRate_def stats_of_def
        has_stats_def heap_map_def)
qed

lemma showTable2_result:
  assumes "length ps \<le> 1" "\<forall>a\<in>set ps. has_stats h a" "\<forall>tick\<in>set ticks. list_all background (fst tick)"
    and "monitor_run (table_ops ticks) tm = Some (readings, tm')"
  shows "\<exists>rs h'. showTable2 pr net c ps ticks (h, tm) = Some (Ret (rs, h', tm')) \<and> length readings = length ticks \<and>
    map snd rs = map2 (\<lambda>(_, t, now) up. reportHandler net t now c (ranked_in h ps) (quot64 up 60)) ticks readings"
  using assms(2-4)
proof (induction ticks arbitrary: h tm readings)
  case (Cons tick ticks)
  obtain ops t now where tick: "tick = (ops, t, now)" by (cases tick)
  obtain ns tm1 rest where run: "monitor_run ops tm = Some (ns, tm1)"
    and more: "monitor_run (table_ops ticks) (tm1\<lparr>TotalTxBytes := 0\<rparr>) = Some (rest, tm')"
      "readings = ns @ TotalTxBytes tm1 # rest"
    using Cons.prems(3) by (auto simp: tick monitor_run_append GetUploadTraffic_def split: option.splits)
  have ns: "ns = []" using background_run [OF _ run] Cons.prems(2) by (simp add: tick)
  obtain rows h1 where turn: "table2_tick pr net t now c ps (h, tm1) =
      Ret ((rows, reportHandler net t now c (ranked_in h ps) (quot64 (TotalTxBytes tm1) 60)), h1, tm1\<lparr>TotalTxBytes := 0\<rparr>)"
    and h1: "\<forall>a\<in>set ps. has_stats h1 a" "ranked_in h1 ps = ranked_in h ps"
    by (rule table2_tick_result [OF assms(1) Cons.prems(1)])
  from Cons.IH [OF h1(1) _ more(1)] Cons.prems(2) obtain rs h' where
    "showTable2 pr net c ps ticks (h1, tm1\<lparr>TotalTxBytes := 0\<rparr>) = Some (Ret (rs, h', tm'))"
    "length rest = length ticks"
    "map snd rs = map2 (\<lambda>(_, t, now) up. reportHandler net t now c (ranked_in h1 ps) (quot64 up 60)) ticks rest"
    by auto
  then show ?case by (simp add: tick run turn more(2) ns h1(2))
qed simp

lemma forwarded_append [simp]: "forwarded (xs @ ys) = forwarded xs @ forwarded ys"
  by (induction xs rule: forwarded.induct) simp_all

lemma forwarded_table_ops: "forwarded (table_ops ticks) = concat (map (\<lambda>tick. forwarded (fst tick)) ticks)"
  by (induction ticks) auto

text \<open>
  The download of a ranking over 60 seconds: the rate of a process no other has a larger total than, as
  \<open>analyseStats\<close> gives them, or 0 without a process.
\<close>

definition minute_stats :: "(string \<Rightarrow> time) \<Rightarrow> string \<Rightarrow> process \<Rightarrow> trafficStatsEntry" where
  "minute_stats clk pid p = stats_of (analyseStats (clk pid) 60 p)"

definition ranked_download :: "(string \<Rightarrow> time) \<Rightarrow> (string \<Rightarrow> process option) \<Rightarrow> int \<Rightarrow> bool" where
  "ranked_download clk ps inb \<longleftrightarrow>
     (if \<forall>pid. ps pid = None then inb = 0
      else \<exists>pid p. ps pid = Some p \<and> inb = st_InRate (minute_stats clk pid p) \<and>
        (\<forall>q po. ps q = Some po \<longrightarrow> stats_total (minute_stats clk q po) \<le> stats_total (minute_stats clk pid p)))"

lemma ranked_in_download:
  assumes "pc_ok pm h" "top_ranked h1 (dict_addrs pm) 1 prank" "pc_dict pm1 = pc_dict pm"
    and ok1: "pc_ok pm1 h1" "all_stats pm1 h1"
    and an: "\<forall>pid. procs pm1 h1 pid = map_option (analyseStats (clk pid) 60) (procs pm h pid)"
  shows "ranked_download clk (procs pm h) (ranked_in h1 prank)"
proof (rule top_one [OF assms(1,2), where S = "\<lambda>q. minute_stats clk q (the (procs pm h q))"])
  fix q a
  assume q: "gm_get (pc_dict pm) q = Some a"
  then obtain p where p: "procs pm h q = Some p" using dict_iff_procs [OF assms(1), of q] by auto
  then have cell: "cells h1 a = Some (analyseStats (clk q) 60 p)" "procs pm1 h1 q = Some (analyseStats (clk q) 60 p)"
    using an [rule_format, of q] q by (simp_all add: procs_def assms(3))
  then show "cells h1 a \<noteq> None \<and> TrafficStats (the (cells h1 a)) = Some (minute_stats clk q (the (procs pm h q)))"
    using ok1(2) by (simp add: p minute_stats_def stats_of_def all_stats_def)
next
  assume "\<forall>pid. procs pm h pid = None" "prank = []"
  then show ?thesis by (simp add: ranked_download_def ranked_in_def)
next
  fix pid a
  assume one: "procs pm h pid \<noteq> None" "prank = [a]" "stats_of (the (cells h1 a)) = minute_stats clk pid (the (procs pm h pid))"
    "\<forall>q. procs pm h q \<noteq> None \<longrightarrow>
       stats_total (minute_stats clk q (the (procs pm h q))) \<le> stats_total (minute_stats clk pid (the (procs pm h pid)))"
  then obtain p where p: "procs pm h pid = Some p" by blast
  have "wrap64 (st_InRate (minute_stats clk pid p)) = st_InRate (minute_stats clk pid p)"
    by (simp add: minute_stats_def stats_of_def analyseStats_window Let_def)
  then have "ranked_in h1 prank = st_InRate (minute_stats clk pid p)" using one(2,3) by (simp add: ranked_in_def p)
  moreover have "\<not> (\<forall>pid. procs pm h pid = None)" using p by auto
  moreover have "stats_total (minute_stats clk q po) \<le> stats_total (minute_stats clk pid p)" if "procs pm h q = Some po" for q po
    using one(4) [rule_format, of q] that p by simp
  ultimately show ?thesis unfolding ranked_download_def using p by (simp only: if_False) blast
qed

text \<open>The whole of core2: one ranking, then a report per minute that accounts for the packets of the port.\<close>

lemma processRanking2_result:
  assumes "showTable2_monitor interfaces open_live bpf_error = Inr tm"
    and "pc_ok pm h" "all_stats pm h" "range_order ord"
    and "\<forall>tick\<in>set ticks. list_all background (fst tick)"
    and "monitor_run (table_ops ticks) tm = Some (readings, tm')"
  obtains rs h' inb where "processRanking2 pr net ord clk (Inr tm) ticks c (pm, h) = Some (Ret (Shown rs h' tm'))"
    "length readings = length ticks"
    "map snd rs = map2 (\<lambda>(_, t, now) up. reportHandler net t now c inb (quot64 up 60)) ticks readings"
    "wrap64 (sum_list readings + TotalTxBytes tm' + queued tm') =
     wrap64 (sum_list (map counted (concat (map (\<lambda>tick. forwarded (fst tick)) ticks))))"
    "ranked_download clk (procs pm h) inb"
proof -
  obtain prank pm1 h1 where rank: "GetProcessRank ord clk recentRankLimit 60 (pm, h) = Ret (Inr prank, pm1, h1)"
    and ok: "pc_ok pm1 h1" "all_stats pm1 h1" and top: "top_ranked h1 (dict_addrs pm) recentRankLimit prank"
    and pm1: "pm1 = pm\<lparr>sortedProcesses := sortedProcesses pm1\<rparr>"
    and an: "\<forall>pid. procs pm1 h1 pid = map_option (analyseStats (clk pid) 60) (procs pm h pid)"
    using GetProcessRank_result [OF assms(2-4), of recentRankLimit 60 clk]
    by (auto simp: recentRankLimit_def maxRingSize_def)
  have dict: "pc_dict pm1 = pc_dict pm" by (subst pm1) simp
  then have down: "ranked_download clk (procs pm h) (ranked_in h1 prank)"
    using ranked_in_download [OF assms(2) top [unfolded recentRankLimit_def] _ ok an] by simp
  have "dict_addrs pm1 = dict_addrs pm" using dict by (simp add: dict_addrs_def)
  then have "\<forall>a\<in>set prank. has_stats h1 a"
    using all_stats_has_stats [OF ok] top by (auto simp: top_ranked_def)
  moreover have "length prank \<le> 1" using top by (simp add: top_ranked_def recentRankLimit_def)
  ultimately obtain rs h' where res: "showTable2 pr net c prank ticks (h1, tm) = Some (Ret (rs, h', tm'))"
    "length readings = length ticks"
    "map snd rs = map2 (\<lambda>(_, t, now) up. reportHandler net t now c (ranked_in h1 prank) (quot64 up 60)) ticks readings"
    using showTable2_result [OF _ _ assms(5,6)] by metis
  have "TotalTxBytes tm = 0 \<and> queued tm = 0"
    using assms(1) by (auto simp: showTable2_monitor_def NewTrafficMonitor_def queued_def make_chan_def
        split: sum.splits option.splits if_splits)
  then have "wrap64 (sum_list readings + TotalTxBytes tm' + queued tm') =
     wrap64 (sum_list (map counted (concat (map (\<lambda>tick. forwarded (fst tick)) ticks))))"
    using monitor_run_conserves [OF assms(6)] by (simp add: forwarded_table_ops)
  moreover have "processRanking2 pr net ord clk (Inr tm) ticks c (pm, h) = Some (Ret (Shown rs h' tm'))"
    by (simp add: processRanking2_def processRanking2_rank_def rank res(1))
  ultimately show thesis using that [OF _ res(2,3) _ down] by blast
qed


end
