(* ===== verification/Cgroup.thy ===== *)
theory Cgroup
  imports Float64 Prelude
begin

text \<open>
  The cgroup limiter: cgroup_linux.go, which asks containerd for a group with a CPU quota and a memory
  limit, and cgroup_os.go, the stub of the other systems. What containerd answers is an argument: the
  error of creating the group for some resources, and of adding the process to it.
\<close>

text \<open>\<open>specs.LinuxResources\<close> as far as it is filled in.\<close>

record linuxResources =
  cpu_Period :: int
  cpu_Quota :: int
  memory_Limit :: "int option"

record cgroupsLimiter =
  controls :: "linuxResources list"

definition cpuUnit :: int where "cpuUnit = 10000"
definition memUnit :: int where "memUnit = 1024 * 1024 * 10 * 10"

text \<open>Conversion of a float to \<open>int64\<close> cuts the fraction; outside the range the result is not specified by Go.\<close>

definition int64_of_float :: "rat \<Rightarrow> int" where
  "int64_of_float x = (if x < 0 then - \<lfloor>- x\<rfloor> else \<lfloor>x\<rfloor>)"

definition limiter_resources :: "rat \<Rightarrow> int \<Rightarrow> linuxResources" where
  "limiter_resources core mbn =
     (let core = (if core \<le> 0 then 1 else core);
          mem = wrap64 (mbn * memUnit)
      in \<lparr>cpu_Period = 10000, cpu_Quota = int64_of_float (fmul core (of_int cpuUnit)),
          memory_Limit = (if mem \<noteq> 0 then Some mem else None)\<rparr>)"

definition configure ::
  "(linuxResources \<Rightarrow> 'e option) \<Rightarrow> (int \<Rightarrow> 'e option) \<Rightarrow> int \<Rightarrow> rat \<Rightarrow> int \<Rightarrow> cgroupsLimiter \<Rightarrow>
   'e option \<times> cgroupsLimiter" where
  "configure cgroups_New control_Add pid core mbn r =
     (let cfg = limiter_resources core mbn in
      case cgroups_New cfg of
        Some err \<Rightarrow> (Some err, r)
      | None \<Rightarrow> (control_Add pid, r\<lparr>controls := controls r @ [cfg]\<rparr>))"

text \<open>The groups \<open>free\<close> deletes, in order; its result is always nil.\<close>

definition free :: "cgroupsLimiter \<Rightarrow> linuxResources list" where
  "free r = controls r"

text \<open>cgroup_os.go.\<close>

definition configure_os :: "int \<Rightarrow> rat \<Rightarrow> int \<Rightarrow> string option" where
  "configure_os pid core mb = Some ''don't support cgroup''"

lemma whole_cores_quota:
  assumes "0 < n" "n < 2 ^ 38"
  shows "cpu_Quota (limiter_resources (of_int n) mbn) = 10000 * n"
proof -
  have "\<bar>n * cpuUnit\<bar> < 2 ^ 53" using assms by (simp add: cpuUnit_def)
  then have "fmul (of_int n) (of_int cpuUnit) = of_int (n * cpuUnit)"
    using rnd_int by (simp add: fmul_def flip: of_int_mult)
  then have "cpu_Quota (limiter_resources (of_int n) mbn) = int64_of_float (of_int (n * cpuUnit))"
    using assms(1) by (simp add: limiter_resources_def Let_def)
  also have "\<dots> = n * cpuUnit" using assms(1) by (simp add: int64_of_float_def cpuUnit_def del: of_int_mult)
  finally show ?thesis by (simp add: cpuUnit_def)
qed

lemma group_registered:
  "cgroups_New (limiter_resources core mbn) = None \<Longrightarrow>
     limiter_resources core mbn \<in> set (free (snd (configure cgroups_New control_Add pid core mbn r)))"
  by (simp add: configure_def Let_def free_def)

end
