(* ===== verification/Dump.thy ===== *)
theory Dump
  imports Engine GoJson
begin

text \<open>
  The JSON the library writes of its own tables: \<open>MarshalIndent\<close> of utils.go, \<open>String\<close> of types.go,
  \<open>sortNetflow\<close> of process.go, and the sample program example/demo.go, which prints a ranking. A
  printed ranking, read as what it was printed from, is the ranking.
\<close>

section \<open>Processes as values\<close>

text \<open>Only exported fields are written: not \<open>inodes\<close> and \<open>revision\<close> of a process.\<close>

definition trafficEntry_t :: gotype where
  "trafficEntry_t = TStruct [(''timestamp'', TInt 64), (''in'', TInt 64), (''out'', TInt 64)]"

definition trafficStatsEntry_t :: gotype where
  "trafficStatsEntry_t =
     TStruct [(''in'', TInt 64), (''out'', TInt 64), (''in_rate'', TInt 64), (''out_rate'', TInt 64),
       (''input_ewma'', TInt 64), (''output_ewma'', TInt 64)]"

definition Process_t :: gotype where
  "Process_t =
     TStruct [(''name'', TString), (''pid'', TString), (''exe'', TString), (''state'', TString),
       (''inode_count'', TInt 64), (''traffic_stats'', TPtr trafficStatsEntry_t),
       (''ring'', TSlice (TPtr trafficEntry_t))]"

definition entry_value :: "trafficEntry \<Rightarrow> goval" where
  "entry_value e = VStruct [VInt (Timestamp e), VInt (te_In e), VInt (te_Out e)]"

definition stats_value :: "trafficStatsEntry \<Rightarrow> goval" where
  "stats_value s =
     VStruct [VInt (st_In s), VInt (st_Out s), VInt (st_InRate s), VInt (st_OutRate s),
       VInt (st_InputEWMA s), VInt (st_OutputEWMA s)]"

text \<open>A ring without entries is the nil slice: entries are only dropped when there are 61.\<close>

definition ring_value :: "trafficEntry list \<Rightarrow> goval" where
  "ring_value r = (if r = [] then VNil else VSlice (map (\<lambda>e. VPtr (entry_value e)) r))"

definition process_value :: "process \<Rightarrow> goval" where
  "process_value p =
     VStruct [VStr (Name p), VStr (Pid p), VStr (Exe p), VStr (State p), VInt (InodeCount p),
       (case TrafficStats p of None \<Rightarrow> VNil | Some s \<Rightarrow> VPtr (stats_value s)), ring_value (Ring p)]"

definition process_ref :: "store \<Rightarrow> addr \<Rightarrow> goval" where
  "process_ref h a = (case cells h a of None \<Rightarrow> VNil | Some p \<Rightarrow> VPtr (process_value p))"

section \<open>Texts\<close>

text \<open>utils.go. The errors of \<open>encoding/json\<close> do not occur for these types.\<close>

definition MarshalIndent :: "gotype \<Rightarrow> goval \<Rightarrow> string" where
  "MarshalIndent t v = json_MarshalIndent ''    '' t v"

text \<open>An \<open>entry\<close> of the connection table has no exported field.\<close>

definition entry_t :: gotype where
  "entry_t = TStruct []"

definition Mapping_String :: "mapping \<Rightarrow> string" where
  "Mapping_String m = Marshal (TMap (TPtr entry_t)) (VMap (map (\<lambda>(k, e). (k, VPtr (VStruct []))) (dict m)))"

definition sortNetflow :: "processController \<Rightarrow> store \<Rightarrow> string" where
  "sortNetflow pm h =
     json_MarshalIndent ''    '' (TMap (TPtr Process_t)) (VMap (map (\<lambda>(pid, a). (pid, process_ref h a)) (pc_dict pm)))"

text \<open>So the text of the connection table shows its keys and nothing of the inodes.\<close>

lemma Mapping_String_keys:
  "map fst (dict m) = map fst (dict m') \<Longrightarrow> Mapping_String m = Mapping_String m'"
proof -
  have "map (\<lambda>(k, e). (k, VPtr (VStruct []))) (dict m) = map (\<lambda>k. (k, VPtr (VStruct []))) (map fst (dict m))" for m
    by (simp add: split_def comp_def)
  then show "map fst (dict m) = map fst (dict m') \<Longrightarrow> Mapping_String m = Mapping_String m'"
    unfolding Mapping_String_def by metis
qed

section \<open>The sample program\<close>

definition rank_t :: gotype where
  "rank_t = TSlice (TPtr Process_t)"

text \<open>From the ranking on: what is printed.\<close>

definition demo_rank ::
  "((string, addr) gomap \<Rightarrow> (string, addr) gomap) \<Rightarrow> (string \<Rightarrow> time) \<Rightarrow> netflow \<Rightarrow> (string \<times> netflow) go" where
  "demo_rank ord clk nf =
     go_bind (GetProcessRank ord clk 5 5 (processHash nf, heap nf)) (\<lambda>(r, pm, h).
       case r of
         Inl err \<Rightarrow> Panic
       | Inr prank \<Rightarrow>
           Ret (json_MarshalIndent ''    '' rank_t (VSlice (map (process_ref h) prank)),
             nf\<lparr>processHash := pm, heap := h\<rparr>))"

text \<open>\<open>run\<close> is what the goroutines do until the context is done; then come the ranking and \<open>Stop\<close>.\<close>

definition demo_main ::
  "device list option \<Rightarrow> go_error option \<Rightarrow> go_error option \<Rightarrow> (netflow \<Rightarrow> netflow) \<Rightarrow>
   ((string, addr) gomap \<Rightarrow> (string, addr) gomap) \<Rightarrow> (string \<Rightarrow> time) \<Rightarrow> (string \<times> netflow) go" where
  "demo_main devices create_err cgroup_err run ord clk =
     (case New devices [WithCaptureTimeout (5 * second)] of
        Inl err \<Rightarrow> Panic
      | Inr nf \<Rightarrow>
          (case Start create_err cgroup_err nf of
             (Some err, nf) \<Rightarrow> Panic
           | (None, nf) \<Rightarrow> go_bind (demo_rank ord clk (run nf)) (\<lambda>(out, nf). Ret (out, Stop nf))))"

section \<open>Reading a printed ranking\<close>

text \<open>What a process may hold: texts in UTF-8 and numbers of 64 bits.\<close>

definition entry_fits :: "trafficEntry \<Rightarrow> bool" where
  "entry_fits e \<longleftrightarrow> in_int64 (Timestamp e) \<and> in_int64 (te_In e) \<and> in_int64 (te_Out e)"

definition stats_fit :: "trafficStatsEntry \<Rightarrow> bool" where
  "stats_fit s \<longleftrightarrow> in_int64 (st_In s) \<and> in_int64 (st_Out s) \<and> in_int64 (st_InRate s) \<and> in_int64 (st_OutRate s) \<and>
     in_int64 (st_InputEWMA s) \<and> in_int64 (st_OutputEWMA s)"

definition printable :: "process \<Rightarrow> bool" where
  "printable p \<longleftrightarrow>
     valid_utf8 (Name p) \<and> valid_utf8 (Pid p) \<and> valid_utf8 (Exe p) \<and> valid_utf8 (State p) \<and>
     in_int64 (InodeCount p) \<and> (\<forall>e\<in>set (Ring p). entry_fits e)"

lemma process_typed:
  assumes "printable p" "\<forall>s\<in>set_option (TrafficStats p). stats_fit s"
  shows "has_type Process_t (process_value p)" "clean (process_value p)"
  using assms
  by (auto simp: Process_t_def process_value_def printable_def entry_fits_def stats_fit_def trafficEntry_t_def
      trafficStatsEntry_t_def entry_value_def stats_value_def ring_value_def split: option.splits)

lemma rank_plain: "plain_type rank_t" "names_ok rank_t" "type_depth rank_t \<le> maxNestingDepth"
  by (simp_all add: rank_t_def Process_t_def trafficEntry_t_def trafficStatsEntry_t_def maxNestingDepth_def
      ascii_utf8 del: valid_utf8.simps(2))

lemma analyse_loop_range:
  "in_int64 i \<Longrightarrow> in_int64 out \<Longrightarrow>
     in_int64 (fst (analyse_loop thold es (i, out))) \<and> in_int64 (snd (analyse_loop thold es (i, out)))"
proof (induction thold es "(i, out)" arbitrary: i out rule: analyse_loop.induct)
  case (2 thold item items i out)
  show ?case
    using 2(1) [OF _ 2(3,4)] 2(2) [OF _ wrap64_range wrap64_range] by simp
qed simp

text \<open>The statistics an analysis computes fit in any case.\<close>

lemma stats_fit_analyse:
  assumes "sec \<noteq> 0" "TrafficStats (analyseStats now sec p) = Some s"
  shows "stats_fit s"
proof -
  have quot: "in_int64 (quot64 a b)" for a b by (simp only: quot64_def wrap64_range)
  show ?thesis
    using assms analyse_loop_range [of 0 0 "threshold now sec" "Ring p"] quot
    by (auto simp: analyseStats_def Let_def stats_fit_def zero_stats_def split: prod.splits)
qed

lemma printable_analyse [simp]: "printable (analyseStats now sec p) = printable p"
  by (simp add: printable_def analyseStats_def Let_def split: prod.split)

text \<open>
  What a listing of processes shows: every exported field, so two rankings with the same text agree on
  all of them.
\<close>

lemma rank_portable:
  assumes "\<forall>a\<in>set prank. \<exists>p. cells h a = Some p \<and> printable p \<and> (\<forall>s\<in>set_option (TrafficStats p). stats_fit s)"
  shows "portable rank_t (VSlice (map (process_ref h) prank))"
proof -
  have "has_type (TPtr Process_t) (process_ref h a) \<and> clean (process_ref h a)" if "a \<in> set prank" for a
    using assms that process_typed by (auto simp: process_ref_def)
  then show ?thesis using rank_plain by (auto simp: portable_def rank_t_def)
qed

lemma demo_rank_reads:
  assumes "nf_pc_ok nf" "all_stats (processHash nf) (heap nf)" "all_procs printable (processHash nf) (heap nf)"
    and "range_order ord"
  shows "\<exists>s prank pm h. demo_rank ord clk nf = Ret (s, nf\<lparr>processHash := pm, heap := h\<rparr>) \<and>
    top_ranked h (dict_addrs (processHash nf)) 5 prank \<and> dict_addrs pm = dict_addrs (processHash nf) \<and>
    Unmarshal rank_t s (zero rank_t) = (VSlice (map (\<lambda>a. VPtr (process_value (the (cells h a)))) prank), None) \<and>
    (\<forall>pid. procs pm h pid = map_option (analyseStats (clk pid) 5) (procs_of nf pid))"
proof -
  let ?pm = "processHash nf"
  obtain prank pm h where r: "GetProcessRank ord clk 5 5 (?pm, heap nf) = Ret (Inr prank, pm, h)"
    and pm: "pm = ?pm\<lparr>sortedProcesses := sortedProcesses pm\<rparr>" and ok: "pc_ok pm h"
    and procs: "\<forall>pid. procs pm h pid = map_option (analyseStats (clk pid) 5) (procs ?pm (heap nf) pid)"
    and top: "top_ranked h (dict_addrs ?pm) 5 prank"
    using GetProcessRank_result [of ?pm "heap nf" ord 5 5 clk] assms by (auto simp: nf_pc_ok_def maxRingSize_def)
  have "\<exists>p. cells h a = Some p \<and> printable p \<and> (\<forall>s\<in>set_option (TrafficStats p). stats_fit s)" if "a \<in> set prank" for a
  proof -
    from that top have "a \<in> set (dict_addrs ?pm)" by (auto simp: top_ranked_def)
    then obtain pid where "gm_get (pc_dict ?pm) pid = Some a"
      using dict_addrs_iff assms(1) unfolding nf_pc_ok_def by blast
    then have pid: "gm_get (pc_dict pm) pid = Some a" by (subst pm) simp
    obtain p where p: "cells h a = Some p" using pc_ok_cell [OF ok pid] by blast
    then have "procs pm h pid = Some p" using pid by (simp add: procs_def)
    then obtain p0 where p0: "procs ?pm (heap nf) pid = Some p0" "p = analyseStats (clk pid) 5 p0" using procs by auto
    have "printable p0" using assms(3) p0(1) by (rule all_procsD)
    then show ?thesis using p p0(2) stats_fit_analyse [of 5 "clk pid" p0] by auto
  qed
  then have fits: "portable rank_t (VSlice (map (process_ref h) prank))"
    and refs: "map (process_ref h) prank = map (\<lambda>a. VPtr (process_value (the (cells h a)))) prank"
    using rank_portable by (blast, fastforce simp: process_ref_def)
  have "blank ''    ''" by (simp add: is_ws_def)
  note read = Unmarshal_indented [OF fits this]
  have demo: "demo_rank ord clk nf =
      Ret (json_MarshalIndent ''    '' rank_t (VSlice (map (process_ref h) prank)), nf\<lparr>processHash := pm, heap := h\<rparr>)"
    by (simp add: demo_rank_def r)
  have "dict_addrs pm = dict_addrs ?pm" by (subst pm) (simp add: dict_addrs_def)
  moreover have "Unmarshal rank_t (json_MarshalIndent ''    '' rank_t (VSlice (map (process_ref h) prank))) (zero rank_t) =
      (VSlice (map (\<lambda>a. VPtr (process_value (the (cells h a)))) prank), None)"
    using read by (simp only: refs)
  ultimately show ?thesis using demo top procs unfolding procs_of_def by blast
qed

text \<open>The program starts in any case; what it prints is the ranking after the run.\<close>

lemma demo_main_prints:
  assumes "\<forall>nf. nf_pc_ok (run nf) \<and> all_stats (processHash (run nf)) (heap (run nf)) \<and>
      all_procs printable (processHash (run nf)) (heap (run nf))"
    and "range_order ord"
  shows "\<exists>s nf prank. demo_main devices create_err cgroup_err run ord clk = Ret (s, nf) \<and> nf_done nf \<and>
    top_ranked (heap nf) (dict_addrs (processHash nf)) 5 prank \<and>
    Unmarshal rank_t s (zero rank_t) =
      (VSlice (map (\<lambda>a. VPtr (process_value (the (cells (heap nf) a)))) prank), None)"
proof -
  let ?nf0 = "(new_base devices)\<lparr>captureTimeout := 5 * second\<rparr>"
  let ?nf1 = "startNetworkSniffer (?nf0\<lparr>nf_syncer := True\<rparr>)"
  have "New devices [WithCaptureTimeout (5 * second)] = Inr ?nf0"
    by (simp add: New_def WithCaptureTimeout_def defaultCaptureTimeout_def)
  moreover have "Start create_err cgroup_err ?nf0 = (None, ?nf1)"
    by (simp add: Start_def configurePersist_def configureCgroups_def new_base_def split: prod.split)
  ultimately have main: "demo_main devices create_err cgroup_err run ord clk =
      go_bind (demo_rank ord clk (run ?nf1)) (\<lambda>(out, nf). Ret (out, Stop nf))"
    by (simp add: demo_main_def)
  obtain s prank pm h where r: "demo_rank ord clk (run ?nf1) = Ret (s, (run ?nf1)\<lparr>processHash := pm, heap := h\<rparr>)"
    "top_ranked h (dict_addrs (processHash (run ?nf1))) 5 prank" "dict_addrs pm = dict_addrs (processHash (run ?nf1))"
    "Unmarshal rank_t s (zero rank_t) = (VSlice (map (\<lambda>a. VPtr (process_value (the (cells h a)))) prank), None)"
    using demo_rank_reads [of "run ?nf1" ord clk] assms by blast
  show ?thesis
    by (rule exI [of _ s], rule exI [of _ "Stop ((run ?nf1)\<lparr>processHash := pm, heap := h\<rparr>)"], rule exI [of _ prank])
      (use r in \<open>simp add: main Stop_def finalize_def\<close>)
qed

text \<open>
  The texts \<open>GetProcesses\<close> takes from the system are all a process has; they are in UTF-8 when the
  links and names of \<open>/proc\<close> are.
\<close>

lemma printable_new: "valid_utf8 pid \<Longrightarrow> valid_utf8 name \<Longrightarrow> valid_utf8 exe \<Longrightarrow> printable (new_process pid inode name exe)"
  by (simp add: printable_def new_process_def valid_utf8.simps(1))

lemma printable_traffic:
  assumes "printable p" "in_int64 n" "in_int64 (unix now)"
  shows "printable (increaseProcessTraffic now p n side)"
proof -
  have shrunk: "set (Ring (shrink p)) \<subseteq> set (Ring p)" by (cases "Ring p") (auto simp: shrink_def)
  have nonempty: "Ring (shrink p) \<noteq> []" if "Ring p \<noteq> []"
    using that by (cases "Ring p") (auto simp: shrink_def maxRingSize_def)
  have fits: "\<forall>e\<in>set (Ring (shrink p)). entry_fits e" using assms(1) shrunk by (auto simp: printable_def)
  have ends: "entry_fits (last (Ring (shrink p)))" "\<forall>e\<in>set (butlast (Ring (shrink p))). entry_fits e" if "Ring p \<noteq> []"
    using fits nonempty [OF that] by (auto dest: in_set_butlastD)
  have "entry_fits \<lparr>Timestamp = unix now, te_In = n, te_Out = 0\<rparr>" "entry_fits \<lparr>Timestamp = unix now, te_In = 0, te_Out = n\<rparr>"
    using assms(2,3) by (simp_all add: entry_fits_def)
  moreover have "entry_fits (e\<lparr>te_In := wrap64 x\<rparr>)" "entry_fits (e\<lparr>te_Out := wrap64 x\<rparr>)" if "entry_fits e" for e x
    using that wrap64_range [of x] by (simp_all add: entry_fits_def)
  moreover have "Name (shrink p) = Name p" "Pid (shrink p) = Pid p" "Exe (shrink p) = Exe p" "State (shrink p) = State p"
    "InodeCount (shrink p) = InodeCount p" by (simp_all add: shrink_def)
  ultimately show ?thesis
    using assms(1) fits ends
    by (cases side) (auto simp: increaseProcessTraffic_def IncreaseInput_def IncreaseOutput_def Let_def printable_def)
qed

end
