(* ===== verification/Goroutines.thy ===== *)
theory Goroutines
  imports Engine Monitor
begin

text \<open>
  The goroutines that wrap the operations of the library: the capture of one device and its forwarder
  (\<open>captureDevice\<close>, \<open>buildPcapHandler\<close> of netflow.go), the loop of the process controller (\<open>Run\<close>), the
  log of the debug mode, and \<open>findPid\<close>, which nothing calls. What libpcap answers, the packets and the
  choices of \<open>select\<close> are arguments.
\<close>

section \<open>The log\<close>

text \<open>The calls a function makes to the logger, with messages of whatever type.\<close>

datatype 'm log_call = Log_Debug logger_interface 'm | Log_Error logger_interface 'm

definition logDebug :: "netflow \<Rightarrow> 'm \<Rightarrow> 'm log_call list" where
  "logDebug nf msg = (if \<not> debugMode nf then [] else [Log_Debug (nf_logger nf) msg])"

definition logError :: "netflow \<Rightarrow> 'm \<Rightarrow> 'm log_call list" where
  "logError nf msg = (if \<not> debugMode nf then [] else [Log_Error (nf_logger nf) msg])"

text \<open>\<open>enqueue\<close> with the size it logs when the queue overflows.\<close>

definition enqueue_log :: "packet option \<Rightarrow> netflow \<Rightarrow> netflow \<times> nat log_call list" where
  "enqueue_log pkt nf =
     (if chan_room (packetQueue nf) then (enqueue pkt nf, [])
      else (nf, logError nf (length (chan_buf (packetQueue nf)))))"

text \<open>\<open>getProcessByAddr\<close> with the message and the address it logs when it finds nothing.\<close>

definition getProcessByAddr_log :: "netflow \<Rightarrow> string \<Rightarrow> (go_error + addr) \<times> (string \<times> string) log_call list" where
  "getProcessByAddr_log nf ad =
     (let inode = fst (Get (connInodeHash nf) ad) in
      if length inode = 0 then (Inl ErrNotFound, logDebug nf (''not found inode '', ad))
      else (case GetProcessByInode (processHash nf) inode of
              None \<Rightarrow> (Inl ErrNotFound, logDebug nf (''not found proc '', ad))
            | Some proc \<Rightarrow> (Inr proc, [])))"

lemma enqueue_log_queue [simp]: "fst (enqueue_log pkt nf) = enqueue pkt nf"
  by (simp add: enqueue_log_def enqueue_def)

lemma getProcessByAddr_log_result [simp]: "fst (getProcessByAddr_log nf ad) = getProcessByAddr nf ad"
  by (simp add: getProcessByAddr_log_def getProcessByAddr_def Let_def split: option.split)

text \<open>What is logged is the full size: no packet is dropped before the queue is full.\<close>

lemma enqueue_log_full:
  assumes "chan_ok (packetQueue nf)"
  shows "snd (enqueue_log pkt nf) =
    (if debugMode nf \<and> length (chan_buf (packetQueue nf)) = chan_cap (packetQueue nf)
     then [Log_Error (nf_logger nf) (chan_cap (packetQueue nf))] else [])"
  using assms by (auto simp: enqueue_log_def logError_def chan_room_def chan_ok_def)

text \<open>In debug mode there is a line for an address exactly when no process is found for it.\<close>

lemma getProcessByAddr_log_iff:
  "snd (getProcessByAddr_log nf ad) = [] \<longleftrightarrow> \<not> debugMode nf \<or> getProcessByAddr nf ad \<noteq> Inl ErrNotFound"
  by (simp add: getProcessByAddr_log_def getProcessByAddr_def logDebug_def Let_def split: option.split)

section \<open>Capture\<close>

text \<open>The handle of a device. Its statistics are only printed; the timeout has no part in it.\<close>

definition buildPcapHandler ::
  "(string \<Rightarrow> string option) \<Rightarrow> (string \<Rightarrow> string option) \<Rightarrow> string \<Rightarrow> duration \<Rightarrow> string \<Rightarrow> string + pcap_handle" where
  "buildPcapHandler open_live bpf_error device timeout pfilter =
     (case open_live device of
        Some err \<Rightarrow> Inl err
      | None \<Rightarrow>
          let filter = ''tcp and (not broadcast and not multicast)'';
              filter = (if length pfilter \<noteq> 0 then pfilter else filter)
          in (case bpf_error filter of
                Some err \<Rightarrow> Inl err
              | None \<Rightarrow> Inr \<lparr>h_filter = filter, h_open = True\<rparr>))"

text \<open>
  The loop of \<open>captureDevice\<close>. In each turn \<open>select\<close> either sees the context done (\<open>None\<close>) or takes what
  the packet source gives, a packet or the nil of a closed source.
\<close>

datatype capture_state =
    NoHandle string
  | Capturing pcap_handle "packet option chan"
  | Ended pcap_handle "packet option chan"

fun capture_loop :: "packet option option list \<Rightarrow> pcap_handle \<Rightarrow> packet option chan \<Rightarrow> capture_state" where
  "capture_loop [] hnd ch = Capturing hnd ch"
| "capture_loop (None # turns) hnd ch = Ended (hnd\<lparr>h_open := False\<rparr>) ch"
| "capture_loop (Some pkt # turns) hnd ch = capture_loop turns hnd (capture pkt ch)"

definition captureDevice ::
  "(string \<Rightarrow> string option) \<Rightarrow> (string \<Rightarrow> string option) \<Rightarrow> string \<Rightarrow> packet option option list \<Rightarrow> netflow \<Rightarrow>
   capture_state" where
  "captureDevice open_live bpf_error dev turns nf =
     (case buildPcapHandler open_live bpf_error dev (captureTimeout nf) (pcapFilter nf) of
        Inl err \<Rightarrow> NoHandle err
      | Inr handler \<Rightarrow> capture_loop turns handler (make_chan 10000000))"

text \<open>The forwarder over what is in the channel when it is closed, or until it waits.\<close>

definition forward_all :: "packet option chan \<Rightarrow> netflow \<Rightarrow> netflow" where
  "forward_all ch nf = foldl (\<lambda>nf pkt. enqueue pkt nf) nf (chan_buf ch)"

text \<open>What comes while nobody takes: the channel keeps the first packets that fit and drops the others.\<close>

lemma capture_loop_keeps:
  assumes "chan_ok ch"
  shows "capture_loop (map Some pkts @ [None]) hnd ch =
    Ended (hnd\<lparr>h_open := False\<rparr>) (ch\<lparr>chan_buf := chan_buf ch @ take (chan_cap ch - length (chan_buf ch)) pkts\<rparr>)"
  using assms
proof (induction pkts arbitrary: ch)
  case (Cons pkt pkts)
  show ?case
  proof (cases "length (chan_buf ch) < chan_cap ch")
    case True
    then have "chan_ok (capture pkt ch)" "chan_cap (capture pkt ch) = chan_cap ch"
      "chan_buf (capture pkt ch) = chan_buf ch @ [pkt]"
      by (simp_all add: capture_def chan_room_def chan_send_def chan_ok_def)
    moreover have "take (chan_cap ch - length (chan_buf ch)) (pkt # pkts) =
        pkt # take (chan_cap ch - Suc (length (chan_buf ch))) pkts"
      using True by (simp add: take_Cons')
    ultimately show ?thesis
      using Cons.IH [of "capture pkt ch"] True by (simp add: capture_def chan_room_def chan_send_def)
  next
    case False
    then have "capture pkt ch = ch" by (simp add: capture_def chan_room_def)
    with Cons False show ?thesis by simp
  qed
qed simp

text \<open>The forwarder adds to the packet queue in order, as long as there is room.\<close>

lemma forward_all_queue:
  assumes "length (chan_buf (packetQueue nf)) + length (chan_buf ch) \<le> chan_cap (packetQueue nf)"
  shows "chan_buf (packetQueue (forward_all ch nf)) = chan_buf (packetQueue nf) @ chan_buf ch \<and>
    wrap64 (counter (forward_all ch nf)) = wrap64 (counter nf + int (length (chan_buf ch)))"
proof -
  have "chan_buf (packetQueue (foldl (\<lambda>nf pkt. enqueue pkt nf) nf pkts)) = chan_buf (packetQueue nf) @ pkts \<and>
      wrap64 (counter (foldl (\<lambda>nf pkt. enqueue pkt nf) nf pkts)) = wrap64 (counter nf + int (length pkts))"
    if "length (chan_buf (packetQueue nf)) + length pkts \<le> chan_cap (packetQueue nf)" for pkts
    using that
  proof (induction pkts arbitrary: nf)
    case (Cons pkt pkts)
    then have "enqueue pkt nf = incrCounter (nf\<lparr>packetQueue := chan_send pkt (packetQueue nf)\<rparr>)"
      by (simp add: enqueue_def chan_room_def)
    with Cons.IH [of "enqueue pkt nf"] Cons.prems show ?case
      by (simp add: incrCounter_def chan_send_def algebra_simps)
  qed simp
  from this [OF assms] show ?thesis by (simp add: forward_all_def)
qed

text \<open>A device whose handle can be opened is captured with the filter of the options, or else with all TCP.\<close>

lemma captureDevice_filter:
  assumes "open_live dev = None" "\<And>f. bpf_error f = None"
  shows "captureDevice open_live bpf_error dev [] nf =
    Capturing \<lparr>h_filter = (if pcapFilter nf = '''' then ''tcp and (not broadcast and not multicast)'' else pcapFilter nf),
      h_open = True\<rparr> (make_chan 10000000)"
  using assms by (simp add: captureDevice_def buildPcapHandler_def Let_def)

section \<open>The process controller's own loop\<close>

text \<open>\<open>Run\<close>: a rescan, then one per tick until its context is done (a turn \<open>None\<close>).\<close>

type_synonym rescan_args = "((string, process) gomap \<Rightarrow> (string, process) gomap) \<times> procfs"

fun run_loop ::
  "rescan_args option list \<Rightarrow> processController \<times> store \<Rightarrow> (worker_state \<times> processController \<times> store) go" where
  "run_loop [] s = Ret (Waiting, s)"
| "run_loop (None # turns) s = Ret (Returned, s)"
| "run_loop (Some (ord, fs) # turns) s = go_bind (Rescan ord fs s) (\<lambda>(err, s'). run_loop turns s')"

definition pc_Run ::
  "rescan_args \<Rightarrow> rescan_args option list \<Rightarrow> processController \<times> store \<Rightarrow>
   (worker_state \<times> processController \<times> store) go" where
  "pc_Run first turns s = go_bind (Rescan (fst first) (snd first) s) (\<lambda>(err, s'). run_loop turns s')"

lemma pc_Run_loop: "pc_Run first turns s = run_loop (Some first # turns) s"
  by (cases first) (simp add: pc_Run_def)

text \<open>However often it rescans, the table stays in order and what held of every process still does.\<close>

lemma run_loop_keeps:
  assumes "run_loop turns (pm, h) = Ret (st, pm', h')" "\<forall>ord fs. Some (ord, fs) \<in> set turns \<longrightarrow> range_order ord"
    and "pc_ok pm h" "all_procs P pm h"
    and inv: "\<And>p is. P p \<Longrightarrow> P (p\<lparr>inodes := is\<rparr>)" "\<And>p. TrafficStats p \<noteq> None \<Longrightarrow> Ring p = [] \<Longrightarrow> P p"
  shows "pc_ok pm' h' \<and> all_procs P pm' h' \<and> filterPName pm' = filterPName pm"
  using assms(1-4)
proof (induction turns arbitrary: pm h)
  case (Cons turn turns)
  show ?case
  proof (cases turn)
    case None
    with Cons.prems show ?thesis by simp
  next
    case (Some args)
    obtain ord fs where args: "args = (ord, fs)" by (cases args)
    from Cons.prems(1) obtain err pm1 h1 where r: "Rescan ord fs (pm, h) = Ret (err, pm1, h1)"
      "run_loop turns (pm1, h1) = Ret (st, pm', h')"
      by (auto simp: Some args go_simps split: prod.splits)
    have "range_order ord" using Cons.prems(2) by (auto simp: Some args)
    note change = Rescan_change [OF r(1) this Cons.prems(3)]
    then have "all_procs P pm1 h1" using Cons.prems(4) inv by (blast intro: all_procs_change)
    with change Cons.IH [OF r(2)] Cons.prems(2) show ?thesis by auto
  qed
qed simp

section \<open>findPid\<close>

text \<open>
  The last process that has a link matching the inode. \<open>glob\<close> is the result of globbing the links (the
  program exits on an error: \<open>None\<close>), \<open>compile\<close> is \<open>regexp.MustCompile\<close> with \<open>FindString\<close>.
\<close>

fun findPid_loop :: "(string \<Rightarrow> string option) \<Rightarrow> (string \<Rightarrow> string) \<Rightarrow> string list \<Rightarrow> string \<Rightarrow> string go" where
  "findPid_loop readlink matches [] pid = Ret pid"
| "findPid_loop readlink matches (item # items) pid =
     (let path = (case readlink item of None \<Rightarrow> '''' | Some p \<Rightarrow> p);
          out = matches path
      in if length out \<noteq> 0
         then go_bind (go_index (Split item (CHR ''/'')) 2) (\<lambda>pid. findPid_loop readlink matches items pid)
         else findPid_loop readlink matches items pid)"

definition findPid ::
  "procfs \<Rightarrow> (string \<Rightarrow> (string \<Rightarrow> string) option) \<Rightarrow> string \<Rightarrow> string go option" where
  "findPid fs compile inode =
     (case Glob fs ''/proc/[0-9]*/fd/[0-9]*'' of
        None \<Rightarrow> None
      | Some d \<Rightarrow>
          Some (case compile inode of None \<Rightarrow> Panic | Some matches \<Rightarrow> findPid_loop (Readlink fs) matches d ''-''))"

lemma findPid_loop_Ret:
  assumes "\<forall>item\<in>set items. 2 < length (Split item (CHR ''/''))"
  shows "findPid_loop readlink matches items pid =
    Ret (last (pid # map (\<lambda>item. Split item (CHR ''/'') ! 2)
      (filter (\<lambda>item. matches (case readlink item of None \<Rightarrow> '''' | Some p \<Rightarrow> p) \<noteq> '''') items)))"
  using assms by (induction items arbitrary: pid) (simp_all add: Let_def go_index_def)

end
