(* ===== verification/Agent.thy ===== *)
theory Agent
  imports Report Goroutines
begin

text \<open>
  cmd/main.go: from the flags and the configuration file to the running sniffer, beside the pprof server.
\<close>

text \<open>
  \<open>pprof_err\<close>: the error with which \<open>http.ListenAndServe\<close> has returned in its goroutine before the sniffer
  serves and before the configuration is refused, if it has (the port 6060 taken, for example);
  \<open>log.Fatal\<close> then ends the process. A failure after that is the step \<open>pprof\<close> of \<open>service_step\<close>.
\<close>

definition agent_main ::
  "file_system \<Rightarrow> yaml_decoder \<Rightarrow> flags \<Rightarrow> string option \<Rightarrow> device list option \<Rightarrow> go_error option \<Rightarrow>
   go_error option \<Rightarrow> start_outcome go" where
  "agent_main files yaml fl pprof_err devices create_err cgroup_err =
     (case pprof_err of
        Some err \<Rightarrow> Ret (Fatal ''pprof server failed:'' (ErrMsg err))
      | None \<Rightarrow>
          go_bind (main_config files yaml fl) (\<lambda>configSuperAgent.
            Ret (core_Start devices create_err cgroup_err configSuperAgent)))"

text \<open>The filter a flag \<open>-p\<close> stands for, down to libpcap.\<close>

definition agent_filter :: "flags \<Rightarrow> string" where
  "agent_filter fl =
     (if flag_filter fl = '''' then ''tcp and (not broadcast and not multicast)''
      else ''tcp and port '' @ flag_filter fl @ '' '')"

lemma agent_main_starts:
  assumes "main_config files yaml fl = Ret c"
  obtains nf where "agent_main files yaml fl None devices create_err cgroup_err = Ret (Serving nf)"
    "filterPName (processHash nf) = flag_pname fl" "nf_workers nf = 1" "nf_syncer nf" "nf_timer nf"
    "bindIPs nf = fst (parseIpaddrsAndDevices devices)" "nf_sniffing nf = gm_keys (snd (parseIpaddrsAndDevices devices))"
    "\<And>open_live bpf_error dev. open_live dev = None \<Longrightarrow> (\<And>f. bpf_error f = None) \<Longrightarrow>
       captureDevice open_live bpf_error dev [] nf =
         Capturing \<lparr>h_filter = agent_filter fl, h_open = True\<rparr> (make_chan 10000000)"
proof -
  have c: "Nethogs c = flag_pname fl" "Filter c = flag_filter fl"
    using assms by (auto simp: main_config_def Let_def go_simps split: if_splits)
  obtain nf0 nf where nf: "core_Start devices create_err cgroup_err c = Serving nf"
    "pcapFilter nf = capture_filter c" "filterPName (processHash nf) = Nethogs c" "nf_syncer nf" "nf_timer nf"
    "nf_workers nf = defaultWorkerNum" "bindIPs nf = fst (parseIpaddrsAndDevices devices)"
    "nf_sniffing nf = gm_keys (snd (parseIpaddrsAndDevices devices))"
    by (rule core_Start_serves [of devices c create_err cgroup_err])
  have "agent_main files yaml fl None devices create_err cgroup_err = Ret (Serving nf)"
    by (simp add: agent_main_def assms nf(1))
  moreover have "captureDevice open_live bpf_error dev [] nf =
      Capturing \<lparr>h_filter = agent_filter fl, h_open = True\<rparr> (make_chan 10000000)"
    if "open_live dev = None" "\<And>f. bpf_error f = None" for open_live bpf_error dev
    using captureDevice_filter [where open_live = open_live and bpf_error = bpf_error and dev = dev and nf = nf] that by (auto simp: nf(2) capture_filter_def c agent_filter_def)
  ultimately show thesis using that nf c by (simp add: defaultWorkerNum_def)
qed

end
