(* ===== verification/Logging.thy ===== *)
theory Logging
  imports Main
begin

text \<open>
  log/log.go: the global logger. \<open>Set\<close> of zap's level type (a third-party package) is the argument
  \<open>level_Set\<close>: the level a text names, if any. Nothing in the repository logs through this logger.
\<close>

datatype write_syncer =
    Stdout
  | Lumberjack (Filename: string) (MaxSize: nat) (MaxBackups: nat) (MaxAge: nat) (Compress: bool)

record 'l zap_logger =
  zl_sink :: write_syncer
  zl_level :: 'l
  zl_date_format :: string
  zl_caller :: bool

definition dateFormat :: string where "dateFormat = ''2006-01-02 15:04:05''"

text \<open>\<open>info\<close> is the zero of the level type; a text that names no level leaves it there, as the error is ignored.\<close>

definition CreateLogger :: "(string \<Rightarrow> 'l option) \<Rightarrow> 'l \<Rightarrow> string \<Rightarrow> string \<Rightarrow> 'l zap_logger" where
  "CreateLogger level_Set info logLevel filepath =
     (let w = (if filepath = '''' then Stdout else Lumberjack filepath 50 30 1 True);
          level = (case level_Set logLevel of None \<Rightarrow> info | Some l \<Rightarrow> l)
      in \<lparr>zl_sink = w, zl_level = level, zl_date_format = dateFormat, zl_caller = True\<rparr>)"

text \<open>The package variables \<open>logger\<close> and \<open>once\<close>.\<close>

record 'l log_state =
  ls_logger :: "'l zap_logger option"
  ls_once :: bool

definition log_init :: "'l log_state" where
  "log_init = \<lparr>ls_logger = None, ls_once = False\<rparr>"

definition Setup :: "(string \<Rightarrow> 'l option) \<Rightarrow> 'l \<Rightarrow> string \<Rightarrow> string \<Rightarrow> 'l log_state \<Rightarrow> 'l log_state" where
  "Setup level_Set info logLevel filepath s =
     (if ls_once s then s
      else \<lparr>ls_logger = Some (CreateLogger level_Set info logLevel filepath), ls_once = True\<rparr>)"

definition GetLogger :: "'l log_state \<Rightarrow> 'l zap_logger option" where
  "GetLogger s = ls_logger s"

text \<open>The first set-up stays, whatever comes after it; before it there is no logger.\<close>

lemma Setup_first:
  "GetLogger (foldl (\<lambda>s (l, p). Setup level_Set info l p s) log_init cfgs) =
     (case cfgs of [] \<Rightarrow> None | (l, p) # _ \<Rightarrow> Some (CreateLogger level_Set info l p))"
proof -
  have "foldl (\<lambda>s (l, p). Setup level_Set info l p s) s cfgs = s" if "ls_once s" for s cfgs
    using that by (induction cfgs) (auto simp: Setup_def)
  then show ?thesis
    by (cases cfgs) (auto simp: log_init_def GetLogger_def Setup_def)
qed

end
