(* ===== verification/ServiceSpec.thy ===== *)
theory ServiceSpec
  imports Samples AgentRun Core2 Cgroup Dump Agent Logging
begin

text \<open>
  The properties of the programs around the library: what is reported to the server and how the client
  understands its answers, the traffic monitor, the configuration, and how the service ends.
\<close>

section \<open>Concrete values for the witnesses\<close>

definition sample_config :: config where
  "sample_config =
     \<lparr>Log = \<lparr>Level = ''INFO'', Filepath = ''''\<rparr>,
      Agent = \<lparr>RootDir = '''', ServerEndpoint = ''www.pcdncom.com'', DeviceId = ''c058'', BizType = ''2'',
        AppKey = ''key'', AppSecret = ''secret''\<rparr>,
      Pppoe = \<lparr>PingAddr = '''', FrpsAddr = '''', FrpcRoot = ''''\<rparr>,
      MonitorConfig = \<lparr>CollectdRddPath = '''', ReportInterval = 5, ReportBucket = 5\<rparr>,
      MockedServerConfPath = '''', DeviceIdPath = ''/etc/machine-id'', Nethogs = '''', Filter = ''''\<rparr>"

definition sample_error :: serverError where
  "sample_error = \<lparr>se_Code = 17, se_Message = ''busy'', se_EventID = ''e1''\<rparr>"

definition sample_cards :: goval where
  "sample_cards = VSlice [VStruct [VNil, VStr ''10.0.0.2'', VBool True, VBool False, VStr ''eth0'', VInt 1000]]"

definition sample_registration :: goval where
  "sample_registration =
     VStruct [VStr ''http://code'', VStr ''c058'', VInt 7000, VStr ''frps'', VInt 7001, VStr ''influx'', VInt 8086]"

definition answering :: "http_response \<Rightarrow> transport" where
  "answering rsp = \<lparr>url_error = (\<lambda>_ _. False), roundtrip = (\<lambda>_. Some rsp)\<rparr>"

definition sample_presenter :: presenter where
  "sample_presenter = \<lparr>humanize_Bytes = format_nat, cast_ToString = format_int, color_Red = (\<lambda>s. s)\<rparr>"

definition sample_net :: transport where
  "sample_net = answering \<lparr>StatusCode = 200, rs_body = Some ''{}''\<rparr>"

definition sample_frame :: frame where
  "sample_frame = \<lparr>fr_network = True, fr_transport = True, fr_len = 1500\<rparr>"

definition sample_ticks :: "table_tick list" where
  "sample_ticks =
     [([Forward sample_frame, Count], 60, 0), ([Forward sample_frame, Forward sample_frame, Count, Count], 120, 0)]"

lemma sample_table: "pc_ok sample_pc sample_heap" "all_stats sample_pc sample_heap"
  by (auto simp: pc_ok_def sample_pc_def sample_heap_def NewProcessController_def store_ok_def gm_ok_def
      gm_get_def all_stats_def procs_def new_process_def split: if_splits)

lemma sample_error_ok: "server_error_ok sample_error"
  by (simp add: server_error_ok_def sample_error_def ascii_utf8 del: valid_utf8.simps(2))

lemma sample_cards_ok: "data_ok (TSlice NetCardInfo_t) sample_cards"
  using reports_plain [OF reports_member(3)]
  by (simp add: data_ok_def sample_cards_def NetCardInfo_t_def ascii_utf8 del: valid_utf8.simps(2))

lemma sample_rescanned:
  obtains nf where "rescanResouce sample_env sample_nf = Ret (None, nf)"
    "rescanned sample_env sample_rows [''42''] sample_nf nf" "nf_pc_ok nf" "all_stats (processHash nf) (heap nf)" "procs_of nf ''42'' \<noteq> None"
    "all_procs printable (processHash nf) (heap nf)"
proof -
  obtain nf where nf: "rescanResouce sample_env sample_nf = Ret (None, nf)"
    "rescanned sample_env sample_rows [''42''] sample_nf nf"
    using rescanResouce_result [OF sample_fine sample_nf_ok(1)] by blast
  note frame = rescanned_frame [OF nf(2)]
  have none: "procs_of sample_nf q = None" for q
    using sample_nf_ok(3) by (simp add: pristine_def procs_of_def procs_def)
  have procs: "procs_of nf q = scan_result (env_fs sample_env) (filterPName (processHash sample_nf)) [''42''] q" for q
    by (cases "scan_result (env_fs sample_env) (filterPName (processHash sample_nf)) [''42''] q")
      (simp_all add: frame(6) none merge_scan_def)
  have exe: "getProcessExe (env_fs sample_env) ''42'' = ''/usr/bin/nginx''"
    by (simp add: getProcessExe_def sample_env_def sample_fs_def)
  have filt: "filterPName (processHash sample_nf) = ''''"
    by (simp add: sample_nf_def new_base_def NewProcessController_def parseIpaddrsAndDevices_def)
  have "all_stats (processHash nf) (heap nf)" "all_procs printable (processHash nf) (heap nf)"
    unfolding all_stats_procs using procs wrap64_range
    by (auto simp: all_procs_def procs_of_def scan_result_def scanned_def new_process_def printable_def exe filt
        ascii_utf8 valid_utf8.simps(1) simp del: valid_utf8.simps(2) split: if_splits)
  moreover have "procs_of nf ''42'' \<noteq> None" by (simp add: procs scan_result_def sample_links)
  ultimately show thesis using that nf frame(1) by simp
qed

section \<open>From the wire to the server\<close>

text \<open>C1. From the wire to the server. In any state of any run, the minute ticker of core/blocking.go fires: the
  tick does not panic, shows one row and sends one request. Its body, read with the client's own types,
  holds the minute and two bandwidths within 0.0001 of 8 bits times the bytes per second handled over the
  last five seconds for a process no other has more recent bytes than. What is returned is what the
  client makes of the answer.\<close>

theorem packets_to_server:
  assumes "logged s L" "procs_of (sy_nf s) some \<noteq> None" "range_order ord" "sy_now s \<le> tm"
    and "\<forall>pid side. procs_of (sy_nf s) pid \<noteq> None \<longrightarrow>
      0 \<le> recent_bytes (L pid) tm side \<and> recent_bytes (L pid) tm side < 2 ^ 53"
    and "0 \<le> t" "t < 2 ^ 63"
  shows "\<exists>pid row rq body down up pm h.
    processRanking_tick pr net ord (\<lambda>_. tm) t now c (processHash (sy_nf s), heap (sy_nf s)) =
    Ret (Some ([row],
      if url_error net ''POST'' (rq_url rq) then Some BadRequest
      else (case roundtrip net rq of None \<Rightarrow> Some NoResponse | Some rsp \<Rightarrow> snd (parseResponse rsp None))), pm, h) \<and>
    rq_body rq = Some body \<and>
    Unmarshal (data_t (TSlice MonitorInfo_t)) body (zero (data_t (TSlice MonitorInfo_t))) =
      (VStruct [VSlice [VStruct [VFloat 0, VFloat 0, VFloat down, VFloat 0, VInt (t - t mod 60), VFloat up]]], None) \<and>
    \<bar>down - 8 * of_int (recent_bytes (L pid) tm inputSide div 5) / 10 ^ 6\<bar> < 1 / 10 ^ 4 \<and>
    \<bar>up - 8 * of_int (recent_bytes (L pid) tm outputSide div 5) / 10 ^ 6\<bar> < 1 / 10 ^ 4 \<and>
    procs_of (sy_nf s) pid \<noteq> None \<and>
    (\<forall>q. procs_of (sy_nf s) q \<noteq> None \<longrightarrow> recent_total (L q) tm \<le> recent_total (L pid) tm)"
proof -
  obtain pid row pm h where tick: "processRanking_tick pr net ord (\<lambda>_. tm) t now c (processHash (sy_nf s), heap (sy_nf s)) =
     Ret (Some ([row], reportHandler net t now c (recent_bytes (L pid) tm inputSide div 5)
            (recent_bytes (L pid) tm outputSide div 5)), pm, h)"
    and pid: "procs_of (sy_nf s) pid \<noteq> None" "\<forall>q. procs_of (sy_nf s) q \<noteq> None \<longrightarrow> recent_total (L q) tm \<le> recent_total (L pid) tm"
    by (rule tick_reports_busiest [OF assms(1-5)])
  have small: "\<bar>recent_bytes (L pid) tm side div 5\<bar> < 2 ^ 53" for side
    using assms(5) [rule_format, OF pid(1), of side] by (simp, presburger)
  define rq where "rq = report_request now c [report_info t (recent_bytes (L pid) tm inputSide div 5)
    (recent_bytes (L pid) tm outputSide div 5)]"
  obtain body down up where rd: "rq_body rq = Some body"
    "Unmarshal (data_t (TSlice MonitorInfo_t)) body (zero (data_t (TSlice MonitorInfo_t))) =
      (VStruct [VSlice [VStruct [VFloat 0, VFloat 0, VFloat down, VFloat 0, VInt (t - t mod 60), VFloat up]]], None)"
    "\<bar>down - 8 * of_int (recent_bytes (L pid) tm inputSide div 5) / 10 ^ 6\<bar> < 1 / 10 ^ 4"
    "\<bar>up - 8 * of_int (recent_bytes (L pid) tm outputSide div 5) / 10 ^ 6\<bar> < 1 / 10 ^ 4"
    by (rule report_request_read [OF small [of inputSide] small [of outputSide] assms(6,7) rq_def])
  note sent = tick [unfolded reportHandler_request answer_to_def, folded rq_def]
  show ?thesis by (intro exI conjI) (rule sent rd pid)+
qed

theorem packets_to_server_witness:
  "\<exists>s L row outcome pm h. logged s L \<and> recent_bytes (L ''42'') (9 * second) outputSide = 100 \<and>
     processRanking_tick sample_presenter sample_net (\<lambda>m. m) (\<lambda>_. 9 * second) 1700000042 1700000042 sample_config
       (processHash (sy_nf s), heap (sy_nf s)) = Ret (Some ([row], outcome), pm, h)"
proof -
  obtain s L where run: "logged s L" "sy_now s = 7 * second" "L ''42'' = [(7 * second, outputSide, 100)]"
    "\<forall>q. procs_of (sy_nf s) q \<noteq> None \<longleftrightarrow> q = ''42''" by (rule sample_logged)
  have bytes: "recent_bytes (L ''42'') (9 * second) side = (if side = outputSide then 100 else 0)" for side
    by (simp add: run(3) recent_bytes_def bytes_since_def unix_def)
  have small: "\<forall>pid side. procs_of (sy_nf s) pid \<noteq> None \<longrightarrow>
      0 \<le> recent_bytes (L pid) (9 * second) side \<and> recent_bytes (L pid) (9 * second) side < 2 ^ 53"
    using run(4) bytes by simp
  have "procs_of (sy_nf s) ''42'' \<noteq> None" "sy_now s \<le> 9 * second" using run(2,4) by simp_all
  from packets_to_server [OF run(1) this(1) range_order_id this(2) small, of 1700000042 sample_presenter sample_net
      1700000042 sample_config]
  obtain row outcome pm h where "processRanking_tick sample_presenter sample_net (\<lambda>m. m) (\<lambda>_. 9 * second) 1700000042 1700000042
      sample_config (processHash (sy_nf s), heap (sy_nf s)) = Ret (Some ([row], outcome), pm, h)" by auto
  moreover have "recent_bytes (L ''42'') (9 * second) outputSide = 100" unfolding bytes by simp
  ultimately show ?thesis using run(1) by blast
qed

text \<open>C2. The running agent of core/blocking.go, library and program together. Along any run, however
  packets, scans, signals and ticks interleave, the library is in a state with the log carried along; it
  starts with no request sent; and each step sends nothing, or one request that is the report of the
  very state it starts from: a POST whose body holds the minute of that moment and the rates that the
  log of this run up to there gives for its busiest process, download and upload in their places (zeros
  without a process). While the ranking is not cancelled the next report can be made.\<close>

theorem agent_reports:
  assumes "agent_path devices c path"
  shows "(\<forall>(a, L)\<in>set path. logged (ag_sys a) L) \<and> ag_requests (fst (hd path)) = [] \<and>
    (\<forall>i a L a' L'. Suc i < length path \<and> path ! i = (a, L) \<and> path ! Suc i = (a', L') \<longrightarrow>
       ag_requests a' = ag_requests a \<or>
       (\<exists>rq body inb outb. ag_requests a' = ag_requests a @ [rq] \<and>
          reported (ag_sys a) L (sy_now (ag_sys a)) inb outb \<and> rq_method rq = ''POST'' \<and> rq_body rq = Some body \<and>
          Unmarshal (data_t (TSlice MonitorInfo_t)) body (zero (data_t (TSlice MonitorInfo_t))) =
            (VStruct [VSlice [VStruct [VFloat 0, VFloat 0, VFloat (ConvertToMB inb), VFloat 0,
               VInt (adjustedTime (unix (sy_now (ag_sys a)))), VFloat (ConvertToMB outb)]]], None))) \<and>
    (\<forall>(a, L)\<in>set path. sv_main (ag_service a) \<and> sv_ranker (ag_service a) = Selecting \<longrightarrow>
       (\<exists>a' rq. agent_step c a a' \<and> ag_requests a' = ag_requests a @ [rq]))"
proof -
  note states = agent_path_states [OF assms]
  have "\<exists>a' rq. agent_step c a a' \<and> ag_requests a' = ag_requests a @ [rq]"
    if "logged (ag_sys a) L" "sv_main (ag_service a)" "sv_ranker (ag_service a) = Selecting" for a L
    using agent_tick_enabled [OF that] by metis
  moreover have "\<exists>rq body inb outb. ag_requests a' = ag_requests a @ [rq] \<and>
          reported (ag_sys a) L (sy_now (ag_sys a)) inb outb \<and> rq_method rq = ''POST'' \<and> rq_body rq = Some body \<and>
          Unmarshal (data_t (TSlice MonitorInfo_t)) body (zero (data_t (TSlice MonitorInfo_t))) =
            (VStruct [VSlice [VStruct [VFloat 0, VFloat 0, VFloat (ConvertToMB inb), VFloat 0,
               VInt (adjustedTime (unix (sy_now (ag_sys a)))), VFloat (ConvertToMB outb)]]], None)"
    if sent: "Suc i < length path" "path ! i = (a, L)" "path ! Suc i = (a', L')" "ag_requests a' \<noteq> ag_requests a" for i a L a' L'
  proof -
    obtain rq where rq: "ag_requests a' = ag_requests a @ [rq]" "reports_now c (ag_sys a) L rq"
      using agent_path_sends [OF assms sent(1-3)] sent(4) by blast
    show ?thesis by (rule reports_now_body [OF rq(2)]) (use rq(1) in blast)
  qed
  ultimately show ?thesis using states by blast
qed

theorem agent_reports_witness:
  "\<exists>a0 a1 rq body. agent_path sample_devices sample_config [(a0, \<lambda>_. []), (a1, \<lambda>_. [])] \<and> ag_requests a1 = [rq] \<and>
     rq_body rq = Some body \<and>
     Unmarshal (data_t (TSlice MonitorInfo_t)) body (zero (data_t (TSlice MonitorInfo_t))) =
       (VStruct [VSlice [VStruct [VFloat 0, VFloat 0, VFloat 0, VFloat 0, VInt 0, VFloat 0]]], None)"
proof -
  obtain nf0 nf where nf: "New sample_devices (start_options sample_config) = Inr nf0" "Start None None nf0 = (None, nf)"
    "core_Start sample_devices None None sample_config = Serving nf"
    by (rule core_Start_serves [of sample_devices sample_config None None])
  let ?a = "agent_begin 0 nf" and ?L = "\<lambda>_. [] :: event list"
  have run: "agent_path sample_devices sample_config [(?a, ?L)]" by (rule agent_path.start [OF nf(3)])
  have "sv_main (ag_service ?a) \<and> sv_ranker (ag_service ?a) = Selecting"
    by (simp add: agent_begin_def service_start_def)
  then obtain a1 rq where a1: "agent_step sample_config ?a a1" "ag_requests a1 = ag_requests ?a @ [rq]"
    using agent_reports [OF run] by auto
  have none: "procs_of nf pid = None" for pid
    using Start_pristine [OF New_pristine [OF nf(1) start_options_library] nf(2)] pristine_procs_of by blast
  have L: "(if ag_sys a1 = ag_sys ?a then ?L else log_step (ag_sys ?a) (ag_sys a1) ?L) = ?L"
    by (simp add: fun_eq_iff log_step_def agent_begin_def sys_start_def none)
  have "agent_path sample_devices sample_config ([] @ [(?a, ?L), (a1, ?L)])"
    by (rule agent_path.step [OF _ a1(1)]) (use run L in simp_all)
  then have path: "agent_path sample_devices sample_config [(?a, ?L), (a1, ?L)]" by simp
  obtain rq' body inb outb where sent: "ag_requests a1 = ag_requests ?a @ [rq']"
    "reported (ag_sys ?a) ?L (sy_now (ag_sys ?a)) inb outb" "rq_body rq' = Some body"
    "Unmarshal (data_t (TSlice MonitorInfo_t)) body (zero (data_t (TSlice MonitorInfo_t))) =
            (VStruct [VSlice [VStruct [VFloat 0, VFloat 0, VFloat (ConvertToMB inb), VFloat 0,
               VInt (adjustedTime (unix (sy_now (ag_sys ?a)))), VFloat (ConvertToMB outb)]]], None)"
    using agent_reports [OF path, THEN conjunct2, THEN conjunct2, THEN conjunct1, rule_format, of 0 ?a ?L a1 ?L] a1(2) by auto
  have "ag_requests ?a = []" "sy_now (ag_sys ?a) = 0" "inb = 0" "outb = 0"
    using sent(2) none by (simp_all add: agent_begin_def sys_start_def reported_def)
  moreover have "ConvertToMB 0 = 0" "adjustedTime (unix 0) = 0"
    by (simp_all add: ConvertToMB_def float64_of_int_def fmul_def fdiv_def reparse_fixed_def round_even_def
        adjustedTime_def unix_def quot64_def wrap64_def)
  ultimately have "ag_requests a1 = [rq']" "rq_body rq' = Some body"
     "Unmarshal (data_t (TSlice MonitorInfo_t)) body (zero (data_t (TSlice MonitorInfo_t))) =
       (VStruct [VSlice [VStruct [VFloat 0, VFloat 0, VFloat 0, VFloat 0, VInt 0, VFloat 0]]], None)"
    using sent(1,3,4) by simp_all
  with path show ?thesis by blast
qed

text \<open>C31. What example/demo.go prints is its ranking: the JSON text, read as a list of processes, gives
  every exported field of the (at most five) busiest processes, ring included, busiest first; and the
  program stops the capture.\<close>

theorem demo_prints_ranking:
  assumes "\<forall>nf. nf_pc_ok (run nf) \<and> all_stats (processHash (run nf)) (heap (run nf)) \<and>
      all_procs printable (processHash (run nf)) (heap (run nf))"
    and "range_order ord"
  shows "\<exists>s nf prank. demo_main devices create_err cgroup_err run ord clk = Ret (s, nf) \<and> nf_done nf \<and>
    top_ranked (heap nf) (dict_addrs (processHash nf)) 5 prank \<and>
    Unmarshal rank_t s (zero rank_t) =
      (VSlice (map (\<lambda>a. VPtr (process_value (the (cells (heap nf) a)))) prank), None)"
  using assms by (rule demo_main_prints)

theorem demo_prints_ranking_witness:
  "\<exists>run s nf v. (\<forall>nf. rescanResouce sample_env sample_nf = Ret (None, run nf)) \<and>
     demo_main None None None run (\<lambda>m. m) (\<lambda>_. 9 * second) = Ret (s, nf) \<and>
     Unmarshal rank_t s (zero rank_t) = (VSlice v, None)"
proof -
  obtain nf where nf: "rescanResouce sample_env sample_nf = Ret (None, nf)" "nf_pc_ok nf"
    "all_stats (processHash nf) (heap nf)" "all_procs printable (processHash nf) (heap nf)"
    by (rule sample_rescanned)
  have run: "\<forall>nf'. nf_pc_ok ((\<lambda>_. nf) nf') \<and> all_stats (processHash ((\<lambda>_. nf) nf')) (heap ((\<lambda>_. nf) nf')) \<and>
      all_procs printable (processHash ((\<lambda>_. nf) nf')) (heap ((\<lambda>_. nf) nf'))"
    using nf(2-4) by simp
  obtain s nf1 prank where "demo_main None None None (\<lambda>_. nf) (\<lambda>m. m) (\<lambda>_. 9 * second) = Ret (s, nf1)"
    "Unmarshal rank_t s (zero rank_t) =
      (VSlice (map (\<lambda>a. VPtr (process_value (the (cells (heap nf1) a)))) prank), None)"
    using demo_prints_ranking [OF run range_order_id, of None None None "\<lambda>_. 9 * second"] by blast
  then show ?thesis using nf(1) by (intro exI [of _ "\<lambda>_. nf"]) auto
qed

section \<open>What is reported\<close>

text \<open>C13. What \<open>reportHandler\<close> hands to the network, for all rates and whatever the network does with it, is
  one request: a POST to the report path of the endpoint of the configuration, under http or https, with
  the key of the configuration, the time, the signature of its secret and a JSON content type. Its body,
  read with the client's own types, holds one entry: the minute of the timestamp, zeros, and the two
  converted rates, download and upload in their places, within 0.0001 of the true megabits per second
  below 2 ^ 53. The result is what the client makes of the answer.\<close>

theorem report_received:
  assumes "in_int64 inb" "in_int64 outb" "0 \<le> t" "t < 2 ^ 63"
  shows "\<exists>rq body down up.
    (\<forall>net. reportHandler net t now c inb outb =
       (if url_error net ''POST'' (rq_url rq) then Some BadRequest
        else case roundtrip net rq of None \<Rightarrow> Some NoResponse | Some rsp \<Rightarrow> snd (parseResponse rsp None))) \<and>
    rq_method rq = ''POST'' \<and> HasPrefix (rq_url rq) ''http'' \<and>
    (rq_url rq = ServerEndpoint (Agent c) @ ''/api/common/v1/nethogs/monitor'' \<or>
     rq_url rq = ''https://'' @ ServerEndpoint (Agent c) @ ''/api/common/v1/nethogs/monitor'') \<and>
    gm_get (rq_header rq) ''ak'' = Some (AppKey (Agent c)) \<and>
    gm_get (rq_header rq) ''timestamp'' = Some (format_int now) \<and>
    gm_get (rq_header rq) ''sign'' = Some (hex_encode (md5 (AppSecret (Agent c) @ ''#'' @ format_int now))) \<and>
    gm_get (rq_header rq) ''Content-Type'' = Some ''application/json'' \<and>
    rq_body rq = Some body \<and>
    Unmarshal (data_t (TSlice MonitorInfo_t)) body (zero (data_t (TSlice MonitorInfo_t))) =
      (VStruct [VSlice [VStruct [VFloat 0, VFloat 0, VFloat down, VFloat 0, VInt (t - t mod 60), VFloat up]]], None) \<and>
    (\<bar>inb\<bar> < 2 ^ 53 \<longrightarrow> \<bar>down - 8 * of_int inb / 10 ^ 6\<bar> < 1 / 10 ^ 4) \<and>
    (\<bar>outb\<bar> < 2 ^ 53 \<longrightarrow> \<bar>up - 8 * of_int outb / 10 ^ 6\<bar> < 1 / 10 ^ 4)"
  by (rule report_sent [OF assms, of now c]) (use ConvertToMB_error in \<open>unfold answer_to_def, blast\<close>)

theorem report_received_witness:
  "\<exists>rq body down up. (\<forall>net. reportHandler net 1700000042 1700000042 sample_config 1250000 0 =
       (if url_error net ''POST'' (rq_url rq) then Some BadRequest
        else case roundtrip net rq of None \<Rightarrow> Some NoResponse | Some rsp \<Rightarrow> snd (parseResponse rsp None))) \<and>
    rq_body rq = Some body \<and>
    Unmarshal (data_t (TSlice MonitorInfo_t)) body (zero (data_t (TSlice MonitorInfo_t))) =
      (VStruct [VSlice [VStruct [VFloat 0, VFloat 0, VFloat down, VFloat 0, VInt 1700000040, VFloat up]]], None) \<and>
    \<bar>down - 10\<bar> < 1 / 10 ^ 4"
proof -
  have h: "in_int64 1250000" "in_int64 0" "0 \<le> (1700000042 :: int)" "1700000042 < (2 :: int) ^ 63"
    by simp_all
  have "(1700000042 :: int) - 1700000042 mod 60 = 1700000040" "8 * of_int 1250000 / 10 ^ 6 = (10 :: rat)"
    "\<bar>1250000\<bar> < (2 :: int) ^ 53" by simp_all
  with report_received [OF h, of 1700000042 sample_config] show ?thesis by metis
qed

text \<open>C23. Every request of the client carries the key of the configuration, the time, and as signature the
  32 lower-case hexadecimal digits of the MD5 of secret, \<open>#\<close> and time; a version that is never empty, the
  agent, the business type, the device exactly if there is one, and a JSON content type exactly if it
  has a body; and no other header.\<close>

theorem signed_requests:
  "\<exists>hs. hs = rq_header (build_request verb (fst (url_Get now p path)) (snd (url_Get now p path)) b) \<and>
    (let c = CommonHeaders p in
     gm_get hs ''ak'' = Some (Ak c) \<and> gm_get hs ''timestamp'' = Some (format_int now) \<and>
     gm_get hs ''sign'' = Some (hex_encode (md5 (As c @ ''#'' @ format_int now))) \<and>
     length (hex_encode (md5 (As c @ ''#'' @ format_int now))) = 32 \<and>
     list_all is_hex (hex_encode (md5 (As c @ ''#'' @ format_int now))) \<and>
     gm_get hs ''version'' = Some (if ImageVersion c = '''' then ''unknown'' else ImageVersion c) \<and>
     gm_get hs ''agent'' = Some ''v0.0.1'' \<and> gm_get hs ''bizType'' = Some (ch_BizType c) \<and>
     gm_get hs ''deviceID'' = (if ch_DeviceId c = '''' then None else Some (ch_DeviceId c)) \<and>
     gm_get hs ''Content-Type'' = (if b = NoBody then None else Some ''application/json'') \<and>
     dom (gm_get hs) \<subseteq> {''ak'', ''timestamp'', ''sign'', ''version'', ''agent'', ''bizType'', ''deviceID'', ''Content-Type''})"
proof -
  define hs where "hs = rq_header (build_request verb (fst (url_Get now p path)) (snd (url_Get now p path)) b)"
  have get: "gm_get hs k = (case gm_get (GetCommonHeaders now (CommonHeaders p)) k of
      Some v \<Rightarrow> Some v | None \<Rightarrow> if k = ''Content-Type'' \<and> b \<noteq> NoBody then Some ''application/json'' else None)" for k
    using request_header [OF gm_ok_url_Get] by (simp add: hs_def url_Get_get)
  have shape: "length (hex_encode (md5 s)) = 32" "list_all is_hex (hex_encode (md5 s))" for s
    using hex_encode_shape by (auto simp: list_all_iff)
  have "dom (gm_get hs) \<subseteq> {''ak'', ''timestamp'', ''sign'', ''version'', ''agent'', ''bizType'', ''deviceID'', ''Content-Type''}"
    by (auto simp: get common_get split: if_splits)
  then show ?thesis
    by (intro exI [of _ hs] conjI hs_def) (simp add: Let_def get common_get getSign_def shape)
qed

section \<open>What the client makes of answers\<close>

text \<open>C21. How any answer to a report is understood: a body that cannot be read is its own error; any status
  outside 200..299 is an \<open>HttpError\<close> with that status and the whole body; within, a text that is no JSON,
  or neither an object nor null, or an object whose members do not have the types of a \<open>ServerError\<close>, is a
  JSON error; else the answer is success exactly if the last code in it is 0 or there is none, and
  otherwise the \<open>ServerError\<close> with that code and the last message and event id. An error that the server
  writes in its own format reaches the caller unchanged.\<close>

theorem answer_classified:
  "(\<exists>je. ReportMonitorInfo (answering rsp) now p ms =
     (case rs_body rsp of
        None \<Rightarrow> Some BodyError
      | Some body \<Rightarrow>
          if \<not> (200 \<le> StatusCode rsp \<and> StatusCode rsp < 300)
          then Some (HttpErr \<lparr>he_Code = StatusCode rsp, he_Message = body\<rparr>)
          else
            (case json_parse body of
               Some JNull \<Rightarrow> None
             | Some (JObj kvs) \<Rightarrow>
                 if error_readable kvs
                 then (if se_Code (error_in kvs) = 0 then None else Some (ServerErr (error_in kvs)))
                 else Some (JsonError je)
             | _ \<Rightarrow> Some (JsonError je)))) \<and>
   (server_error_ok e \<and> 200 \<le> status \<and> status < 300 \<longrightarrow>
      ReportMonitorInfo (answering \<lparr>StatusCode = status, rs_body = Some (ServerError_Error e)\<rparr>) now p ms =
        (if se_Code e = 0 then None else Some (ServerErr e)))"
proof -
  have call: "ReportMonitorInfo (answering r) now p ms = snd (parseResponse r None)" for r
    by (simp add: ReportMonitorInfo_def execute_cases answering_def)
  have own: "ReportMonitorInfo (answering \<lparr>StatusCode = status, rs_body = Some (ServerError_Error e)\<rparr>) now p ms =
      (if se_Code e = 0 then None else Some (ServerErr e))" if "server_error_ok e" "200 \<le> status" "status < 300"
    using parse_server_error [OF that] by (simp add: call)
  show ?thesis
  proof (cases "\<exists>body. rs_body rsp = Some body \<and> 200 \<le> StatusCode rsp \<and> StatusCode rsp < 300")
    case True
    then obtain body where b: "rs_body rsp = Some body" "200 \<le> StatusCode rsp" "StatusCode rsp < 300" by blast
    then have "ReportMonitorInfo (answering rsp) now p ms = parse_plain body" by (simp add: call parseResponse_def)
    with parse_plain_read [of body] b own show ?thesis by simp
  next
    case False
    then show ?thesis using own by (auto simp: call parseResponse_def split: option.split)
  qed
qed

theorem answer_classified_witness:
  "ReportMonitorInfo (answering \<lparr>StatusCode = 200, rs_body = Some (ServerError_Error sample_error)\<rparr>) 0
     (report_provider sample_config) [] = Some (ServerErr sample_error)"
  using answer_classified [of undefined 0 "report_provider sample_config" "[]" sample_error 200] sample_error_ok
  by (simp add: sample_error_def)

text \<open>C22. Network cards that the server writes into its answer are the cards \<open>GetDialingInfo\<close> returns,
  together with the error if the code is not 0.\<close>

theorem dialing_info_received:
  assumes "data_ok (TSlice NetCardInfo_t) cards" "server_error_ok e" "in_int64 tm" "200 \<le> status" "status < 300"
  shows "GetDialingInfo (answering \<lparr>StatusCode = status, rs_body = Some (reply_text e tm (TSlice NetCardInfo_t) cards)\<rparr>) now p
    = (Some cards, if se_Code e = 0 then None else Some (ServerErr e))"
  using parse_reply [OF assms] by (simp add: GetDialingInfo_def execute_cases answering_def)

theorem dialing_info_received_witness:
  "GetDialingInfo (answering \<lparr>StatusCode = 200,
      rs_body = Some (reply_text sample_error 1700000042 (TSlice NetCardInfo_t) sample_cards)\<rparr>) 1700000042
      (report_provider sample_config) = (Some sample_cards, Some (ServerErr sample_error))"
  using dialing_info_received [OF sample_cards_ok sample_error_ok, of 1700000042 200 1700000042 "report_provider sample_config"]
  by (simp add: sample_error_def)

text \<open>C24. Registration and heartbeat hand out what the server answers, and only when it reports success: the
  value it wrote when the status is 200..299 and the code 0, its error otherwise, and for any other
  status an \<open>HttpError\<close> with the whole body, however well-formed that is.\<close>

theorem replies_received:
  assumes "has_type RegisterRsp_t v" "clean v" "has_type HeartbeatRsp_t w" "clean w" "server_error_ok e" "in_int64 tm"
  shows "RegisterDevice (answering \<lparr>StatusCode = status, rs_body = Some (reply_text e tm RegisterRsp_t v)\<rparr>) now p device =
     (if 200 \<le> status \<and> status < 300 then if se_Code e = 0 then Inr v else Inl (ServerErr e)
      else Inl (HttpErr \<lparr>he_Code = status, he_Message = reply_text e tm RegisterRsp_t v\<rparr>)) \<and>
   ReportHeartbeat (answering \<lparr>StatusCode = status, rs_body = Some (reply_text e tm HeartbeatRsp_t w)\<rparr>) now p =
     (if 200 \<le> status \<and> status < 300 then if se_Code e = 0 then Inr w else Inl (ServerErr e)
      else Inl (HttpErr \<lparr>he_Code = status, he_Message = reply_text e tm HeartbeatRsp_t w\<rparr>))"
proof -
  have parse: "value_or_error (parseResponse \<lparr>StatusCode = status, rs_body = Some (reply_text e tm t d)\<rparr> (Some (t, zero t))) =
      (if 200 \<le> status \<and> status < 300 then if se_Code e = 0 then Inr d else Inl (ServerErr e)
       else Inl (HttpErr \<lparr>he_Code = status, he_Message = reply_text e tm t d\<rparr>))"
    if "t = RegisterRsp_t \<or> t = HeartbeatRsp_t" "has_type t d" "clean d" for t d
    using parse_reply [OF reply_types_ok [OF that] assms(5,6), of status]
      parse_other_status [of "\<lparr>StatusCode = status, rs_body = Some (reply_text e tm t d)\<rparr>" "reply_text e tm t d"]
    by (simp add: value_or_error_def)
  show ?thesis
    using parse [of RegisterRsp_t v] parse [of HeartbeatRsp_t w] assms(1-4)
    by (simp add: RegisterDevice_def ReportHeartbeat_def execute_cases answering_def)
qed

theorem replies_received_witness:
  "RegisterDevice (answering \<lparr>StatusCode = 200, rs_body = Some (reply_text (sample_error\<lparr>se_Code := 0\<rparr>) 9 RegisterRsp_t sample_registration)\<rparr>)
     0 (report_provider sample_config) VNil = Inr sample_registration"
proof -
  have "has_type RegisterRsp_t sample_registration" "clean sample_registration"
    by (simp_all add: sample_registration_def RegisterRsp_t_def ascii_utf8 del: valid_utf8.simps(2))
  moreover have "has_type HeartbeatRsp_t (zero HeartbeatRsp_t)" "clean (zero HeartbeatRsp_t)"
    by (simp_all add: HeartbeatRsp_t_def rpc_types)
  moreover have "server_error_ok (sample_error\<lparr>se_Code := 0\<rparr>)" "in_int64 9"
    using sample_error_ok by (simp_all add: server_error_ok_def)
  ultimately show ?thesis
    using replies_received [of sample_registration "zero HeartbeatRsp_t" "sample_error\<lparr>se_Code := 0\<rparr>" 9 200 0
        "report_provider sample_config" VNil] by simp
qed

section \<open>The traffic monitor\<close>

text \<open>C25. A new monitor loses no byte and counts none twice: after any interleaving of captured packets,
  counting, readings and closing, the readings, the current counter and what still waits in the channel
  add up, modulo \<open>2 ^ 64\<close>, to the bytes of the forwarded packets that have a network and a transport
  layer; and at most 100 packets wait.\<close>

theorem monitor_accounts:
  assumes "NewTrafficMonitor interfaces open_live bpf_error device port = Inr tm"
    and "monitor_run ops tm = Some (readings, tm')"
  shows "wrap64 (sum_list readings + TotalTxBytes tm' + queued tm') = wrap64 (sum_list (map counted (forwarded ops))) \<and>
    length (chan_buf (packetChan tm')) \<le> 100"
proof -
  have new: "TotalTxBytes tm = 0" "packetChan tm = make_chan 100"
    using assms(1) by (auto simp: NewTrafficMonitor_def split: sum.splits option.splits if_splits)
  then have "wrap64 (sum_list readings + TotalTxBytes tm' + queued tm') = wrap64 (sum_list (map counted (forwarded ops)))"
    using monitor_run_conserves [OF assms(2)] by (simp add: queued_def make_chan_def)
  moreover have "chan_ok (packetChan tm')" "chan_cap (packetChan tm') = 100"
    using monitor_run_chan [OF assms(2)] new by (simp_all add: make_chan_def chan_ok_def)
  ultimately show ?thesis by (simp add: chan_ok_def)
qed

theorem monitor_accounts_witness:
  "\<exists>tm tm'. NewTrafficMonitor (Inr []) (\<lambda>_. None) (\<lambda>_. None) ''eth0'' ''9080'' = Inr tm \<and>
     monitor_run [Forward sample_frame, Forward sample_frame, Count, Reading] tm = Some ([1500], tm') \<and>
     wrap64 (1500 + TotalTxBytes tm' + queued tm') = wrap64 3000 \<and> length (chan_buf (packetChan tm')) \<le> 100"
proof -
  let ?h = "\<lparr>h_filter = port_filter ''9080'', h_open = True\<rparr>"
  let ?tm = "\<lparr>tm_device = ''eth0'', tm_port = ''9080'', tm_handle = ?h, packetChan = make_chan 100, TotalTxBytes = 0\<rparr>"
  have new: "NewTrafficMonitor (Inr []) (\<lambda>_. None) (\<lambda>_. None) ''eth0'' ''9080'' = Inr ?tm"
    by (simp add: NewTrafficMonitor_def)
  have "wrap64 1500 = 1500" by (simp add: wrap64_def)
  then obtain tm' where run: "monitor_run [Forward sample_frame, Forward sample_frame, Count, Reading] ?tm = Some ([1500], tm')"
    by (simp add: forward_packet_def process_packet_def count_packet_def chan_room_def chan_send_def chan_recv_def
        make_chan_def GetUploadTraffic_def sample_frame_def)
  have "sum_list (map counted (forwarded [Forward sample_frame, Forward sample_frame, Count, Reading])) = 3000"
    by (simp add: counted_def sample_frame_def)
  then show ?thesis using new run monitor_accounts [OF new run] by auto
qed

text \<open>C26. \<open>processPackets\<close> comes to rest: with nothing more arriving it takes exactly as many turns as
  packets wait, and then has to wait itself; the channel is empty, the counter has grown by the counted
  bytes of these packets, and nothing else of the monitor has changed.\<close>

theorem processPackets_ends:
  "monitor_run (replicate (length (chan_buf (packetChan tm))) Count) tm = Some ([], processPackets tm) \<and>
   process_packet (processPackets tm) = None \<and> chan_buf (packetChan (processPackets tm)) = [] \<and>
   wrap64 (TotalTxBytes (processPackets tm)) = wrap64 (TotalTxBytes tm + queued tm) \<and>
   tm_handle (processPackets tm) = tm_handle tm"
  using processPackets_drains [of tm] processPackets_turns [of tm]
  by (simp add: process_packet_def chan_recv_def)

section \<open>Configuration\<close>

text \<open>C29. Which configurations \<open>GetConfig\<close> accepts, of any path and file: exactly those whose file can be read
  and is decoded without an error, by \<open>encoding/json\<close> for .json and by the YAML package (an argument) for
  .yml and .yaml, and that name the server endpoint and the device-id path; it panics on everything
  else, a .json file that is no JSON among it. A configuration written as JSON is read back exactly.\<close>

theorem GetConfig_accepts:
  "(GetConfig files yaml path = Ret c \<longleftrightarrow>
     (\<exists>content v. files path = Inr content \<and>
        (if HasSuffix path ''.json'' then Unmarshal Config_t content (zero Config_t) = (v, None)
         else (HasSuffix path ''.yml'' \<or> HasSuffix path ''.yaml'') \<and> yaml Config_t content (zero Config_t) = (v, None)) \<and>
        c = config_of v \<and> ServerEndpoint (Agent c) \<noteq> '''' \<and> DeviceIdPath c \<noteq> '''')) \<and>
   (HasSuffix path ''.json'' \<and> files path = Inr text \<and> json_parse text = None \<longrightarrow> GetConfig files yaml path = Panic) \<and>
   (HasSuffix path ''.json'' \<and> config_clean d \<and> files path = Inr (Marshal Config_t (config_value d)) \<longrightarrow>
      GetConfig files yaml path =
        (if ServerEndpoint (Agent d) \<noteq> '''' \<and> DeviceIdPath d \<noteq> '''' then Ret d else Panic))"
proof -
  have read: "GetConfig files yaml path = (if ServerEndpoint (Agent d) \<noteq> '''' \<and> DeviceIdPath d \<noteq> '''' then Ret d else Panic)"
    if "HasSuffix path ''.json''" "config_clean d" "files path = Inr (Marshal Config_t (config_value d))"
    using GetConfig_json [where files = files, OF that(1,3)] config_codec.dec_enc [OF that(2)] by simp
  have bad: "GetConfig files yaml path = Panic"
    if "HasSuffix path ''.json''" "files path = Inr text" "json_parse text = None"
    using GetConfig_json [where files = files, OF that(1,2)] that(3) by (simp add: read_config_def Unmarshal_def)
  have "GetConfig files yaml path = Ret c \<longleftrightarrow>
     (\<exists>content v. files path = Inr content \<and>
        (if HasSuffix path ''.json'' then Unmarshal Config_t content (zero Config_t) = (v, None)
         else (HasSuffix path ''.yml'' \<or> HasSuffix path ''.yaml'') \<and> yaml Config_t content (zero Config_t) = (v, None)) \<and>
        c = config_of v \<and> ServerEndpoint (Agent c) \<noteq> '''' \<and> DeviceIdPath c \<noteq> '''')"
    unfolding GetConfig_Ret_iff
    by (cases "files path") (auto simp: UnmarshalConfigFromFile_def GetFileContent_def split: prod.splits if_splits)
  with read bad show ?thesis by blast
qed

theorem GetConfig_accepts_witness:
  "GetConfig (\<lambda>_. Inr (Marshal Config_t (config_value sample_config))) (\<lambda>_ _ v. (v, None)) ''a.json'' = Ret sample_config \<and>
   GetConfig (\<lambda>_. Inr ''{'') (\<lambda>_ _ v. (v, None)) ''a.json'' = Panic \<and>
   GetConfig (\<lambda>_. Inr ''x'') (\<lambda>_ _ _. (config_value sample_config, None)) ''a.yaml'' = Ret sample_config"
proof -
  have clean: "config_clean sample_config"
    by (simp add: config_clean_def config_value_def sample_config_def ascii_utf8 del: valid_utf8.simps(2))
  have ext: "HasSuffix ''a.json'' ''.json''" "\<not> HasSuffix ''a.yaml'' ''.json''" "HasSuffix ''a.yaml'' ''.yaml''"
    by (simp_all add: HasSuffix_def)
  have named: "ServerEndpoint (Agent sample_config) \<noteq> ''''" "DeviceIdPath sample_config \<noteq> ''''"
    by (simp_all add: sample_config_def)
  have "json_parse ''{'' = None" by code_simp
  then show ?thesis
    using GetConfig_accepts [of "\<lambda>_. Inr (Marshal Config_t (config_value sample_config))" "\<lambda>_ _ v. (v, None)" "''a.json''" sample_config
        "''''" sample_config]
      GetConfig_accepts [of "\<lambda>_. Inr ''{''" "\<lambda>_ _ v. (v, None)" "''a.json''" sample_config "''{''" sample_config]
      GetConfig_accepts [of "\<lambda>_. Inr ''x''" "\<lambda>_ _ _. (config_value sample_config, None)" "''a.yaml''" sample_config "''''" sample_config]
      clean ext named by simp
qed

section \<open>The agent\<close>

text \<open>C30. The agent of cmd/main.go, given a JSON configuration that names endpoint and device-id path, starts
  unless its pprof server has failed by then, which ends the process; neither the machine's devices nor the
  results of creating files and cgroups can keep it from starting. It starts with the process name and
  the port of its flags whatever the file says about them, one worker, the devices with the known
  prefixes, and on each device that can be opened the filter of the port, or all TCP that is neither
  broadcast nor multicast without one.\<close>

theorem agent_starts:
  assumes "config_clean c" "files (flag_config fl) = Inr (Marshal Config_t (config_value c))"
    and "HasSuffix (flag_config fl) ''.json''" "ServerEndpoint (Agent c) \<noteq> ''''" "DeviceIdPath c \<noteq> ''''"
  shows "agent_main files yaml fl (Some err) devices create_err cgroup_err =
      Ret (Fatal ''pprof server failed:'' (ErrMsg err)) \<and>
   (\<exists>nf. agent_main files yaml fl None devices create_err cgroup_err = Ret (Serving nf) \<and>
    filterPName (processHash nf) = flag_pname fl \<and> nf_workers nf = 1 \<and> nf_syncer nf \<and>
    set (nf_sniffing nf) = {n. gm_get (snd (parseIpaddrsAndDevices devices)) n \<noteq> None} \<and>
    (\<forall>open_live dev. open_live dev = None \<longrightarrow>
       captureDevice open_live (\<lambda>_. None) dev [] nf =
         Capturing \<lparr>h_filter = (if flag_filter fl = '''' then ''tcp and (not broadcast and not multicast)''
             else ''tcp and port '' @ flag_filter fl @ '' ''), h_open = True\<rparr> (make_chan 10000000)))"
proof -
  have "flag_config fl \<noteq> ''''" using assms(3) by (auto simp: HasSuffix_def)
  moreover have "GetConfig files yaml (flag_config fl) = Ret c"
    using GetConfig_json [where files = files, OF assms(3,2)] config_codec.dec_enc [OF assms(1)] assms(4,5) by simp
  ultimately have "main_config files yaml fl = Ret (c\<lparr>Nethogs := flag_pname fl, Filter := flag_filter fl\<rparr>)"
    by (simp add: main_config_def)
  from agent_main_starts [OF this, of devices create_err cgroup_err] obtain nf where
    nf: "agent_main files yaml fl None devices create_err cgroup_err = Ret (Serving nf)"
      "filterPName (processHash nf) = flag_pname fl" "nf_workers nf = 1" "nf_syncer nf"
      "nf_sniffing nf = gm_keys (snd (parseIpaddrsAndDevices devices))"
      "\<And>open_live bpf_error dev. open_live dev = None \<Longrightarrow> (\<And>f. bpf_error f = None) \<Longrightarrow>
         captureDevice open_live bpf_error dev [] nf =
           Capturing \<lparr>h_filter = agent_filter fl, h_open = True\<rparr> (make_chan 10000000)"
    by metis
  have "set (gm_keys m) = {n. gm_get m n \<noteq> None}" for m :: "(string, unit) gomap" by (auto simp: gm_mem_keys)
  then have "\<exists>nf. agent_main files yaml fl None devices create_err cgroup_err = Ret (Serving nf) \<and>
    filterPName (processHash nf) = flag_pname fl \<and> nf_workers nf = 1 \<and> nf_syncer nf \<and>
    set (nf_sniffing nf) = {n. gm_get (snd (parseIpaddrsAndDevices devices)) n \<noteq> None} \<and>
    (\<forall>open_live dev. open_live dev = None \<longrightarrow>
       captureDevice open_live (\<lambda>_. None) dev [] nf =
         Capturing \<lparr>h_filter = (if flag_filter fl = '''' then ''tcp and (not broadcast and not multicast)''
             else ''tcp and port '' @ flag_filter fl @ '' ''), h_open = True\<rparr> (make_chan 10000000))"
    using nf by (intro exI [of _ nf]) (simp add: agent_filter_def)
  then show ?thesis by (simp add: agent_main_def)
qed

theorem agent_starts_witness:
  "\<exists>nf. agent_main (\<lambda>_. Inr (Marshal Config_t (config_value sample_config))) (\<lambda>_ _ v. (v, None))
      \<lparr>flag_pname = ''Nginx'', flag_filter = ''443'', flag_config = ''a.json''\<rparr> None None None None = Ret (Serving nf) \<and>
    filterPName (processHash nf) = ''Nginx''"
proof -
  have "config_clean sample_config"
    by (simp add: config_clean_def config_value_def sample_config_def ascii_utf8 del: valid_utf8.simps(2))
  from agent_starts [OF this refl, where fl = "\<lparr>flag_pname = ''Nginx'', flag_filter = ''443'', flag_config = ''a.json''\<rparr>"
      and yaml = "\<lambda>_ _ v. (v, None)" and devices = None and create_err = None and cgroup_err = None and err = "''x''"]
  show ?thesis by (auto simp: HasSuffix_def sample_config_def)
qed

section \<open>The end of the service\<close>

text \<open>C27. core2 never stops reporting and its reports account for the monitored port: whatever packets arrive
  between the ticks, after its one ranking it sends one report a minute, each with the download rate that
  \<open>analyseStats\<close> gives over 60 seconds for a process with the largest total (0 without a process) and a sixtieth of the bytes counted since the last tick (truncated); the bytes counted,
  those still in the counter and those waiting add up to the bytes forwarded by the capture.\<close>

theorem core2_reports_upload:
  assumes "showTable2_monitor interfaces open_live bpf_error = Inr tm"
    and "pc_ok pm h" "all_stats pm h" "range_order ord"
    and "\<forall>tick\<in>set ticks. list_all background (fst tick)"
    and "monitor_run (table_ops ticks) tm = Some (readings, tm')"
  shows "\<exists>rs h' inb. processRanking2 pr net ord clk (Inr tm) ticks c (pm, h) = Some (Ret (Shown rs h' tm')) \<and>
    length rs = length ticks \<and> length readings = length ticks \<and>
    ranked_download clk (procs pm h) inb \<and>
    map snd rs = map2 (\<lambda>(_, t, now) up. reportHandler net t now c inb (quot64 up 60)) ticks readings \<and>
    wrap64 (sum_list readings + TotalTxBytes tm' + queued tm') =
    wrap64 (sum_list (map counted (concat (map (\<lambda>tick. forwarded (fst tick)) ticks))))"
proof -
  obtain rs h' inb where run: "processRanking2 pr net ord clk (Inr tm) ticks c (pm, h) = Some (Ret (Shown rs h' tm'))"
    "length readings = length ticks"
    and reports: "map snd rs = map2 (\<lambda>(_, t, now) up. reportHandler net t now c inb (quot64 up 60)) ticks readings"
    and bytes: "wrap64 (sum_list readings + TotalTxBytes tm' + queued tm') =
      wrap64 (sum_list (map counted (concat (map (\<lambda>tick. forwarded (fst tick)) ticks))))"
    and down: "ranked_download clk (procs pm h) inb"
    by (rule processRanking2_result [OF assms])
  have "length rs = length ticks" using arg_cong [OF reports, of length] run(2) by simp
  then show ?thesis using run reports bytes down by blast
qed

theorem core2_reports_upload_witness:
  "\<exists>tm tm' rs h' inb.
     showTable2_monitor (Inr [\<lparr>if_name = ''eth0'', if_flags = 1, if_addrs = Some [IPNet [10, 0, 0, 1]]\<rparr>])
       (\<lambda>_. None) (\<lambda>_. None) = Inr tm \<and>
     processRanking2 sample_presenter sample_net (\<lambda>m. m) (\<lambda>_. 0) (Inr tm) sample_ticks sample_config
       (sample_pc, sample_heap) = Some (Ret (Shown rs h' tm')) \<and>
     map snd rs = [reportHandler sample_net 60 0 sample_config inb 25, reportHandler sample_net 120 0 sample_config inb 50]"
proof -
  let ?ifs = "Inr [\<lparr>if_name = ''eth0'', if_flags = 1, if_addrs = Some [IPNet [10, 0, 0, 1]]\<rparr>]"
  let ?h = "\<lparr>h_filter = port_filter ''9080'', h_open = True\<rparr>"
  let ?tm = "\<lparr>tm_device = ''eth0'', tm_port = ''9080'', tm_handle = ?h, packetChan = make_chan 100, TotalTxBytes = 0\<rparr>"
  have new: "showTable2_monitor ?ifs (\<lambda>_. None) (\<lambda>_. None) = Inr ?tm"
    by (simp add: showTable2_monitor_def NewTrafficMonitor_def GetDefaultDevice_def flag_set_def FlagUp_def
        IsLoopback_def To4_def)
  have run: "monitor_run (table_ops sample_ticks) ?tm = Some ([1500, 3000], ?tm)"
    by (simp add: sample_ticks_def forward_packet_def process_packet_def count_packet_def chan_room_def chan_send_def
        chan_recv_def make_chan_def GetUploadTraffic_def sample_frame_def)
  have ticks: "\<forall>tick\<in>set sample_ticks. list_all background (fst tick)" by (simp add: sample_ticks_def)
  have "quot64 1500 60 = 25" "quot64 3000 60 = 50" by (simp_all add: quot64_def wrap64_def)
  then have reports: "map2 (\<lambda>(_, t, now) up. reportHandler sample_net t now sample_config inb (quot64 up 60)) sample_ticks [1500, 3000] =
      [reportHandler sample_net 60 0 sample_config inb 25, reportHandler sample_net 120 0 sample_config inb 50]" for inb
    by (simp add: sample_ticks_def)
  obtain rs h' inb where
    "processRanking2 sample_presenter sample_net (\<lambda>m. m) (\<lambda>_. 0) (Inr ?tm) sample_ticks sample_config (sample_pc, sample_heap) =
       Some (Ret (Shown rs h' ?tm))"
    "map snd rs = [reportHandler sample_net 60 0 sample_config inb 25, reportHandler sample_net 120 0 sample_config inb 50]"
    using core2_reports_upload [OF new sample_table range_order_id ticks run, of sample_presenter sample_net "\<lambda>_. 0" sample_config]
    unfolding reports by auto
  with new show ?thesis by (intro exI conjI)
qed

text \<open>C28. In every reachable state of either program, as long as it runs it has taken at most one signal,
  and only if that went to \<open>handleSignals\<close>, which then is gone, with the context cancelled: so the next
  signal ends the program. The ranking goroutine returns only after a cancellation. In core2 the
  processes are ranked at most once: the first table never comes back to the select.\<close>

theorem service_safe:
  assumes "serves core2 s"
  shows "(if sv_main s then sv_taken s = (if sv_handler s then 0 else 1) \<and> sv_handler s = (\<not> sv_cancelled s) else True) \<and>
    (if sv_ranker s = Gone then sv_cancelled s else True) \<and>
    (if core2 then sv_ranked s \<le> 1 \<and> (sv_ranked s = 1) = (sv_ranker s = InTable) else sv_ranker s \<noteq> InTable)"
  using serves_inv [OF assms] by (auto simp: service_inv_def)

theorem service_safe_witness:
  "\<exists>s. serves True s \<and> sv_ranker s = InTable \<and> sv_ranked s = 1 \<and> sv_taken s = 0"
proof -
  let ?s = "service_start\<lparr>sv_ranked := 1, sv_ranker := InTable\<rparr>"
  have "service_step True service_start ?s"
    using service_step.enter_table [of service_start True] by (simp add: service_start_def)
  then have "serves True ?s" using serves.start serves.step by blast
  with service_safe [OF this] show ?thesis by (intro exI [of _ ?s]) (simp add: service_start_def)
qed

end
