(* ===== verification/Spec2Isabelle.thy ===== *)
theory Spec2Isabelle
  imports RingQueue Samples ServiceSpec
begin

text \<open>
  A verification development for go-netflow, a library that watches the TCP traffic of a Linux
  machine and reports it per process.

  \<^bold>\<open>How the program works.\<close> \<open>New\<close> builds a \<open>Netflow\<close> value, \<open>Start\<close> starts its goroutines. One per
  device captures packets into a channel, from which a forwarder moves them to the packet queue
  (\<open>captureDevice\<close>, \<open>enqueue\<close>). Workers take them out (\<open>loopHandlePacket\<close>, \<open>handlePacket\<close>), splice the
  four-tuple into a key (\<open>spliceAddr\<close>), look the key up in the connection table (\<open>Mapping\<close>) to get a
  socket inode, the inode in the process table (\<open>processController\<close>) to get a process, and add the
  size of the packet to the current second of its ring (\<open>IncreaseInput\<close>, \<open>IncreaseOutput\<close>). What
  cannot be attributed waits in the delay queue. The syncer (\<open>startResourceSyncer\<close>) rescans
  \<open>/proc/net/tcp\<close> and \<open>/proc\<close> at each tick and then drains the delay queue. \<open>GetProcessRank\<close> sums the
  rings over a recent window (\<open>analyseStats\<close>) and returns the processes with the largest totals.

  Around the library is an agent: \<open>cmd/main.go\<close> reads a configuration (\<open>GetConfig\<close>) and runs
  \<open>core.Start\<close>, which once a minute ranks the processes, shows a table and reports the rates to a
  server (\<open>reportHandler\<close>) through the JSON client of rpc/. core2/ is a variant whose table counts the
  upload of one port with a packet monitor of its own (\<open>utils.TrafficMonitor\<close>).

  \<^bold>\<open>Theories.\<close>
  \<^item> \<open>Prelude\<close>: outcomes with panics, 64-bit wrap-around, time, Go maps and the locale \<open>keyed_store\<close>.
  \<^item> \<open>GoStrings\<close>: what the source uses of \<open>strings\<close> and \<open>strconv\<close>, with the round trips of numbers.
  \<^item> \<open>ConnTable\<close> (\<open>types.go\<close>): the connection table; interpretation of \<open>keyed_store\<close>.
  \<^item> \<open>Users\<close> (\<open>user.go\<close>), \<open>Addr\<close> (\<open>spliceAddr\<close>), \<open>Netstat\<close> (\<open>netstat.go\<close>): the user table, connection keys,
    and the parser of \<open>/proc/net/tcp\<close> with a description of the kernel's row format.
  \<^item> \<open>TrafficRing\<close> (first part of \<open>process.go\<close>): the ring, against an unbounded log; the locale
    \<open>traffic_recorder\<close> is the contract both increase operations meet. \<open>Ring_account\<close> says which entries the
    ring keeps after any traffic, and so what a window of 60 seconds misses (\<open>analyseStats_minute\<close>).
  \<^item> \<open>ProcScan\<close> and \<open>ProcControl\<close> (rest of \<open>process.go\<close>): the scan of \<open>/proc\<close>, and the process table over a
    store of shared objects, with \<open>Rescan\<close> as a refinement of a merge of abstract tables, and ranking.
  \<^item> \<open>GoChan\<close>: the locale \<open>bounded_fifo\<close> and buffered channels; \<open>RingQueue\<close> (\<open>ringqueue.go\<close>): the other
    provider of that contract, and where it stops being one (sequences of operations: \<open>rq_exec\<close>).
  \<^item> \<open>Netflow\<close>, \<open>Engine\<close>, \<open>Sync\<close> (\<open>netflow.go\<close>): state, options and construction; the packet path; the
    syncer.
  \<^item> \<open>System\<close>: all goroutines as one step relation, reachability, and its invariant. \<open>Attribution\<close>: the
    components put together from packet to process. \<open>History\<close>: the log of what each process received in
    a run, which the rings and the reports follow. \<open>Samples\<close>: a concrete machine and runs of it.
  \<^item> \<open>Float64\<close>: rounding of \<open>float64\<close> to nearest even, fixed and shortest decimal texts and how they read
    back. \<open>JsonText\<close>, \<open>Json\<close>, \<open>JsonNumber\<close>, \<open>GoJson\<close>: \<open>encoding/json\<close> from bytes to Go values: UTF-8,
    strings, grammar, numbers, and encoding and decoding by type. A tree is printed with any white space
    (\<open>json_layout\<close>), so the compact and the indented text are read back by one proof. The locale \<open>codec\<close>
    is the contract of a text format (what is written is read back); it is interpreted on the JSON
    syntax, on the bodies of reports and on the configuration. \<open>Md5\<close>: \<open>crypto/md5\<close>.
  \<^item> \<open>RpcTypes\<close> (\<open>rpc/define.go\<close>): the JSON shape of every struct. \<open>RpcClient\<close> (\<open>rpc/auth.go\<close>, \<open>url.go\<close>,
    \<open>client.go\<close>): signature, headers, calls, and what becomes of an answer: \<open>error_readable\<close> and \<open>error_in\<close>
    describe which JSON objects the client understands and as what, for any answer.
  \<^item> \<open>Monitor\<close> (\<open>utils/helper.go\<close>), \<open>Config\<close> (\<open>config/config.go\<close>, \<open>cmd/main.go\<close>), \<open>Cgroup\<close>
    (\<open>cgroup_linux.go\<close>, \<open>cgroup_os.go\<close>), \<open>Logging\<close> (\<open>log/log.go\<close>).
  \<^item> \<open>Goroutines\<close>: the loops around the operations of the library, \<open>captureDevice\<close> with \<open>buildPcapHandler\<close>
    and the forwarder, \<open>Run\<close> of the process controller, the debug log, \<open>findPid\<close>. \<open>Dump\<close>: the JSON of
    \<open>types.go\<close>, \<open>process.go\<close> and \<open>utils.go\<close>, and \<open>example/demo.go\<close>, which prints a ranking.
  \<^item> \<open>Report\<close> (\<open>core/blocking.go\<close>): start, table and report. \<open>Core2\<close> (\<open>core2/blocking.go\<close>): its options
    and its loop around the monitor; its copies of functions of core agree with them. \<open>Service\<close>: the
    goroutines of both programs as a step relation, the end by a failing pprof server among its steps.
    \<open>Agent\<close> (\<open>cmd/main.go\<close>): from the flags to the running sniffer. \<open>EndToEnd\<close>: what a tick sends in any
    state of a run. \<open>AgentRun\<close>: library and program as one step relation, which refines both; a run is
    the list of its states (\<open>agent_path\<close>), each with the log of what the library has handled up to it, so
    that a report is compared with the log at the moment it is sent. \<open>ServiceSpec\<close>: the properties of all
    these.
  The theorems below and those of \<open>ServiceSpec\<close> are the properties; the others are the library they rest
  on.

  \<^bold>\<open>Conventions.\<close> A Go \<open>int\<close> or \<open>int64\<close> is an integer, wrapped by \<open>wrap64\<close> where it is computed; ports
  and bytes are words. A call that may panic returns in \<open>go\<close>; an error is a value. The clock, the file
  system, libpcap's device list, the order of \<open>range\<close> over a map and the choice of \<open>select\<close> among ready
  cases are arguments, so a theorem holds for all of them. A mutex-protected method is one step.
  The ring of a process has no lock in the source, and an update of it is one step here: what two
  goroutines do to one ring at the same time (a lost update, a second with two entries) is outside the
  model, as is a ranking in the middle of a packet. A send into a queue and the counter beside it are
  one step too. The drain
  loop is a total function (at most one turn per waiting entry); a worker's loop runs over a schedule
  that bounds its turns, and \<open>worker_handles_queue\<close> says how many it needs.

  \<^bold>\<open>JSON and floats.\<close> The parser runs on fuel of twice the length of the text and two, which
  \<open>parse_value_fuel\<close> shows to be enough for every text; so a text it refuses is refused for its form.
  Numbers are rationals rounded by \<open>rnd\<close>: the two zeros are one value, infinities and NaN are absent, and
  the literals of the program do not reach them. Decoding into a slice that has elements reuses those
  that remain, as Go does up to the old length; Go also does so up to the capacity, which is not
  modelled, and no caller passes such a slice. Byte slices, \<open>omitempty\<close>, embedded fields and
  user-defined marshallers do not occur in the types of the program. What \<open>net/http\<close>, the YAML package,
  humanize, cast, the colours, containerd and libpcap do is an argument of the definitions.

  \<^bold>\<open>Not modelled.\<close> The inside of libpcap, the content of the pcap file written, output on the terminal
  (tables, the log lines of the programs, \<open>analyse\<close>), and what the pprof server of cmd/main.go serves; that
  it fails and ends the process is modelled (\<open>agent_main\<close>, \<open>service_step\<close>). Older
  versions of functions kept in comments are not code.
\<close>

section \<open>From the wire to the report\<close>

text \<open>C3. After a rescan that saw a connection in \<open>/proc/net/tcp\<close> and one process holding its socket, a
  packet of that connection is credited to that process, with IP header, TCP header and payload, on
  the output side exactly if its source is one of the machine's addresses; no other process changes
  and nothing is delayed.\<close>

theorem packet_credited_after_rescan:
  assumes "scan_fine env (filterPName (processHash nf)) header rows pids" "nf_pc_ok nf"
    and "key_of_process env rows pids (packet_key ip tcp) pid"
    and "pkt_ipv4 pkt = Some ip" "pkt_tcp pkt = Some tcp"
  shows "\<exists>nf'. rescanResouce env nf = Ret (None, nf') \<and>
    (\<forall>q. procs_of (handlePacket now pkt nf') q =
       (if q = pid
        then map_option (\<lambda>p. increaseProcessTraffic now p (wrap64 (packet_size ip tcp))
               (if gm_get (bindIPs nf) (ip_string (ip_SrcIP ip)) = None then inputSide else outputSide))
             (procs_of nf' q)
        else procs_of nf' q)) \<and>
    procs_of nf' pid \<noteq> None \<and> delayQueue (handlePacket now pkt nf') = delayQueue nf"
proof -
  obtain nf' where nf': "rescanResouce env nf = Ret (None, nf')" "rescanned env rows pids nf nf'"
    using rescanResouce_result [OF assms(1,2)] by blast
  have "owned_by nf' (packet_key ip tcp) pid" by (rule owned_by_rescanned [OF nf'(2) assms(3)])
  then have "procs_of nf' pid \<noteq> None"
    using pc_ok_cell [of "processHash nf'" "heap nf'"] rescanned_frame(1) [OF nf'(2)]
    by (auto simp: owned_by_def procs_of_def procs_def nf_pc_ok_def)
  then show ?thesis
    using nf'(1) known_packet_credited [OF nf'(2) assms(3-5)]
    by (auto simp: determineSide_def isBindIPs_def)
qed

theorem packet_credited_after_rescan_witness:
  "\<exists>nf'. rescanResouce sample_env sample_nf = Ret (None, nf') \<and>
    procs_of (handlePacket 0 sample_pkt nf') ''42'' =
      map_option (\<lambda>p. increaseProcessTraffic 0 p 100 outputSide) (procs_of nf' ''42'') \<and>
    procs_of nf' ''42'' \<noteq> None"
proof -
  have pkt: "pkt_ipv4 sample_pkt = Some sample_ip" "pkt_tcp sample_pkt = Some sample_tcp"
    by (simp_all add: sample_pkt_def)
  have size: "wrap64 (packet_size sample_ip sample_tcp) = 100"
    by (simp add: packet_size_def sample_ip_def sample_tcp_def wrap64_def)
  have "ip_string (ip_SrcIP sample_ip) = ''10.0.0.1''" unfolding sample_ip_def by code_simp
  then have "gm_get (bindIPs sample_nf) (ip_string (ip_SrcIP sample_ip)) \<noteq> None"
    by (simp add: sample_nf_def gm_get_def)
  then show ?thesis
    using packet_credited_after_rescan [OF sample_fine sample_nf_ok(1) sample_key_of pkt, of 0]
    by (auto simp: size)
qed

text \<open>C4. A packet of a connection the tables do not know waits in the delay queue; the next tick whose
  rescan sees the connection credits it, at the time the syncer handles it, to the process that
  holds the socket and to no other. The queue is empty afterwards and every process is the scanned
  one with its history.\<close>

theorem delayed_packet_credited_by_tick:
  assumes "scan_fine env (filterPName (processHash nf)) header rows pids"
    and "nf_pc_ok nf" "\<not> nf_done nf"
    and "chan_buf (delayQueue nf) = []" "0 < chan_cap (delayQueue nf)"
    and "key_of_process env rows pids (packet_key ip tcp) pid"
    and "pkt_ipv4 pkt = Some ip" "pkt_tcp pkt = Some tcp"
    and "owner_of nf (packet_key ip tcp) = None" and "now \<le> lastTime"
  shows "\<exists>nf2. tick env lastTime sel clk (None, handlePacket now pkt nf) = Ret (None, nf2) \<and>
    chan_buf (delayQueue nf2) = [] \<and>
    (\<forall>q. procs_of nf2 q =
       map_option (\<lambda>po. account (if q = pid
           then [(clk 0, determineSide nf (ip_string (ip_SrcIP ip)), wrap64 (packet_size ip tcp))] else [])
           (merge_scan (procs_of nf q) po))
         (scan_result (env_fs env) (filterPName (processHash nf)) pids q))"
  using assms by (rule delayed_packet_credited)

theorem delayed_packet_credited_by_tick_witness:
  "\<exists>nf2. tick sample_env 9 (\<lambda>_. False) (\<lambda>_. 10) (None, handlePacket 8 sample_pkt sample_nf) = Ret (None, nf2) \<and>
    chan_buf (delayQueue nf2) = []"
proof -
  have pkt: "pkt_ipv4 sample_pkt = Some sample_ip" "pkt_tcp sample_pkt = Some sample_tcp"
    by (simp_all add: sample_pkt_def)
  have "delayQueue sample_nf = make_chan (nat defaultQueueSize)" "connInodeHash sample_nf = NewMapping"
    using sample_nf_ok(3) by (simp_all add: pristine_def)
  then have q: "chan_buf (delayQueue sample_nf) = []" "0 < chan_cap (delayQueue sample_nf)"
    and owner: "owner_of sample_nf (packet_key sample_ip sample_tcp) = None"
    by (simp_all add: make_chan_def defaultQueueSize_def owner_of_def)
  show ?thesis
    using delayed_packet_credited_by_tick [OF sample_fine sample_nf_ok(1,2) q sample_key_of pkt owner,
        of 8 9 "\<lambda>_. False" "\<lambda>_. 10"] by auto
qed

text \<open>C5. The report is exact in every run: however captures, workers, rescans, drains, clean-ups and other
  rankings have interleaved, a ranking over a window of 1 to 59 seconds gives every process in the table
  the sums, per direction, of the traffic handled for it since it came into the table that falls in
  the window, whatever the ring has evicted by then, and ranks by them.\<close>

theorem report_is_exact:
  assumes "logged s L" "range_order ord" "0 \<le> limit" "0 < sec" "sec \<le> 59" "\<forall>pid. sy_now s \<le> clk pid"
  shows "\<exists>prank pm h.
    GetProcessRank ord clk limit sec (processHash (sy_nf s), heap (sy_nf s)) = Ret (Inr prank, pm, h) \<and>
    top_ranked h (dict_addrs (processHash (sy_nf s))) limit prank \<and>
    (\<forall>pid. map_option TrafficStats (procs pm h pid) =
       map_option (\<lambda>_. Some (window_stats (clk pid) sec (L pid))) (procs_of (sy_nf s) pid))"
  using assms by (rule logged_report)

theorem report_is_exact_witness:
  "\<exists>s L prank pm h. logged s L \<and>
    GetProcessRank (\<lambda>m. m) (\<lambda>_. 9 * second) 5 10 (processHash (sy_nf s), heap (sy_nf s)) = Ret (Inr prank, pm, h) \<and>
    map_option (map_option st_Out) (map_option TrafficStats (procs pm h ''42'')) = Some (Some 100)"
proof -
  obtain s L where run: "logged s L" "sy_now s = 7 * second" "L ''42'' = [(7 * second, outputSide, 100)]"
    "\<forall>q. procs_of (sy_nf s) q \<noteq> None \<longleftrightarrow> q = ''42''" by (rule sample_logged)
  have "st_Out (window_stats (9 * second) 10 (L ''42'')) = 100"
    by (simp add: run(3) window_stats_def bytes_since_def unix_def Let_def wrap64_def)
  moreover obtain prank pm h where
    rank: "GetProcessRank (\<lambda>m. m) (\<lambda>_. 9 * second) 5 10 (processHash (sy_nf s), heap (sy_nf s)) = Ret (Inr prank, pm, h)"
    and "\<forall>pid. map_option TrafficStats (procs pm h pid) =
       map_option (\<lambda>_. Some (window_stats (9 * second) 10 (L pid))) (procs_of (sy_nf s) pid)"
    using report_is_exact [OF run(1) range_order_id, of 5 10 "\<lambda>_. 9 * second"] run(2) by auto
  ultimately have "map_option (map_option st_Out) (map_option TrafficStats (procs pm h ''42'')) = Some (Some 100)"
    using run(4) by auto
  then show ?thesis using run(1) rank by blast
qed

section \<open>The running system\<close>

text \<open>C6. No packet is counted twice, however the workers, the syncer and the scans interleave: the events
  in the logs of all processes of the table, together with the entries that still wait, are at most the
  packets taken out of the queue.\<close>

theorem counted_once:
  assumes "logged s L"
  shows "(\<Sum>pid\<in>{pid. procs_of (sy_nf s) pid \<noteq> None}. length (L pid)) +
    length (pending (sy_entry s, sy_nf s)) \<le> length (sy_out s)"
  using logged_once [OF assms] by (simp add: logged_total_def in_table_def)

theorem counted_once_witness:
  "\<exists>s L. logged s L \<and> L ''42'' = [(7 * second, outputSide, 100)] \<and>
    (\<Sum>pid\<in>{pid. procs_of (sy_nf s) pid \<noteq> None}. length (L pid)) + length (pending (sy_entry s, sy_nf s)) \<le> length (sy_out s)"
proof -
  obtain s L where "logged s L" "L ''42'' = [(7 * second, outputSide, 100)]" by (rule sample_logged)
  then show ?thesis using counted_once [of s L] by blast
qed

text \<open>C7. In every reachable state the two queues hold at most two million elements each, and every
  process in the table has statistics and a ring of at most 61 entries with strictly increasing
  seconds, none of them in the future.\<close>

theorem reachable_bounded:
  assumes "reachable s"
  shows "length (chan_buf (packetQueue (sy_nf s))) \<le> 2000000 \<and>
    length (chan_buf (delayQueue (sy_nf s))) \<le> 2000000 \<and>
    (procs_of (sy_nf s) pid = Some p \<longrightarrow>
       TrafficStats p \<noteq> None \<and> length (Ring p) \<le> 61 \<and>
       sorted_wrt (<) (map Timestamp (Ring p)) \<and> (\<forall>e\<in>set (Ring p). Timestamp e \<le> unix (sy_now s)))"
proof -
  have inv: "tables_ok (unix (sy_now s)) (sy_nf s)" "queues_ok s"
    using reachable_inv [OF assms] by (simp_all add: sys_inv_def)
  have "proc_fine (unix (sy_now s)) p" if "procs_of (sy_nf s) pid = Some p"
    using that inv(1) by (simp add: procs_of_def tables_ok_def all_procs_def)
  then show ?thesis
    using inv(2) by (auto simp: proc_fine_def maxRingSize_def log_sorted_def queues_ok_def queue_ok_def
        chan_ok_def defaultQueueSize_def)
qed

theorem reachable_bounded_witness:
  "length (chan_buf (packetQueue (sy_nf sample_queued))) \<le> 2000000"
  using reachable_bounded [OF sample_reachable] by blast

text \<open>C8. Packets are neither lost nor reordered between acceptance and the workers, the packet counter
  is the number of accepted packets (wrapped to 64 bits), and delayed entries are handled in the
  order in which they were queued: what was handled, the pending entry and the queue together are
  what was accepted.\<close>

theorem reachable_conserves:
  assumes "reachable s"
  shows "sy_in s = sy_out s @ chan_buf (packetQueue (sy_nf s)) \<and>
    LoadCounter (sy_nf s) = wrap64 (int (length (sy_in s))) \<and>
    sy_pushed s = sy_taken s @ pending (sy_entry s, sy_nf s)"
  using reachable_inv [OF assms] by (simp add: sys_inv_def queues_ok_def LoadCounter_def)

theorem reachable_conserves_witness:
  "sy_in sample_queued = [Some sample_pkt] \<and> LoadCounter (sy_nf sample_queued) = 1"
  using reachable_conserves [OF sample_reachable] by (simp add: sample_queued_def wrap64_def)

text \<open>C9. In every reachable state a call of \<open>GetProcessRank\<close> with a limit that is not negative and a
  window of at most 61 seconds returns without a panic: the \<open>limit\<close> processes with the largest
  totals, largest first, each process at most once.\<close>

theorem reachable_rank_safe:
  assumes "reachable s" "range_order ord" "0 \<le> limit" "sec \<le> 61"
  shows "\<exists>prank pm h.
    GetProcessRank ord clk limit sec (processHash (sy_nf s), heap (sy_nf s)) = Ret (Inr prank, pm, h) \<and>
    top_ranked h (dict_addrs (processHash (sy_nf s))) limit prank"
proof -
  have inv: "tables_ok (unix (sy_now s)) (sy_nf s)"
    using reachable_inv [OF assms(1)] by (simp add: sys_inv_def)
  then have "all_stats (processHash (sy_nf s)) (heap (sy_nf s))"
    unfolding all_stats_procs tables_ok_def by (auto intro: all_procs_mono simp: proc_fine_def)
  then show ?thesis
    using GetProcessRank_result [of "processHash (sy_nf s)" "heap (sy_nf s)" ord limit sec clk] inv assms(2-4)
    by (auto simp: tables_ok_def nf_pc_ok_def maxRingSize_def)
qed

theorem reachable_rank_safe_witness:
  "\<exists>prank pm h. GetProcessRank (\<lambda>m. m) (\<lambda>_. 0) 5 10
     (processHash (sy_nf sample_queued), heap (sy_nf sample_queued)) = Ret (Inr prank, pm, h)"
  using reachable_rank_safe [OF sample_reachable range_order_id, of 5 10 "\<lambda>_. 0"] by auto

text \<open>C20. A worker alone with its queue handles the packets in the order they were queued; it then waits
  on the empty queue, or returns at the first nil packet and leaves what is behind it.\<close>

theorem worker_handles_queue:
  assumes "\<not> nf_done nf" "chan_buf (packetQueue nf) = map Some pkts @ rest"
    and "rest = [] \<or> hd rest = None" "length turns = Suc (length pkts)"
  shows "loopHandlePacket turns nf =
    (if rest = [] then Waiting else Returned,
     (handle_packets (zip (map snd turns) pkts) nf)\<lparr>packetQueue := (packetQueue nf)\<lparr>chan_buf := tl rest\<rparr>\<rparr>)"
  using assms by (rule worker_result)

theorem worker_handles_queue_witness:
  "fst (loopHandlePacket [(True, 1), (False, 2)]
     (sample_nf\<lparr>packetQueue := \<lparr>chan_buf = [Some sample_pkt, None, Some sample_pkt], chan_cap = 9\<rparr>\<rparr>)) = Returned"
proof -
  let ?nf = "sample_nf\<lparr>packetQueue := \<lparr>chan_buf = [Some sample_pkt, None, Some sample_pkt], chan_cap = 9\<rparr>\<rparr>"
  have "\<not> nf_done ?nf" using sample_nf_ok(2) by simp
  from worker_handles_queue [OF this, of "[sample_pkt]" "[None, Some sample_pkt]" "[(True, 1), (False, 2)]"]
  show ?thesis by simp
qed

text \<open>C19. A drain of the delay queue (before the context is done) handles, first in first out, the longest
  run of entries at the front that are no younger than the rescan, keeps the first younger one
  pending with everything behind it, and credits each process with the events of its entries.\<close>

theorem drain_is_fifo:
  assumes "\<not> nf_done nf" "nf_pc_ok nf" "drain sel clk lastTime (entry, nf) = (entry', nf')"
  shows "pending (entry', nf') = dropWhile (\<lambda>e. de_timestamp e \<le> lastTime) (pending (entry, nf)) \<and>
    procs_of nf' pid = map_option (account (delay_events nf clk
        (takeWhile (\<lambda>e. de_timestamp e \<le> lastTime) (pending (entry, nf))) pid)) (procs_of nf pid)"
proof -
  let ?es = "takeWhile (\<lambda>e. de_timestamp e \<le> lastTime) (pending (entry, nf))"
  have nf': "nf' = (handle_entries clk ?es nf)\<lparr>delayQueue := delayQueue nf'\<rparr>"
    using drain_result [OF assms(1,3)] by blast
  have "procs_of nf' pid = procs_of (handle_entries clk ?es nf) pid"
    by (subst nf') (simp add: procs_of_def)
  then show ?thesis
    using drain_result [OF assms(1,3)] procs_of_handle_entries [OF assms(2)] by simp
qed

theorem drain_is_fifo_witness:
  "\<exists>entry' nf'. drain (\<lambda>_. True) (\<lambda>_. 9) 6 (Some sample_entry,
      sample_nf\<lparr>delayQueue := \<lparr>chan_buf = [sample_entry\<lparr>de_timestamp := 8\<rparr>, sample_entry], chan_cap = 3\<rparr>\<rparr>) = (entry', nf') \<and>
    pending (entry', nf') = [sample_entry\<lparr>de_timestamp := 8\<rparr>, sample_entry]"
proof -
  let ?nf = "sample_nf\<lparr>delayQueue := \<lparr>chan_buf = [sample_entry\<lparr>de_timestamp := 8\<rparr>, sample_entry], chan_cap = 3\<rparr>\<rparr>"
  obtain entry' nf' where d: "drain (\<lambda>_. True) (\<lambda>_. 9) 6 (Some sample_entry, ?nf) = (entry', nf')" by force
  have "\<not> nf_done ?nf" "nf_pc_ok ?nf" using sample_nf_ok by (simp_all add: nf_pc_ok_def)
  from drain_is_fifo [OF this d] d show ?thesis by (simp add: pending_def sample_entry_def)
qed

section \<open>The history of a process\<close>

text \<open>C10. Whatever traffic is fed to a process with an empty history, its ring is the end of the
  unbounded per-second log of that traffic: the whole log, or at least its last 60 seconds.\<close>

theorem ring_refines_log:
  assumes "Ring p = []"
  shows "recent (event_log evs) (Ring (account evs p))"
  using assms by (rule recent_account)

theorem ring_refines_log_witness:
  "recent (event_log [(5 * second, inputSide, 7), (5 * second, outputSide, 2), (9 * second, inputSide, 1)])
    (Ring (account [(5 * second, inputSide, 7), (5 * second, outputSide, 2), (9 * second, inputSide, 1)]
       (new_process ''1'' ''2'' '''' '''')))"
  using ring_refines_log [of "new_process ''1'' ''2'' '''' ''''"] by (simp add: new_process_def)

text \<open>C11. \<open>analyseStats\<close> over 1 to 59 seconds gives the exact byte counts (wrapped to 64 bits) of the
  events in the window and their rates.\<close>

theorem analyseStats_exact:
  assumes "Ring p = []" "sorted (map fst evs)" "\<forall>ev\<in>set evs. fst ev \<le> now" "0 < sec" "sec \<le> 59"
  shows "TrafficStats (analyseStats now sec (account evs p)) =
    Some (zero_stats\<lparr>st_In := wrap64 (bytes_since inputSide (unix now - sec) evs),
      st_Out := wrap64 (bytes_since outputSide (unix now - sec) evs),
      st_InRate := quot64 (wrap64 (bytes_since inputSide (unix now - sec) evs)) sec,
      st_OutRate := quot64 (wrap64 (bytes_since outputSide (unix now - sec) evs)) sec\<rparr>)"
  using analyseStats_account [OF assms] by (simp add: window_stats_def Let_def)

theorem analyseStats_exact_witness:
  "map_option st_In (TrafficStats (analyseStats (9 * second) 3
     (account [(5 * second, inputSide, 7), (6 * second, inputSide, 4), (8 * second, outputSide, 3),
        (9 * second, inputSide, 6)] (new_process ''1'' ''2'' '''' '''')))) = Some 10"
  using analyseStats_exact [of "new_process ''1'' ''2'' '''' ''''"
      "[(5 * second, inputSide, 7), (6 * second, inputSide, 4), (8 * second, outputSide, 3), (9 * second, inputSide, 6)]"
      "9 * second" 3]
  by (simp add: new_process_def bytes_since_def unix_def wrap64_def)

text \<open>C39. A window of 60 seconds, which \<open>GetProcessRank\<close> accepts too, for any traffic: the statistics are those
  of the events of the last 60 seconds, except when each of the 61 seconds the window spans has had
  traffic and the current one more than once. Then exactly the bytes of the first of these seconds are
  missing, because \<open>shrink\<close> drops an entry before it looks whether the current second already has one.\<close>

theorem window_of_a_minute:
  assumes "Ring p = []" "sorted (map fst evs)" "\<forall>ev\<in>set evs. fst ev \<le> now"
    and "T = unix now - (if list_all (\<lambda>s. at_second s evs \<noteq> []) [unix now - 60..unix now] \<and> 2 \<le> length (at_second (unix now) evs)
             then 59 else 60)"
  shows "TrafficStats (analyseStats now 60 (account evs p)) =
    Some (zero_stats\<lparr>st_In := wrap64 (bytes_since inputSide T evs), st_Out := wrap64 (bytes_since outputSide T evs),
      st_InRate := quot64 (wrap64 (bytes_since inputSide T evs)) 60,
      st_OutRate := quot64 (wrap64 (bytes_since outputSide T evs)) 60\<rparr>)"
  using analyseStats_minute [OF assms(1-3)] assms(4) by (simp add: full_minute_def)

theorem window_of_a_minute_witness:
  "bytes_since inputSide (unix (60 * second) - 60) minute_of_events = 62 \<and>
   map_option st_In (TrafficStats (analyseStats (60 * second) 60
     (account minute_of_events (new_process ''1'' ''2'' '''' '''')))) = Some 61"
proof -
  let ?now = "60 * second"
  have ok: "sorted (map fst minute_of_events)" "\<forall>ev\<in>set minute_of_events. fst ev \<le> ?now"
    and full: "list_all (\<lambda>s. at_second s minute_of_events \<noteq> []) [unix ?now - 60..unix ?now]"
      "2 \<le> length (at_second (unix ?now) minute_of_events)"
    and bytes: "bytes_since inputSide (unix ?now - 59) minute_of_events = 61"
      "bytes_since inputSide (unix ?now - 60) minute_of_events = 62"
    by code_simp+
  then show ?thesis
    using window_of_a_minute [of "new_process ''1'' ''2'' '''' ''''" minute_of_events ?now "unix ?now - 59"]
    by (simp add: new_process_def wrap64_def)
qed

section \<open>Reading the operating system\<close>

text \<open>C15. A row in the kernel's format is decoded to exactly what it says, whatever its padding: the key
  of its connection, the reverse key, addresses, state, queues, user and inode. Only established and
  listening sockets with a remote address are kept. Nothing panics.\<close>

theorem row_decoded:
  assumes "row_ok r" "length pads = length (row_fields r)"
  shows "getConnectionItem users (row_text pads r) =
    Ret (if (row_st r = ''01'' \<or> row_st r = ''0A'') \<and> row_remote r \<noteq> IPv4 0 0 0 0
         then Some (row_item users pads r) else None)"
  using getConnectionItem_row [OF assms]
  by (simp add: row_kept_def EstablishedSymbol_def ListenSymbol_def)

theorem row_decoded_witness:
  "getConnectionItem None (row_text sample_pads sample_row) = Ret (Some (row_item None sample_pads sample_row))"
  unfolding row_decoded [OF sample_row_ok] by (simp add: sample_row_def)

text \<open>C16. What the parser of \<open>/proc/net/tcp\<close> stores for a row and what \<open>handlePacket\<close> looks up agree, in both
  directions, and no other connection is taken for it: under the address of the row's item alone, a
  packet finds its process, and is not delayed, exactly if it goes from the row's local to its remote
  end; under the reverse address exactly if it goes back.\<close>

theorem packet_finds_row:
  assumes "row_ok r" "length pads = length (row_fields r)" "getConnectionItem users (row_text pads r) = Ret (Some ci)"
    and "GetProcessByInode (processHash nf) (row_inode r) \<noteq> None"
    and "pkt_ipv4 pkt = Some ip" "pkt_tcp pkt = Some tcp" "chan_room (delayQueue nf)"
  shows "(delayQueue (handlePacket now pkt (nf\<lparr>connInodeHash := Add t (ci_Addr ci) (ci_Inode ci) NewMapping\<rparr>)) = delayQueue nf \<longleftrightarrow>
      ip_SrcIP ip = row_local r \<and> tcp_SrcPort tcp = row_lport r \<and>
      ip_DstIP ip = row_remote r \<and> tcp_DstPort tcp = row_rport r) \<and>
   (delayQueue (handlePacket now pkt (nf\<lparr>connInodeHash := Add t (ci_ReverseAddr ci) (ci_Inode ci) NewMapping\<rparr>)) = delayQueue nf \<longleftrightarrow>
      ip_SrcIP ip = row_remote r \<and> tcp_SrcPort tcp = row_rport r \<and>
      ip_DstIP ip = row_local r \<and> tcp_DstPort tcp = row_lport r)"
proof -
  have ci: "ci = row_item users pads r"
    using assms(3) unfolding getConnectionItem_row [OF assms(1,2)] by (auto split: if_splits)
  have inode: "row_inode r \<noteq> ''''" using assms(1) by (auto simp: row_ok_def plain_field_def)
  have grows: "chan_send de (delayQueue nf) \<noteq> delayQueue nf" for de
    by (auto simp: chan_send_def dest: arg_cong [of _ _ chan_buf])
  have "delayQueue (handlePacket now pkt (nf\<lparr>connInodeHash := Add t key (row_inode r) NewMapping\<rparr>)) = delayQueue nf \<longleftrightarrow>
      packet_key ip tcp = key" for key
    using assms(4,7) inode
    by (cases "GetProcessByInode (processHash nf) (row_inode r)")
      (auto simp: handlePacket_cases [OF assms(5,6)] owner_of_def gomap_simps frame_simps pushDelayQueue_def grows
        split: option.split)
  then show ?thesis by (simp add: ci row_item_def packet_key_def spliceAddr_inject)
qed

theorem packet_finds_row_witness:
  "\<exists>ci nf. getConnectionItem None (row_text sample_pads sample_row) = Ret (Some ci) \<and>
    nf = sample_nf\<lparr>processHash := NewProcessController\<lparr>pc_dict := [(''42'', 0)], inodePidMap := [(''7777'', ''42'')]\<rparr>\<rparr> \<and>
    delayQueue (handlePacket 0 sample_pkt (nf\<lparr>connInodeHash := Add 0 (ci_Addr ci) (ci_Inode ci) NewMapping\<rparr>)) = delayQueue nf \<and>
    delayQueue (handlePacket 0 sample_pkt (nf\<lparr>connInodeHash := Add 0 (ci_ReverseAddr ci) (ci_Inode ci) NewMapping\<rparr>)) \<noteq> delayQueue nf"
proof -
  let ?pm = "NewProcessController\<lparr>pc_dict := [(''42'', 0)], inodePidMap := [(''7777'', ''42'')]\<rparr>"
  let ?nf = "sample_nf\<lparr>processHash := ?pm\<rparr>"
  let ?ci = "row_item None sample_pads sample_row"
  have item: "getConnectionItem None (row_text sample_pads sample_row) = Ret (Some ?ci)"
    unfolding getConnectionItem_row [OF sample_row_ok] by (simp add: sample_row_def row_kept_def EstablishedSymbol_def)
  have inode: "GetProcessByInode (processHash ?nf) (row_inode sample_row) \<noteq> None"
    by (simp add: GetProcessByInode_def sample_row_def gm_get_def)
  have pkt: "pkt_ipv4 sample_pkt = Some sample_ip" "pkt_tcp sample_pkt = Some sample_tcp" by (simp_all add: sample_pkt_def)
  have room: "chan_room (delayQueue ?nf)"
    using sample_nf_ok(3) by (simp add: pristine_def make_chan_def chan_room_def defaultQueueSize_def)
  have ends: "ip_SrcIP sample_ip = row_local sample_row" "tcp_SrcPort sample_tcp = row_lport sample_row"
    "ip_DstIP sample_ip = row_remote sample_row" "tcp_DstPort sample_tcp = row_rport sample_row"
    "row_lport sample_row \<noteq> row_rport sample_row"
    by (simp_all add: sample_row_def sample_ip_def sample_tcp_def)
  show ?thesis
    using packet_finds_row [OF sample_row_ok item inode pkt room, of 0 0] item ends
    by (intro exI [of _ ?ci] exI [of _ ?nf]) simp
qed

text \<open>C36. Which rows end the program: a row of at most three fields always does, since the parser looks at
  its fourth field first; and only a row of fewer than ten fields, or one without a colon in its queue
  field, can, whatever else is in it.\<close>

theorem row_panics:
  "(length (line_fields line) \<le> 3 \<longrightarrow> getConnectionItem users line = Panic) \<and>
   (getConnectionItem users line = Panic \<longrightarrow>
      length (line_fields line) < 10 \<or> CHR '':'' \<notin> set (line_fields line ! 4))"
  using getConnectionItem_short [of line users] getConnectionItem_long [of line users] by (meson not_less)

theorem row_panics_witness:
  "getConnectionItem None ''0: 0100007F:1F90 0200007F:9C40'' = Panic \<and>
   getConnectionItem None ''a b c 01 x: d e f g h'' \<noteq> Panic"
proof -
  have "length (line_fields ''0: 0100007F:1F90 0200007F:9C40'') \<le> 3" "length (line_fields ''a b c 01 x: d e f g h'') = 10"
    "line_fields ''a b c 01 x: d e f g h'' ! 4 = ''x:''"
    by (simp_all add: line_fields_def TrimSpace_def is_space_def)
  then show ?thesis
    using row_panics [of "''0: 0100007F:1F90 0200007F:9C40''" None] row_panics [of "''a b c 01 x: d e f g h''" None] by auto
qed

text \<open>C14. What a rescan of the connections leaves in the table: for each row that is kept, in file order,
  the inode under the key and under the reverse key; a later store to a key replaces an earlier one
  and other keys keep what they had.\<close>

theorem rescanConns_table:
  assumes "tcp_file (env_open env) header rows" "rows_ok rows"
  shows "\<exists>m'. rescanConns env nf = Ret (None, nf\<lparr>connInodeHash := m'\<rparr>) \<and>
    lookup m' = puts (lookup (connInodeHash nf)) (rows_puts rows)"
  using rescanConns_result [OF assms] by blast

theorem rescanConns_table_witness:
  "\<exists>m'. rescanConns sample_env sample_nf = Ret (None, sample_nf\<lparr>connInodeHash := m'\<rparr>) \<and>
    lookup m' (spliceAddr (IPv4 10 0 0 2) 40000 (IPv4 10 0 0 1) 8080) = Some ''7777''"
  using rescanConns_table [OF sample_file_ok sample_rows_ok, of sample_nf]
  by (auto simp: sample_puts spliceAddr_inject)

text \<open>C32. \<open>Cleanup\<close> removes exactly the entries older than the expiration.\<close>

theorem Cleanup_exact:
  assumes "table_ok m"
  shows "gm_get (dict (Cleanup now x m)) k =
    (case gm_get (dict m) k of
       None \<Rightarrow> None
     | Some e \<Rightarrow> if x < time_sub now (entry_timestamp e) then None else Some e)"
  using assms by (rule get_Cleanup)

theorem Cleanup_exact_witness:
  "gm_get (dict (Cleanup (200 * second) (2 * minute) (Add (90 * second) ''b'' ''2'' (Add 0 ''a'' ''1'' NewMapping)))) ''a'' = None \<and>
   gm_get (dict (Cleanup (200 * second) (2 * minute) (Add (90 * second) ''b'' ''2'' (Add 0 ''a'' ''1'' NewMapping)))) ''b''
     \<noteq> None"
proof -
  have "table_ok (Add (90 * second) ''b'' ''2'' (Add 0 ''a'' ''1'' NewMapping))" by (intro table_ok_Add table_ok_New)
  from Cleanup_exact [OF this] show ?thesis
    by (simp add: Add_def NewMapping_def gm_get_set time_sub_def)
qed

section \<open>The process table\<close>

text \<open>C12. A rescan of \<open>/proc\<close> refines a merge on the map from pids to processes: afterwards the table has
  exactly the scanned pids; a known one keeps its object, its address and its history and gets the
  new list of inodes; a new one is as scanned.\<close>

theorem Rescan_merges:
  assumes "proc_scan fs (filterPName pm) pids" "range_order ord" "pc_ok pm h"
  shows "\<exists>pm' h'. Rescan ord fs (pm, h) = Ret (None, pm', h') \<and> pc_ok pm' h' \<and>
    (\<forall>pid. procs pm' h' pid =
       map_option (merge_scan (procs pm h pid)) (scan_result fs (filterPName pm) pids pid)) \<and>
    (\<forall>pid a. gm_get (pc_dict pm) pid = Some a \<and> scan_result fs (filterPName pm) pids pid \<noteq> None \<longrightarrow>
       gm_get (pc_dict pm') pid = Some a)"
proof -
  obtain pm' h' ps where r: "Rescan ord fs (pm, h) = Ret (None, pm', h')"
    "rescan_apply ps (pm, h) = (pm', h')" "gm_ok ps"
    "\<forall>pid. gm_get ps pid = scan_result fs (filterPName pm) pids pid"
    using Rescan_scan [OF assms] by blast
  note res = rescan_apply_result [OF r(3) assms(3) r(2)]
  show ?thesis using r(1,4) res(1,2,3) by (intro exI [of _ pm'] exI [of _ h']) auto
qed

theorem Rescan_merges_witness:
  "\<exists>pm' h'. Rescan (\<lambda>m. m) sample_fs (sample_pc, sample_heap) = Ret (None, pm', h') \<and>
    gm_get (pc_dict pm') ''42'' = Some 0"
proof -
  have scan: "proc_scan sample_fs (filterPName sample_pc) [''42'']"
    using sample_proc_scan by (simp add: sample_pc_def NewProcessController_def sample_env_def)
  have ok: "pc_ok sample_pc sample_heap"
    by (auto simp: pc_ok_def sample_pc_def sample_heap_def NewProcessController_def store_ok_def gm_ok_def
        gm_get_def split: if_splits)
  have "pid_links sample_fs ''42'' = [''socket:[7777]'']" using sample_links by (simp add: sample_env_def)
  then have "scan_result sample_fs (filterPName sample_pc) [''42''] ''42'' \<noteq> None"
    by (simp add: scan_result_def)
  moreover have "gm_get (pc_dict sample_pc) ''42'' = Some 0" by (simp add: sample_pc_def gm_get_def)
  ultimately show ?thesis using Rescan_merges [OF scan range_order_id ok] by blast
qed

text \<open>C17. After a rescan the lookup by inode finds a process exactly if a scanned process has a socket
  with that inode open, and then one that has, which is in the table under its pid.\<close>

theorem GetProcessByInode_finds_owner:
  assumes "proc_scan fs (filterPName pm) pids" "range_order ord" "pc_ok pm h"
  shows "\<exists>pm' h'. Rescan ord fs (pm, h) = Ret (None, pm', h') \<and>
    (GetProcessByInode pm' inode = None \<longleftrightarrow> (\<forall>pid. \<not> scan_owns fs pids pid inode)) \<and>
    (\<forall>a. GetProcessByInode pm' inode = Some a \<longrightarrow>
      (\<exists>pid p. scan_owns fs pids pid inode \<and> gm_get (pc_dict pm') pid = Some a \<and> cells h' a = Some p \<and>
         inode \<in> set (inodes p)))"
proof -
  obtain pm' h' ps where r: "Rescan ord fs (pm, h) = Ret (None, pm', h')"
    "rescan_apply ps (pm, h) = (pm', h')" "gm_ok ps"
    "\<forall>pid. gm_get ps pid = scan_result fs (filterPName pm) pids pid"
    using Rescan_scan [OF assms] by blast
  have "(GetProcessByInode pm' inode = None \<longleftrightarrow> (\<forall>pid. \<not> scan_owns fs pids pid inode)) \<and>
    (\<forall>a. GetProcessByInode pm' inode = Some a \<longrightarrow>
      (\<exists>pid p. scan_owns fs pids pid inode \<and> gm_get (pc_dict pm') pid = Some a \<and> cells h' a = Some p \<and>
         inode \<in> set (inodes p)))"
    using GetProcessByInode_result [OF r(3) assms(3) r(2), of inode] unfolding owns_scan [OF r(3,4)] .
  then show ?thesis using r(1) by (intro exI [of _ pm'] exI [of _ h'] conjI) simp_all
qed

theorem GetProcessByInode_finds_owner_witness:
  "\<exists>pm' h'. Rescan (\<lambda>m. m) sample_fs (NewProcessController, empty_store) = Ret (None, pm', h') \<and>
    GetProcessByInode pm' ''7777'' \<noteq> None"
proof -
  have scan: "proc_scan sample_fs (filterPName NewProcessController) [''42'']"
    using sample_proc_scan by (simp add: NewProcessController_def sample_env_def)
  have "scan_owns sample_fs [''42''] ''42'' ''7777''" using sample_owns by (simp add: sample_env_def)
  then show ?thesis
    using GetProcessByInode_finds_owner [OF scan range_order_id pc_ok_New, of "''7777''"] by blast
qed

text \<open>C18. \<open>GetProcesses\<close> finds exactly the matching processes that have a socket open, each with the
  inodes of its socket links in order and their number.\<close>

theorem GetProcesses_finds:
  assumes "getMatchingPIDs fs f = Inr pids" "distinct pids" "\<forall>pid\<in>set pids. links_fine fs pid"
  shows "\<exists>ppm. GetProcesses fs f = Ret (Inr ppm) \<and>
    (\<forall>pid. gm_get ppm pid =
       (if pid \<in> set pids \<and> pid_links fs pid \<noteq> []
        then Some ((new_process pid '''' f (getProcessExe fs pid))
               \<lparr>inodes := map inode_of (pid_links fs pid),
                InodeCount := wrap64 (int (length (pid_links fs pid)))\<rparr>)
        else None))"
  using GetProcesses_result [OF assms] by (auto simp: scanned_def)

theorem GetProcesses_finds_witness:
  "\<exists>ppm. GetProcesses sample_fs '''' = Ret (Inr ppm) \<and>
     map_option inodes (gm_get ppm ''42'') = Some [''7777'']"
proof -
  have links: "pid_links sample_fs ''42'' = [''socket:[7777]'']" using sample_links by (simp add: sample_env_def)
  have "getMatchingPIDs sample_fs '''' = Inr [''42'']" "\<forall>pid\<in>set [''42'']. links_fine sample_fs pid"
    using sample_proc_scan by (simp_all add: proc_scan_def sample_env_def)
  from GetProcesses_finds [OF this(1) _ this(2)] links show ?thesis
    by (auto simp: inode_of_def socket_label_def)
qed

text \<open>C35. \<open>GetProcesses\<close> panics exactly if a matching process has a descriptor whose link reads
  \<open>socket:[\<close> and nothing more.\<close>

theorem GetProcesses_panics_iff:
  "GetProcesses fs f = Panic \<longleftrightarrow>
     (\<exists>pids pid. getMatchingPIDs fs f = Inr pids \<and> pid \<in> set pids \<and> ''socket:['' \<in> set (pid_links fs pid))"
  using GetProcesses_Panic_iff [of fs f] by (simp add: socket_label_def)

section \<open>Construction\<close>

text \<open>C33. Whatever options \<open>New\<close> is given, what it builds is safe for the goroutines: the ticker's interval
  is positive, there is at least one worker, the capture timeout is at most the default, and both
  queues hold two million elements, \<open>WithQueueSize\<close> or not. Nothing has happened yet: no connection,
  no process, no packet counted.\<close>

theorem New_result:
  assumes "New devices opts = Inr nf" "list_all library_option opts"
  shows "0 < syncInterval nf \<and> 1 \<le> workerNum nf \<and> 1000 \<le> qsize nf \<and> captureTimeout nf \<le> defaultCaptureTimeout \<and>
    chan_cap (packetQueue nf) = 2000000 \<and> chan_cap (delayQueue nf) = 2000000 \<and>
    chan_buf (packetQueue nf) = [] \<and> chan_buf (delayQueue nf) = [] \<and>
    lookup (connInodeHash nf) key = None \<and> procs_of nf pid = None \<and> LoadCounter nf = 0"
  using New_settings [OF assms] New_pristine [OF assms]
  by (simp add: settings_ok_def pristine_def make_chan_def defaultQueueSize_def procs_of_def procs_def LoadCounter_def)

theorem New_result_witness:
  "\<exists>nf. New None [WithWorkerNum (- 3), WithSyncInterval 5, WithQueueSize 5000] = Inr nf \<and> 1 \<le> workerNum nf \<and>
     qsize nf = 5000 \<and> chan_cap (packetQueue nf) = 2000000"
proof -
  obtain nf where nf: "New None [WithWorkerNum (- 3), WithSyncInterval 5, WithQueueSize 5000] = Inr nf" "qsize nf = 5000"
    by (simp add: New_def WithWorkerNum_def WithSyncInterval_def WithQueueSize_def)
  have "list_all library_option [WithWorkerNum (- 3), WithSyncInterval 5, WithQueueSize 5000]"
    by (simp add: library_option.workers library_option.interval library_option.queue)
  from New_result [OF nf(1) this] nf show ?thesis by simp
qed

text \<open>C34. The addresses taken for the machine's own are exactly the devices' addresses that are not
  multicast; a device is captured exactly if its name has one of the known prefixes.\<close>

theorem devices_chosen:
  "(gm_get (fst (parseIpaddrsAndDevices (Some devs))) ip \<noteq> None \<longleftrightarrow>
      (\<exists>dev. dev \<in> set devs \<and> (ip, False) \<in> set (dev_Addresses dev))) \<and>
   (gm_get (snd (parseIpaddrsAndDevices (Some devs))) n \<noteq> None \<longleftrightarrow>
      (\<exists>dev p. dev \<in> set devs \<and> dev_Name dev = n \<and>
         p \<in> {''eth'', ''em'', ''enp'', ''eno'', ''ppp'', ''lo'', ''bond''} \<and> HasPrefix n p))"
proof -
  have prefixes: "p \<in> {''eth'', ''em'', ''enp'', ''eno'', ''ppp'', ''lo'', ''bond''} \<longleftrightarrow> p \<in> set device_prefixes" for p
    by (simp only: device_prefixes_def list.set)
  have parse: "parseIpaddrsAndDevices (Some devs) = device_loop devs ([], [])"
    by (simp add: parseIpaddrsAndDevices_def)
  note res = get_device_loop [of devs "[]" "[]" ip n, unfolded gm_get_Nil]
  show ?thesis unfolding prefixes parse using res by blast
qed

section \<open>The user table and the ring queue\<close>

text \<open>C40. \<open>loadSystemUsersInfo\<close> never stores a user: it leaves the table empty or panics.\<close>

theorem no_user_is_ever_loaded:
  assumes "loadSystemUsersInfo file = Ret users"
  shows "getUserByUID users uid = ''''"
  using assms load_users_loop_Ret
  by (fastforce simp: loadSystemUsersInfo_def getUserByUID_def go_simps split: option.splits)

theorem no_user_is_ever_loaded_witness:
  "\<exists>users. loadSystemUsersInfo (Some (''root:x:0:0:root:/root:/bin/sh'' @ [CHR 0x0A])) = Ret users \<and>
     getUserByUID users ''0'' = ''''"
proof -
  have "loadSystemUsersInfo (Some (''root:x:0:0:root:/root:/bin/sh'' @ [CHR 0x0A])) = Ret (Some [])"
    by (simp add: loadSystemUsersInfo_def)
  with no_user_is_ever_loaded [OF this, of "''0''"] show ?thesis by blast
qed

text \<open>C37. The ring queue of a power-of-two size is first in first out, loses nothing and invents nothing,
  as long as elements are only added before the tail has come to the end of the buffer.\<close>

theorem ringQueue_fifo:
  assumes "rq_ok q" "rq.run ops q = (acc, out, q')"
  shows "rq_ok q' \<and> out @ rq_contents q' = rq_contents q @ acc"
  using assms by (rule rq.run_fifo)

theorem ringQueue_fifo_witness:
  "\<exists>q. newRingQueue 4 = Ret q \<and> (\<exists>out q'. rq.run [Enq (Some 1), Enq (Some (2 :: nat)), Deq] q = ([Some 1, Some 2], out, q') \<and>
     out @ rq_contents q' = [Some 1, Some 2])"
proof -
  let ?q = "\<lparr>rq_buf = [None, None, None, None], rq_head = 0, rq_tail = 0, rq_count = 0\<rparr> :: nat ringQueue"
  have new: "newRingQueue 4 = Ret ?q" by (simp add: newRingQueue_def numeral_eq_Suc)
  have "length (rq_buf ?q) = 2 ^ 2" by simp
  then have ok: "rq_ok ?q" unfolding rq_ok_def by fastforce
  obtain acc out q' where run: "rq.run [Enq (Some 1), Enq (Some 2), Deq] ?q = (acc, out, q')"
    by (meson prod_cases3)
  have "fst (rq.run [Enq (Some 1), Enq (Some 2), Deq] ?q) = [Some 1, Some 2]"
    by (simp add: rq_room_def rq_enq_def rq_Add_def rq_deq_def rq_Remove_def rq_Length_def go_index_def
        Let_def split: option.split prod.split)
  with ringQueue_fifo [OF ok run] run new show ?thesis by (auto simp: rq_contents_def)
qed

text \<open>C38. Past that point it is no queue, for every size that is a power of two from 2 on and all elements: filled but
  for one slot, relieved of \<open>r\<close> elements and given two more, both of which it accepts, it returns the first
  elements, then only the second of the two, and then a nil that nobody added.\<close>

theorem ringQueue_loses_element:
  assumes "length xs + 1 = 2 ^ k" "0 < r" "r \<le> length xs"
  shows "\<exists>q q'. newRingQueue (2 ^ k) = Ret q \<and>
    rq_exec (map Enq xs @ replicate r Deq @ [Enq y, Enq z] @ replicate (2 ^ k - r + 1) Deq) q = Some (xs @ [z, None], q') \<and>
    rq_Length q' = 0"
  using assms by (rule rq_overwrites)

theorem ringQueue_loses_element_witness:
  "\<exists>q q'. newRingQueue 4 = Ret q \<and>
     rq_exec [Enq (Some 1), Enq (Some 2), Enq (Some 3), Deq, Enq (Some 4), Enq (Some 5), Deq, Deq, Deq, Deq] q =
       Some ([Some 1, Some 2, Some (3 :: nat), Some 5, None], q')"
  using ringQueue_loses_element [of "[Some 1, Some 2, Some (3 :: nat)]" 2 1 "Some 4" "Some 5"]
  by (simp add: numeral_eq_Suc) blast

end
